(* ===== verification/Prelude.thy ===== *)
theory Prelude
  imports Main "HOL-Library.Word" "HOL-Library.Char_ord" "HOL-Library.List_Lexorder"
begin

text \<open>
  What the components share: Go's \<open>error\<close> values, the procedures that thread the server's
  state and may return an error, loops over a slice, and the weakest-precondition calculus
  the component proofs use. The collection \<open>wp\<close> holds one equation per combinator and per
  primitive operation, so that \<open>simp add: wp\<close> walks through a handler.
\<close>

section \<open>Errors\<close>

text \<open>
  The error values the program distinguishes: \<open>apiError\<close> with its status code and message
  (internal/server/server.go), the sentinels \<open>errUnauth\<close>, \<open>errForbidden\<close>,
  \<open>storage.ErrNotFound\<close> and \<open>security.ErrLocked\<close>, and every other error value
  (\<open>errors.New\<close>, driver errors, JSON errors), of which only the text is kept.
\<close>

datatype err =
    ApiError int string
  | ErrUnauth
  | ErrForbidden
  | ErrNotFound
  | ErrLocked
  | ErrText string

definition bad :: "string \<Rightarrow> err" where
  "bad s = ApiError 400 s"

definition status :: "err \<Rightarrow> int" where
  "status e = (case e of
      ApiError c m \<Rightarrow> c
    | ErrUnauth \<Rightarrow> 401
    | ErrForbidden \<Rightarrow> 403
    | ErrNotFound \<Rightarrow> 404
    | ErrLocked \<Rightarrow> 503
    | ErrText m \<Rightarrow> 500)"

text \<open>\<open>err.Error()\<close>, the message of an error.\<close>

definition Error :: "err \<Rightarrow> string" where
  "Error e = (case e of
      ApiError c m \<Rightarrow> m
    | ErrUnauth \<Rightarrow> ''authentication required''
    | ErrForbidden \<Rightarrow> ''permission denied''
    | ErrNotFound \<Rightarrow> ''record not found''
    | ErrLocked \<Rightarrow> ''server is locked''
    | ErrText m \<Rightarrow> m)"

section \<open>Procedures\<close>

text \<open>
  A procedure takes the state and returns a result or an error together with the new
  state. State changes made before an error stay: undoing them is the transaction's job.
\<close>

type_synonym ('s, 'a) proc = "'s \<Rightarrow> (err + 'a) \<times> 's"

definition ret :: "'a \<Rightarrow> ('s, 'a) proc" where
  "ret v = (\<lambda>s. (Inr v, s))"

definition throw :: "err \<Rightarrow> ('s, 'a) proc" where
  "throw e = (\<lambda>s. (Inl e, s))"

definition andthen :: "('s, 'a) proc \<Rightarrow> ('a \<Rightarrow> ('s, 'b) proc) \<Rightarrow> ('s, 'b) proc" where
  "andthen m f = (\<lambda>s. case m s of (Inl e, s') \<Rightarrow> (Inl e, s') | (Inr v, s') \<Rightarrow> f v s')"

text \<open>A call whose error value the caller inspects itself (\<open>if e := f(); e != nil\<close>).\<close>

definition attempt :: "('s, 'a) proc \<Rightarrow> ('s, err + 'a) proc" where
  "attempt m = (\<lambda>s. case m s of (r, s') \<Rightarrow> (Inr r, s'))"

text \<open>A call whose errors the caller replaces by its own (\<open>return bad(e.Error())\<close>).\<close>

definition on_error :: "('s, 'a) proc \<Rightarrow> (err \<Rightarrow> err) \<Rightarrow> ('s, 'a) proc" where
  "on_error m h = (\<lambda>s. case m s of (Inl e, s') \<Rightarrow> (Inl (h e), s') | (Inr v, s') \<Rightarrow> (Inr v, s'))"

definition gets :: "('s \<Rightarrow> 'a) \<Rightarrow> ('s, 'a) proc" where
  "gets f = (\<lambda>s. (Inr (f s), s))"

definition modify :: "('s \<Rightarrow> 's) \<Rightarrow> ('s, unit) proc" where
  "modify f = (\<lambda>s. (Inr (), f s))"

text \<open>A pure computation that may fail.\<close>

definition lift :: "err + 'a \<Rightarrow> ('s, 'a) proc" where
  "lift r = (\<lambda>s. (r, s))"

text \<open>\<open>for _, x := range xs\<close> whose body may return early with an error.\<close>

fun foreach :: "'x list \<Rightarrow> ('x \<Rightarrow> ('s, unit) proc) \<Rightarrow> ('s, unit) proc" where
  "foreach [] body = ret ()"
| "foreach (x # xs) body = andthen (body x) (\<lambda>_. foreach xs body)"

text \<open>The loop that unmarshals every row and appends it to a slice.\<close>

fun collect :: "('x \<Rightarrow> err + 'y) \<Rightarrow> 'x list \<Rightarrow> err + 'y list" where
  "collect f [] = Inr []"
| "collect f (x # xs) = (case f x of
      Inl e \<Rightarrow> Inl e
    | Inr y \<Rightarrow> (case collect f xs of Inl e \<Rightarrow> Inl e | Inr ys \<Rightarrow> Inr (y # ys)))"

section \<open>Weakest preconditions\<close>

named_theorems wp \<open>weakest-precondition equations of the combinators and operations\<close>

definition wpre :: "('s, 'a) proc \<Rightarrow> (err + 'a \<Rightarrow> 's \<Rightarrow> bool) \<Rightarrow> 's \<Rightarrow> bool" where
  "wpre m Q s \<longleftrightarrow> Q (fst (m s)) (snd (m s))"

lemma wpre_ret [wp]: "wpre (ret v) Q s \<longleftrightarrow> Q (Inr v) s"
  by (simp add: wpre_def ret_def)

lemma wpre_throw [wp]: "wpre (throw e) Q s \<longleftrightarrow> Q (Inl e) s"
  by (simp add: wpre_def throw_def)

lemma wpre_lift [wp]: "wpre (lift r) Q s \<longleftrightarrow> Q r s"
  by (simp add: wpre_def lift_def)

lemma wpre_gets [wp]: "wpre (gets f) Q s \<longleftrightarrow> Q (Inr (f s)) s"
  by (simp add: wpre_def gets_def)

lemma wpre_modify [wp]: "wpre (modify f) Q s \<longleftrightarrow> Q (Inr ()) (f s)"
  by (simp add: wpre_def modify_def)

lemma wpre_andthen [wp]:
  "wpre (andthen m f) Q s \<longleftrightarrow>
     wpre m (\<lambda>r s'. case r of Inl e \<Rightarrow> Q (Inl e) s' | Inr v \<Rightarrow> wpre (f v) Q s') s"
  by (simp add: wpre_def andthen_def split: prod.split sum.split)

lemma wpre_attempt [wp]: "wpre (attempt m) Q s \<longleftrightarrow> wpre m (\<lambda>r. Q (Inr r)) s"
  by (simp add: wpre_def attempt_def split: prod.split)

lemma wpre_on_error [wp]:
  "wpre (on_error m h) Q s \<longleftrightarrow>
     wpre m (\<lambda>r. Q (case r of Inl e \<Rightarrow> Inl (h e) | Inr v \<Rightarrow> Inr v)) s"
  by (simp add: wpre_def on_error_def split: prod.split sum.split)

lemma wpre_Let [wp]: "wpre (Let v f) Q s \<longleftrightarrow> wpre (f v) Q s"
  by (simp add: Let_def)

lemma wpre_mono:
  "wpre m Q s \<Longrightarrow> (\<And>r s'. Q r s' \<Longrightarrow> R r s') \<Longrightarrow> wpre m R s"
  by (simp add: wpre_def)

lemma wpre_bind:
  assumes "wpre m P s" and "\<And>v s'. P (Inr v) s' \<Longrightarrow> wpre (f v) Q s'" and "\<And>e s'. P (Inl e) s' \<Longrightarrow> Q (Inl e) s'"
  shows "wpre (andthen m f) Q s"
  unfolding wpre_andthen using assms(1) by (rule wpre_mono) (auto simp: assms(2,3) split: sum.split)

lemma wpre_conj:
  "wpre m Q s \<Longrightarrow> wpre m R s \<Longrightarrow> wpre m (\<lambda>r s'. Q r s' \<and> R r s') s"
  by (simp add: wpre_def)

lemma wpreI: "(\<And>r s'. m s = (r, s') \<Longrightarrow> Q r s') \<Longrightarrow> wpre m Q s"
  by (simp add: wpre_def)

lemma wpreD: "wpre m Q s \<Longrightarrow> m s = (r, s') \<Longrightarrow> Q r s'"
  by (simp add: wpre_def)

lemma wpre_run: "m s = (r, s') \<Longrightarrow> wpre m Q s \<longleftrightarrow> Q r s'"
  by (simp add: wpre_def)

text \<open>Running a sequence whose first step is known.\<close>

lemma andthen_Inr: "m s = (Inr v, s') \<Longrightarrow> andthen m f s = f v s'"
  by (simp add: andthen_def)

lemma andthen_Inl: "m s = (Inl e, s') \<Longrightarrow> andthen m f s = (Inl e, s')"
  by (simp add: andthen_def)

lemma andthen_assoc: "andthen (andthen m f) g = andthen m (\<lambda>x. andthen (f x) g)"
  by (rule ext) (simp add: andthen_def split: prod.split sum.split)

lemma andthen_ret: "andthen (ret v) f = f v"
  by (rule ext) (simp add: andthen_def ret_def)

lemma foreach_Cons_run: "body x s = (Inr (), s') \<Longrightarrow> foreach (x # xs) body s = foreach xs body s'"
  by (simp add: andthen_def)

lemma andthen_cases:
  "andthen m f s = (r, s') \<Longrightarrow>
     (\<exists>e. m s = (Inl e, s') \<and> r = Inl e) \<or> (\<exists>v s1. m s = (Inr v, s1) \<and> f v s1 = (r, s'))"
  by (auto simp: andthen_def split: prod.splits sum.splits)

text \<open>A loop invariant that every iteration keeps, whether or not it returns early.\<close>

lemma wpre_foreach_inv:
  assumes "\<And>x s. x \<in> set xs \<Longrightarrow> I s \<Longrightarrow> wpre (body x) (\<lambda>_ s'. I s') s" and "I s"
  shows "wpre (foreach xs body) (\<lambda>_ s'. I s') s"
  using assms
proof (induction xs arbitrary: s)
  case Nil
  then show ?case by (simp add: wp)
next
  case (Cons x xs)
  have rest: "I s' \<Longrightarrow> wpre (foreach xs body) (\<lambda>_ s'. I s') s'" for s'
    using Cons.prems(1) by (intro Cons.IH) simp_all
  have "wpre (body x) (\<lambda>_ s'. I s') s"
    using Cons.prems by simp
  then show ?case
    unfolding foreach.simps wpre_andthen
    by (rule wpre_mono) (simp add: rest split: sum.split)
qed

section \<open>What a successful run has done\<close>

text \<open>
  A run that ends without an error took one path through the code: these equations follow
  it backwards, one combinator at a time, without a case distinction for the errors.
\<close>

named_theorems did \<open>the steps behind a successful run\<close>

lemma did_pure [did]:
  "ret u s = (Inr v, s') \<longleftrightarrow> u = v \<and> s' = s"
  "throw e s = (Inr v, s') \<longleftrightarrow> False"
  "lift r s = (Inr v, s') \<longleftrightarrow> r = Inr v \<and> s' = s"
  "gets f s = (Inr x, s') \<longleftrightarrow> x = f s \<and> s' = s"
  "modify h s = (Inr y, s') \<longleftrightarrow> s' = h s"
  by (auto simp: ret_def throw_def lift_def gets_def modify_def)

lemma did_andthen [did]:
  "andthen m f s = (Inr v, s') \<longleftrightarrow> (\<exists>u t. m s = (Inr u, t) \<and> f u t = (Inr v, s'))"
  by (auto simp: andthen_def split: prod.split sum.split)

lemma did_attempt [did]:
  "attempt m s = (Inr x, s') \<longleftrightarrow> m s = (x, s')"
  by (auto simp: attempt_def split: prod.split)

lemma did_on_error [did]:
  "on_error m h s = (Inr v, s') \<longleftrightarrow> m s = (Inr v, s')"
  by (auto simp: on_error_def split: prod.split sum.split)

lemma did_if [did]:
  "(if c then a else b) s = (Inr v, s') \<longleftrightarrow> c \<and> a s = (Inr v, s') \<or> \<not> c \<and> b s = (Inr v, s')"
  by simp

lemma did_option [did]:
  "(case x of None \<Rightarrow> a | Some y \<Rightarrow> f y) s = (Inr v, s') \<longleftrightarrow>
     x = None \<and> a s = (Inr v, s') \<or> (\<exists>y. x = Some y \<and> f y s = (Inr v, s'))"
  by (cases x) auto

lemma did_sum [did]:
  "(case x of Inl e \<Rightarrow> f e | Inr y \<Rightarrow> g y) s = (Inr v, s') \<longleftrightarrow>
     (\<exists>e. x = Inl e \<and> f e s = (Inr v, s')) \<or> (\<exists>y. x = Inr y \<and> g y s = (Inr v, s'))"
  by (cases x) auto

lemma did_prod [did]:
  "(case x of (a, b) \<Rightarrow> f a b) s = (Inr v, s') \<longleftrightarrow> f (fst x) (snd x) s = (Inr v, s')"
  by (cases x) simp

section \<open>Relations between the states before and after\<close>

text \<open>
  \<open>steps R m\<close>: whatever \<open>m\<close> returns, the state before and the state after are related by
  \<open>R\<close>. For a reflexive and transitive \<open>R\<close> the combinators carry it; instances are frames
  (what a handler does not touch) and invariants (\<open>I\<close> before implies \<open>I\<close> after). The rules
  are collected in \<open>steps\<close>, so that \<open>intro steps\<close> walks through a handler.
\<close>

named_theorems steps \<open>introduction rules for the relations a procedure respects\<close>

definition steps :: "('s \<Rightarrow> 's \<Rightarrow> bool) \<Rightarrow> ('s, 'a) proc \<Rightarrow> bool" where
  "steps R m \<longleftrightarrow> (\<forall>s. wpre m (\<lambda>_ s'. R s s') s)"

lemma stepsI: "(\<And>s. wpre m (\<lambda>_ s'. R s s') s) \<Longrightarrow> steps R m"
  by (simp add: steps_def)

lemma stepsD: "steps R m \<Longrightarrow> m s = (r, s') \<Longrightarrow> R s s'"
  by (auto simp: steps_def wpre_def dest: spec [of _ s])

lemma steps_wpre: "steps R m \<Longrightarrow> wpre m (\<lambda>_ s'. R s s') s"
  by (simp add: steps_def)

lemma steps_if [steps]: "(c \<Longrightarrow> steps R a) \<Longrightarrow> (\<not> c \<Longrightarrow> steps R b) \<Longrightarrow> steps R (if c then a else b)"
  by simp

lemma steps_option [steps]:
  "(x = None \<Longrightarrow> steps R a) \<Longrightarrow> (\<And>y. x = Some y \<Longrightarrow> steps R (f y)) \<Longrightarrow>
     steps R (case x of None \<Rightarrow> a | Some y \<Rightarrow> f y)"
  by (cases x) simp_all

lemma steps_sum [steps]:
  "(\<And>e. x = Inl e \<Longrightarrow> steps R (f e)) \<Longrightarrow> (\<And>y. x = Inr y \<Longrightarrow> steps R (g y)) \<Longrightarrow>
     steps R (case x of Inl e \<Rightarrow> f e | Inr y \<Rightarrow> g y)"
  by (cases x) simp_all

lemma steps_prod [steps]: "(\<And>a b. x = (a, b) \<Longrightarrow> steps R (f a b)) \<Longrightarrow> steps R (case x of (a, b) \<Rightarrow> f a b)"
  by (cases x) simp

lemma steps_let [steps]: "(\<And>x. x = v \<Longrightarrow> steps R (f x)) \<Longrightarrow> steps R (let x = v in f x)"
  by simp

locale step_relation =
  fixes R :: "'s \<Rightarrow> 's \<Rightarrow> bool"
  assumes R_refl: "R s s"
    and R_trans: "R s t \<Longrightarrow> R t u \<Longrightarrow> R s u"
begin

lemma steps_ret: "steps R (ret v)"
  by (rule stepsI) (simp add: wp R_refl)

lemma steps_throw: "steps R (throw e)"
  by (rule stepsI) (simp add: wp R_refl)

lemma steps_lift: "steps R (lift r)"
  by (rule stepsI) (simp add: wp R_refl)

lemma steps_gets: "steps R (gets f)"
  by (rule stepsI) (simp add: wp R_refl)

lemma steps_modify: "(\<And>s. R s (f s)) \<Longrightarrow> steps R (modify f)"
  by (rule stepsI) (simp add: wp)

lemma steps_attempt: "steps R m \<Longrightarrow> steps R (attempt m)"
  by (simp add: steps_def wp)

lemma steps_on_error: "steps R m \<Longrightarrow> steps R (on_error m h)"
  by (simp add: steps_def wp)

lemma steps_andthen:
  assumes "steps R m" and "\<And>v. steps R (f v)"
  shows "steps R (andthen m f)"
proof (rule stepsI)
  fix s
  have "wpre (f v) (\<lambda>_ s'. R s s') t" if "R s t" for v t
    using steps_wpre [OF assms(2)] by (rule wpre_mono) (rule R_trans [OF that])
  with steps_wpre [OF assms(1), of s] show "wpre (andthen m f) (\<lambda>_ s'. R s s') s"
    unfolding wpre_andthen by (elim wpre_mono) (simp split: sum.split)
qed

lemma steps_foreach: "(\<And>x. x \<in> set xs \<Longrightarrow> steps R (body x)) \<Longrightarrow> steps R (foreach xs body)"
  by (induction xs) (simp_all add: steps_ret steps_andthen)

lemmas steps_pure = steps_ret steps_throw steps_lift steps_gets
lemmas steps_combine = steps_attempt steps_on_error steps_andthen steps_foreach

end

text \<open>Two instances for every state: an invariant, and a part of the state that stays.\<close>

interpretation keeps: step_relation "\<lambda>s s'. I s \<longrightarrow> I s'" for I :: "'s \<Rightarrow> bool"
  by unfold_locales auto

interpretation same: step_relation "\<lambda>s s'. f s' = f s" for f :: "'s \<Rightarrow> 'b"
  by unfold_locales auto

lemmas steps_instances [steps] = keeps.steps_pure keeps.steps_combine same.steps_pure same.steps_combine

section \<open>What a successful procedure returns\<close>

named_theorems answers \<open>introduction rules for what a procedure returns\<close>

definition answers :: "('a \<Rightarrow> bool) \<Rightarrow> ('s, 'a) proc \<Rightarrow> bool" where
  "answers Q m \<longleftrightarrow> (\<forall>s v s'. m s = (Inr v, s') \<longrightarrow> Q v)"

lemma answersD: "answers Q m \<Longrightarrow> m s = (Inr v, s') \<Longrightarrow> Q v"
  unfolding answers_def by blast

lemma answers_ret [answers]: "Q v \<Longrightarrow> answers Q (ret v)"
  by (simp add: answers_def ret_def)

lemma answers_throw [answers]: "answers Q (throw e)"
  by (simp add: answers_def throw_def)

lemma answers_andthen: "(\<And>v. answers Q (f v)) \<Longrightarrow> answers Q (andthen m f)"
  by (auto simp: answers_def dest!: andthen_cases)

lemma answers_through:
  "answers P m \<Longrightarrow> (\<And>v. P v \<Longrightarrow> answers Q (f v)) \<Longrightarrow> answers Q (andthen m f)"
  by (fastforce simp: answers_def dest!: andthen_cases)

lemma answers_if [answers]:
  "(c \<Longrightarrow> answers Q a) \<Longrightarrow> (\<not> c \<Longrightarrow> answers Q b) \<Longrightarrow> answers Q (if c then a else b)"
  by simp

lemma answers_option [answers]:
  "(x = None \<Longrightarrow> answers Q a) \<Longrightarrow> (\<And>y. x = Some y \<Longrightarrow> answers Q (f y)) \<Longrightarrow>
     answers Q (case x of None \<Rightarrow> a | Some y \<Rightarrow> f y)"
  by (cases x) simp_all

lemma answers_sum [answers]:
  "(\<And>e. x = Inl e \<Longrightarrow> answers Q (f e)) \<Longrightarrow> (\<And>y. x = Inr y \<Longrightarrow> answers Q (g y)) \<Longrightarrow>
     answers Q (case x of Inl e \<Rightarrow> f e | Inr y \<Rightarrow> g y)"
  by (cases x) simp_all

lemma answers_prod [answers]:
  "(\<And>a b. x = (a, b) \<Longrightarrow> answers Q (f a b)) \<Longrightarrow> answers Q (case x of (a, b) \<Rightarrow> f a b)"
  by (cases x) simp

lemma answers_let [answers]: "(\<And>x. x = v \<Longrightarrow> answers Q (f x)) \<Longrightarrow> answers Q (let x = v in f x)"
  by simp

text \<open>A step that continues with what it has read, and one that continues with a known result.\<close>

context step_relation
begin

lemma steps_reading: "(\<And>s. wpre (f (g s)) (\<lambda>_ s'. R s s') s) \<Longrightarrow> steps R (andthen (gets g) f)"
  by (rule stepsI) (simp add: wp)

lemma steps_through:
  assumes "steps R m" and "answers Q m" and "\<And>v. Q v \<Longrightarrow> steps R (f v)"
  shows "steps R (andthen m f)"
proof (rule stepsI)
  fix s
  show "wpre (andthen m f) (\<lambda>_ s'. R s s') s"
    unfolding wpre_andthen
  proof (rule wpreI, goal_cases)
    case (1 r t)
    have first: "R s t" by (rule stepsD [OF assms(1) 1])
    show ?case
    proof (cases r)
      case (Inr v)
      then have "Q v" using answersD [OF assms(2)] 1 by blast
      from steps_wpre [OF assms(3) [OF this]] show ?thesis
        unfolding Inr sum.case by (rule wpre_mono) (rule R_trans [OF first])
    qed (simp add: first)
  qed
qed

end

lemma collect_InrD: "collect f xs = Inr ys \<Longrightarrow> map f xs = map Inr ys"
  by (induction xs arbitrary: ys) (auto split: sum.splits)

lemma collect_InrI: "map f xs = map Inr ys \<Longrightarrow> collect f xs = Inr ys"
proof (induction ys arbitrary: xs)
  case (Cons y ys)
  then obtain x xs' where "xs = x # xs'" by (cases xs) auto
  with Cons show ?case by simp
qed simp

lemma collect_Inr: "collect f xs = Inr ys \<longleftrightarrow> map f xs = map Inr ys"
  by (blast intro: collect_InrI dest: collect_InrD)

lemma collect_total: "(\<And>x. x \<in> set xs \<Longrightarrow> f x = Inr (g x)) \<Longrightarrow> collect f xs = Inr (map g xs)"
  by (induction xs) auto

end
