(* ===== verification/GoStrings.thy ===== *)
theory GoStrings
  imports Prelude "HOL-Library.Sublist"
begin

text \<open>
  The parts of Go's \<open>strings\<close>, \<open>unicode\<close> and \<open>unicode/utf8\<close> packages the program uses. A Go
  string is a sequence of bytes, here a \<open>string\<close> (a list of 8-bit \<open>char\<close>s), so \<open>len\<close> is
  \<open>length\<close>; \<open>range\<close> over a string decodes UTF-8 and yields U+FFFD for each byte that does
  not begin a valid encoding.
\<close>

section \<open>Prefixes, suffixes, separators\<close>

definition HasPrefix :: "string \<Rightarrow> string \<Rightarrow> bool" where
  "HasPrefix s p \<longleftrightarrow> prefix p s"

definition HasSuffix :: "string \<Rightarrow> string \<Rightarrow> bool" where
  "HasSuffix s p \<longleftrightarrow> suffix p s"

definition TrimPrefix :: "string \<Rightarrow> string \<Rightarrow> string" where
  "TrimPrefix s p = (if HasPrefix s p then drop (length p) s else s)"

definition TrimSuffix :: "string \<Rightarrow> string \<Rightarrow> string" where
  "TrimSuffix s p = (if HasSuffix s p then take (length s - length p) s else s)"

definition ContainsAny :: "string \<Rightarrow> string \<Rightarrow> bool" where
  "ContainsAny s cs \<longleftrightarrow> list_ex (\<lambda>c. c \<in> set cs) s"

fun Split :: "string \<Rightarrow> char \<Rightarrow> string list" where
  "Split [] c = [[]]"
| "Split (x # xs) c =
     (if x = c then [] # Split xs c
      else (case Split xs c of [] \<Rightarrow> [[x]] | p # ps \<Rightarrow> (x # p) # ps))"

fun Join :: "string list \<Rightarrow> char \<Rightarrow> string" where
  "Join [] c = []"
| "Join [p] c = p"
| "Join (p # q # ps) c = p @ c # Join (q # ps) c"

lemma TrimPrefix_append [simp]: "TrimPrefix (p @ s) p = s"
  by (simp add: TrimPrefix_def HasPrefix_def)

lemma TrimSuffix_append [simp]: "TrimSuffix (s @ p) p = s"
  by (simp add: TrimSuffix_def HasSuffix_def suffix_def)

lemma HasSuffix_iff: "HasSuffix s p \<longleftrightarrow> (\<exists>b. s = b @ p)"
  by (simp add: HasSuffix_def suffix_def)

lemma HasPrefix_iff: "HasPrefix s p \<longleftrightarrow> (\<exists>r. s = p @ r)"
  by (simp add: HasPrefix_def prefix_def)

lemma ContainsAny_iff: "ContainsAny s cs \<longleftrightarrow> (\<exists>c \<in> set cs. c \<in> set s)"
  by (auto simp: ContainsAny_def list_ex_iff)

lemma set_Join: "set (Join ps c) \<subseteq> insert c (\<Union> (set ` set ps))"
  by (induction ps c rule: Join.induct) auto

lemma Split_not_Nil [simp]: "Split s c \<noteq> []"
  by (cases s) (auto split: list.split)

lemma Join_Cons: "ps \<noteq> [] \<Longrightarrow> Join (p # ps) c = p @ c # Join ps c"
  by (cases ps) auto

lemma Join_Split [simp]: "Join (Split s c) c = s"
proof (induction s)
  case Nil
  then show ?case by simp
next
  case (Cons x s)
  obtain p ps where "Split s c = p # ps"
    using Split_not_Nil [of s c] by (cases "Split s c") auto
  with Cons show ?case
    by (cases ps) auto
qed

lemma Split_parts: "p \<in> set (Split s c) \<Longrightarrow> c \<notin> set p"
proof (induction s arbitrary: p)
  case (Cons x s)
  then show ?case by (auto split: if_splits list.splits)
qed simp

lemma set_Split_subset: "p \<in> set (Split s c) \<Longrightarrow> set p \<subseteq> set s"
proof (induction s arbitrary: p)
  case (Cons x s)
  then show ?case by (fastforce split: if_splits list.splits)
qed simp

lemma Split_no_sep: "c \<notin> set s \<Longrightarrow> Split s c = [s]"
  by (induction s) auto

lemma Split_append: "Split (a @ c # b) c = Split a c @ Split b c"
proof (induction a)
  case (Cons x a)
  obtain p ps where "Split a c = p # ps"
    using Split_not_Nil [of a c] by (cases "Split a c") auto
  with Cons show ?case by simp
qed simp

lemma Split_Join: "ps \<noteq> [] \<Longrightarrow> (\<And>p. p \<in> set ps \<Longrightarrow> c \<notin> set p) \<Longrightarrow> Split (Join ps c) c = ps"
proof (induction ps)
  case (Cons p ps)
  show ?case
  proof (cases "ps = []")
    case True
    with Cons.prems show ?thesis by (simp add: Split_no_sep)
  next
    case False
    with Cons have "Split (Join ps c) c = ps" by simp
    with False Cons.prems show ?thesis
      by (simp add: Join_Cons Split_append Split_no_sep)
  qed
qed simp

lemma Split_inject: "Split a c = Split b c \<longleftrightarrow> a = b"
  by (metis Join_Split)

text \<open>A string prefix that ends at a separator is a prefix of the list of components.\<close>

lemma prefix_sep_iff_Split:
  "prefix (b @ [c]) s \<longleftrightarrow> (\<exists>rest. rest \<noteq> [] \<and> Split s c = Split b c @ rest)"
proof
  assume "prefix (b @ [c]) s"
  then obtain t where "s = b @ c # t" by (auto simp: prefix_def)
  then have "Split s c = Split b c @ Split t c" by (simp add: Split_append)
  then show "\<exists>rest. rest \<noteq> [] \<and> Split s c = Split b c @ rest" by auto
next
  assume "\<exists>rest. rest \<noteq> [] \<and> Split s c = Split b c @ rest"
  then obtain rest where r: "rest \<noteq> []" "Split s c = Split b c @ rest" by blast
  have parts: "p \<in> set rest \<Longrightarrow> c \<notin> set p" for p
    using Split_parts [of p s c] r(2) by simp
  have "Split (b @ c # Join rest c) c = Split s c"
    using r parts by (simp add: Split_append Split_Join)
  then have "s = b @ c # Join rest c" by (simp add: Split_inject)
  then show "prefix (b @ [c]) s" by (simp add: prefix_def)
qed

text \<open>Deciding prefixes of partly known strings.\<close>

lemma HasPrefix_step:
  "HasPrefix s [] \<longleftrightarrow> True" "HasPrefix [] (c # cs) \<longleftrightarrow> False"
  "HasPrefix (d # s) (c # cs) \<longleftrightarrow> d = c \<and> HasPrefix s cs"
  by (auto simp: HasPrefix_def)

lemma HasPrefixE: "HasPrefix s p \<Longrightarrow> (\<And>t. s = p @ t \<Longrightarrow> R) \<Longrightarrow> R"
  by (auto simp: HasPrefix_def prefix_def)

text \<open>\<open>strings.ReplaceAll\<close> for a non-empty search string.\<close>

fun ReplaceAll :: "string \<Rightarrow> string \<Rightarrow> string \<Rightarrow> string" where
  "ReplaceAll old new [] = []"
| "ReplaceAll old new (c # cs) =
     (if HasPrefix (c # cs) old then new @ ReplaceAll old new (drop (length old - 1) cs)
      else c # ReplaceAll old new cs)"

section \<open>UTF-8\<close>

abbreviation byte :: "char \<Rightarrow> nat" where
  "byte c \<equiv> of_char c"

definition RuneError :: nat where
  "RuneError = 0xFFFD"

definition cont :: "nat \<Rightarrow> bool" where
  "cont b \<longleftrightarrow> 0x80 \<le> b \<and> b \<le> 0xBF"

text \<open>The range the second byte of a three- or four-byte encoding must lie in.\<close>

definition second_ok :: "nat \<Rightarrow> nat \<Rightarrow> bool" where
  "second_ok b0 b1 \<longleftrightarrow>
     (if b0 = 0xE0 then 0xA0 else if b0 = 0xF0 then 0x90 else 0x80) \<le> b1 \<and>
     b1 \<le> (if b0 = 0xED then 0x9F else if b0 = 0xF4 then 0x8F else 0xBF)"

fun DecodeRune :: "string \<Rightarrow> nat \<times> nat" where
  "DecodeRune [] = (RuneError, 0)"
| "DecodeRune (c0 # cs) =
     (let b0 = byte c0 in
      if b0 < 0x80 then (b0, 1)
      else if 0xC2 \<le> b0 \<and> b0 \<le> 0xDF then
        (case cs of
           c1 # _ \<Rightarrow> if cont (byte c1) then ((b0 - 0xC0) * 0x40 + (byte c1 - 0x80), 2)
                     else (RuneError, 1)
         | _ \<Rightarrow> (RuneError, 1))
      else if 0xE0 \<le> b0 \<and> b0 \<le> 0xEF then
        (case cs of
           c1 # c2 # _ \<Rightarrow>
             if second_ok b0 (byte c1) \<and> cont (byte c2)
             then ((b0 - 0xE0) * 0x1000 + (byte c1 - 0x80) * 0x40 + (byte c2 - 0x80), 3)
             else (RuneError, 1)
         | _ \<Rightarrow> (RuneError, 1))
      else if 0xF0 \<le> b0 \<and> b0 \<le> 0xF4 then
        (case cs of
           c1 # c2 # c3 # _ \<Rightarrow>
             if second_ok b0 (byte c1) \<and> cont (byte c2) \<and> cont (byte c3)
             then ((b0 - 0xF0) * 0x40000 + (byte c1 - 0x80) * 0x1000
                   + (byte c2 - 0x80) * 0x40 + (byte c3 - 0x80), 4)
             else (RuneError, 1)
         | _ \<Rightarrow> (RuneError, 1))
      else (RuneError, 1))"

text \<open>\<open>for _, r := range s\<close>.\<close>

fun runes :: "string \<Rightarrow> nat list" where
  "runes [] = []"
| "runes (c # cs) = (case DecodeRune (c # cs) of (r, n) \<Rightarrow> r # runes (drop (n - 1) cs))"

definition IsControl :: "nat \<Rightarrow> bool" where
  "IsControl r \<longleftrightarrow> r \<le> 0x1F \<or> 0x7F \<le> r \<and> r \<le> 0x9F"

lemma second_ok_ge: "second_ok b0 b1 \<Longrightarrow> 0x80 \<le> b1"
  by (auto simp: second_ok_def split: if_splits)

lemma DecodeRune_ascii: "byte c < 0x80 \<Longrightarrow> DecodeRune (c # cs) = (byte c, 1)"
  by simp

text \<open>The bytes a multi-byte rune consumes after its first are never ASCII.\<close>

lemma DecodeRune_consumed:
  assumes "DecodeRune (c # cs) = (r, n)" and "d \<in> set (take (n - 1) cs)"
  shows "0x80 \<le> byte d"
  using assms
  by (auto simp: Let_def cont_def dest!: second_ok_ge split: if_splits list.splits)

lemma ascii_in_runes:
  assumes "d \<in> set s" and "byte d < 0x80"
  shows "byte d \<in> set (runes s)"
  using assms
proof (induction s rule: runes.induct)
  case (2 c cs)
  obtain r n where rn: "DecodeRune (c # cs) = (r, n)" by (cases "DecodeRune (c # cs)")
  show ?case
  proof (cases "d = c")
    case True
    with rn "2.prems"(2) have "r = byte d" by (simp add: DecodeRune_ascii)
    with rn show ?thesis by (simp del: DecodeRune.simps)
  next
    case False
    with "2.prems"(1) have "d \<in> set cs" by simp
    then have "d \<in> set (take (n - 1) cs) \<or> d \<in> set (drop (n - 1) cs)"
      by (metis Un_iff append_take_drop_id set_append)
    moreover have "d \<notin> set (take (n - 1) cs)"
      using DecodeRune_consumed [OF rn, of d] "2.prems"(2) by auto
    ultimately have "d \<in> set (drop (n - 1) cs)" by blast
    with "2.IH" [OF rn [symmetric]] "2.prems"(2) have "byte d \<in> set (runes (drop (n - 1) cs))"
      by simp
    with rn show ?thesis by (simp del: DecodeRune.simps)
  qed
qed simp

section \<open>TrimSpace\<close>

text \<open>
  The encodings of the runes for which \<open>unicode.IsSpace\<close> holds. None of them is a prefix or
  a suffix of another, and none begins with a continuation byte, so trimming runes from
  either end is removing these byte strings.
\<close>

definition space_encodings :: "string list" where
  "space_encodings =
     [[CHR 0x09], [CHR 0x0A], [CHR 0x0B], [CHR 0x0C], [CHR 0x0D], [CHR 0x20],
      [CHR 0xC2, CHR 0x85], [CHR 0xC2, CHR 0xA0], [CHR 0xE1, CHR 0x9A, CHR 0x80],
      [CHR 0xE2, CHR 0x80, CHR 0x80], [CHR 0xE2, CHR 0x80, CHR 0x81],
      [CHR 0xE2, CHR 0x80, CHR 0x82], [CHR 0xE2, CHR 0x80, CHR 0x83],
      [CHR 0xE2, CHR 0x80, CHR 0x84], [CHR 0xE2, CHR 0x80, CHR 0x85],
      [CHR 0xE2, CHR 0x80, CHR 0x86], [CHR 0xE2, CHR 0x80, CHR 0x87],
      [CHR 0xE2, CHR 0x80, CHR 0x88], [CHR 0xE2, CHR 0x80, CHR 0x89],
      [CHR 0xE2, CHR 0x80, CHR 0x8A], [CHR 0xE2, CHR 0x80, CHR 0xA8],
      [CHR 0xE2, CHR 0x80, CHR 0xA9], [CHR 0xE2, CHR 0x80, CHR 0xAF],
      [CHR 0xE2, CHR 0x81, CHR 0x9F], [CHR 0xE3, CHR 0x80, CHR 0x80]]"

fun strip_first :: "string list \<Rightarrow> string \<Rightarrow> string option" where
  "strip_first [] s = None"
| "strip_first (e # es) s =
     (if e \<noteq> [] \<and> prefix e s then Some (drop (length e) s) else strip_first es s)"

lemma strip_first_shorter: "strip_first es s = Some t \<Longrightarrow> length t < length s"
proof (induction es)
  case (Cons e es)
  then show ?case
    by (cases s; cases e) (auto split: if_splits)
qed simp

function trim_with :: "string list \<Rightarrow> string \<Rightarrow> string" where
  "trim_with es s = (case strip_first es s of None \<Rightarrow> s | Some t \<Rightarrow> trim_with es t)"
  by pat_completeness auto
termination
  by (relation "measure (\<lambda>(es, s). length s)") (auto dest: strip_first_shorter)

declare trim_with.simps [simp del]

definition TrimLeftSpace :: "string \<Rightarrow> string" where
  "TrimLeftSpace s = trim_with space_encodings s"

definition TrimRightSpace :: "string \<Rightarrow> string" where
  "TrimRightSpace s = rev (trim_with (map rev space_encodings) (rev s))"

definition TrimSpace :: "string \<Rightarrow> string" where
  "TrimSpace s = TrimRightSpace (TrimLeftSpace s)"

lemma trim_with_length: "length (trim_with es s) \<le> length s"
proof (induction es s rule: trim_with.induct)
  case (1 es s)
  show ?case
  proof (cases "strip_first es s")
    case None
    then show ?thesis by (subst trim_with.simps) simp
  next
    case (Some t)
    with "1" strip_first_shorter [OF Some] show ?thesis
      by (subst trim_with.simps) simp
  qed
qed

lemma trim_with_id: "trim_with es s = s \<longleftrightarrow> strip_first es s = None"
proof (cases "strip_first es s")
  case None
  then show ?thesis by (subst trim_with.simps) simp
next
  case (Some t)
  have "length (trim_with es t) < length s"
    using trim_with_length [of es t] strip_first_shorter [OF Some] by simp
  with Some show ?thesis by (subst trim_with.simps) auto
qed

lemma strip_first_None:
  "[] \<notin> set es \<Longrightarrow> strip_first es s = None \<longleftrightarrow> (\<forall>e \<in> set es. \<not> prefix e s)"
  by (induction es) auto

lemma TrimSpace_id:
  "TrimSpace s = s \<longleftrightarrow>
     (\<forall>e \<in> set space_encodings. \<not> prefix e s \<and> \<not> suffix e s)"
proof -
  have l: "length (TrimLeftSpace s) \<le> length s"
    by (simp add: TrimLeftSpace_def trim_with_length)
  have r: "length (TrimRightSpace t) \<le> length t" for t
    using trim_with_length [of _ "rev t"] by (simp add: TrimRightSpace_def)
  have shorter: "TrimLeftSpace s \<noteq> s \<Longrightarrow> length (TrimLeftSpace s) < length s"
  proof -
    assume "TrimLeftSpace s \<noteq> s"
    then obtain t where t: "strip_first space_encodings s = Some t"
      by (auto simp: TrimLeftSpace_def trim_with_id)
    then have "TrimLeftSpace s = trim_with space_encodings t"
      unfolding TrimLeftSpace_def by (subst trim_with.simps) simp
    with trim_with_length [of space_encodings t] strip_first_shorter [OF t] show ?thesis by simp
  qed
  have "TrimSpace s = s \<longleftrightarrow> TrimLeftSpace s = s \<and> TrimRightSpace s = s"
    using shorter r [of "TrimLeftSpace s"] unfolding TrimSpace_def by force
  also have "TrimLeftSpace s = s \<longleftrightarrow> (\<forall>e \<in> set space_encodings. \<not> prefix e s)"
    unfolding TrimLeftSpace_def trim_with_id
    by (rule strip_first_None) (simp add: space_encodings_def)
  also have "TrimRightSpace s = s \<longleftrightarrow> (\<forall>e \<in> set space_encodings. \<not> suffix e s)"
    unfolding TrimRightSpace_def rev_swap trim_with_id
    by (subst strip_first_None) (auto simp: space_encodings_def suffix_to_prefix)
  finally show ?thesis by blast
qed

end
