(* ===== verification/Paths.thy ===== *)
theory Paths
  imports GoStrings
begin

text \<open>
  Path normalisation and authorization (internal/security/security.go: \<open>Normalize\<close>,
  \<open>ValidateRules\<close>, \<open>Allowed\<close>), with the component-wise reading of rules that the comments
  and setup.md promise: a rule grants one path or, with a terminal \<open>/*\<close>, the proper
  descendants of one path.
\<close>

section \<open>The functions\<close>

abbreviation slash :: char where
  "slash \<equiv> CHR ''/''"

definition invalid_path :: err where
  "invalid_path = ErrText ''invalid secret path''"

definition Normalize :: "string \<Rightarrow> err + string" where
  "Normalize p =
     (if p = [] \<or> length p > 512 \<or> TrimSpace p \<noteq> p \<or> HasPrefix p ''/''
         \<or> ContainsAny p [CHR 0x5C, CHR ''%'', CHR ''*'', CHR ''?'']
      then Inl invalid_path
      else if list_ex IsControl (runes p) then Inl invalid_path
      else if list_ex (\<lambda>part. part = [] \<or> part = ''.'' \<or> part = ''..'') (Split p slash)
      then Inl invalid_path
      else Inr p)"

fun ValidateRules :: "string list \<Rightarrow> err + unit" where
  "ValidateRules [] = Inr ()"
| "ValidateRules (r # rs) =
     (case Normalize (TrimSuffix r ''/*'') of Inl e \<Rightarrow> Inl e | Inr _ \<Rightarrow> ValidateRules rs)"

fun allowed_loop :: "string \<Rightarrow> string list \<Rightarrow> bool" where
  "allowed_loop p [] = False"
| "allowed_loop p (rule # rules) =
     (if HasSuffix rule ''/*''
      then (if HasPrefix p (TrimSuffix rule ''*'') then True else allowed_loop p rules)
      else if p = rule then True else allowed_loop p rules)"

definition Allowed :: "string \<Rightarrow> string list \<Rightarrow> bool" where
  "Allowed path rules = (case Normalize path of Inl _ \<Rightarrow> False | Inr p \<Rightarrow> allowed_loop p rules)"

section \<open>The component-wise reading\<close>

text \<open>What one component of a stored path may be.\<close>

definition component_ok :: "string \<Rightarrow> bool" where
  "component_ok c \<longleftrightarrow> c \<noteq> [] \<and> c \<noteq> ''.'' \<and> c \<noteq> ''..'' \<and> slash \<notin> set c
     \<and> CHR 0x5C \<notin> set c \<and> CHR ''%'' \<notin> set c \<and> CHR ''*'' \<notin> set c \<and> CHR ''?'' \<notin> set c"

definition is_path :: "string \<Rightarrow> bool" where
  "is_path p \<longleftrightarrow> Normalize p = Inr p"

text \<open>What a rule grants, read off the components of the rule and of the path.\<close>

definition grants :: "string \<Rightarrow> string \<Rightarrow> bool" where
  "grants rule p \<longleftrightarrow>
     (if HasSuffix rule ''/*''
      then strict_prefix (Split (TrimSuffix rule ''/*'') slash) (Split p slash)
      else p = rule)"

lemma Normalize_total: "Normalize p = (if is_path p then Inr p else Inl invalid_path)"
  by (simp add: Normalize_def is_path_def)

lemma Normalize_Inr: "Normalize p = Inr q \<longleftrightarrow> q = p \<and> is_path p"
  by (auto simp: Normalize_total)

lemma HasPrefix_slash_iff: "HasPrefix p ''/'' \<longleftrightarrow> (\<exists>ps. Split p slash = [] # ps \<and> ps \<noteq> [])"
proof (cases p)
  case Nil
  then show ?thesis by (simp add: HasPrefix_def)
next
  case (Cons x xs)
  then show ?thesis
    by (cases "Split xs slash") (auto simp: HasPrefix_def)
qed

lemma is_path_iff:
  "is_path p \<longleftrightarrow> list_all component_ok (Split p slash) \<and> length p \<le> 512 \<and> TrimSpace p = p
     \<and> \<not> list_ex IsControl (runes p)"
proof -
  have parts: "c \<noteq> slash \<Longrightarrow> c \<in> set p \<longleftrightarrow> (\<exists>q \<in> set (Split p slash). c \<in> set q)" for c
  proof
    assume "c \<noteq> slash" and "c \<in> set p"
    then have "c \<in> set (Join (Split p slash) slash)" by simp
    with set_Join [of "Split p slash" slash] \<open>c \<noteq> slash\<close>
    show "\<exists>q \<in> set (Split p slash). c \<in> set q" by auto
  next
    assume "\<exists>q \<in> set (Split p slash). c \<in> set q"
    then show "c \<in> set p" using set_Split_subset by blast
  qed
  show ?thesis
    by (auto simp: is_path_def Normalize_def component_ok_def list_all_iff list_ex_iff
        ContainsAny_iff HasPrefix_slash_iff parts dest: Split_parts)
qed

lemma allowed_loop_iff: "allowed_loop p rules \<longleftrightarrow> (\<exists>rule \<in> set rules. grants rule p)"
proof (induction rules)
  case (Cons rule rules)
  show ?case
  proof (cases "HasSuffix rule ''/*''")
    case True
    then obtain b where b: "rule = b @ ''/*''" by (auto simp: HasSuffix_iff)
    have "TrimSuffix (b @ ''/*'') ''*'' = b @ ''/''"
      using TrimSuffix_append [of "b @ ''/''" "''*''"] by simp
    then have "HasPrefix p (TrimSuffix rule ''*'') \<longleftrightarrow> prefix (b @ [slash]) p"
      by (simp add: b HasPrefix_def)
    also have "\<dots> \<longleftrightarrow> grants rule p"
      using True unfolding prefix_sep_iff_Split grants_def b
      by (auto simp: strict_prefix_def prefix_def)
    finally show ?thesis using True Cons by simp
  next
    case False
    with Cons show ?thesis by (simp add: grants_def)
  qed
qed simp

lemma Allowed_iff: "Allowed p rules \<longleftrightarrow> is_path p \<and> (\<exists>rule \<in> set rules. grants rule p)"
  by (simp add: Allowed_def Normalize_total allowed_loop_iff)

lemma ValidateRules_iff:
  "ValidateRules rs = Inr () \<longleftrightarrow> (\<forall>r \<in> set rs. is_path (TrimSuffix r ''/*''))"
  by (induction rs) (auto simp: Normalize_total)

lemma ValidateRules_Inl: "ValidateRules rs = Inl e \<Longrightarrow> e = invalid_path"
  by (induction rs) (auto simp: Normalize_total split: if_splits)

lemma is_path_ascii:
  assumes "is_path p" and "c \<in> set p"
  shows "0x20 \<le> byte c \<and> byte c \<noteq> 0x7F"
proof (rule ccontr)
  assume "\<not> ?thesis"
  then have small: "byte c < 0x80" and ctl: "IsControl (byte c)"
    by (auto simp: IsControl_def)
  from assms(2) small have "byte c \<in> set (runes p)" by (rule ascii_in_runes)
  with ctl assms(1) show False by (auto simp: is_path_iff list_ex_iff)
qed

lemma grants_subtree: "grants (b @ ''/*'') p \<longleftrightarrow> (\<exists>rest. rest \<noteq> [] \<and> Split p slash = Split b slash @ rest)"
  by (auto simp: grants_def HasSuffix_iff strict_prefix_def prefix_def)

lemma grants_exact: "\<not> HasSuffix rule ''/*'' \<Longrightarrow> grants rule p \<longleftrightarrow> p = rule"
  by (simp add: grants_def)

lemma is_path_no_star: "is_path p \<Longrightarrow> \<not> HasSuffix p ''/*''"
proof
  assume "is_path p" "HasSuffix p ''/*''"
  then have "CHR ''*'' \<in> set p" by (auto simp: HasSuffix_iff)
  with \<open>is_path p\<close> show False by (simp add: is_path_def Normalize_def ContainsAny_iff)
qed

section \<open>Properties\<close>

text \<open>\<open>Normalize\<close> never rewrites a path: it returns its argument exactly when every
  component between slashes is non-empty, is not \<open>.\<close> or \<open>..\<close> and holds no wildcard, percent
  sign or backslash, the path has at most 512 bytes, has no white space at either end and
  holds no control rune; otherwise it returns the error.\<close>

theorem Normalize_components:
  "Normalize p =
     (if list_all component_ok (Split p slash) \<and> length p \<le> 512 \<and> TrimSpace p = p
         \<and> \<not> list_ex IsControl (runes p)
      then Inr p else Inl invalid_path)"
  by (simp add: Normalize_total is_path_iff)

text \<open>C39: Authorization is by whole components and default-deny: \<open>Allowed\<close> holds exactly
  for a normalised path that some rule names exactly or, for a rule ending in \<open>/*\<close>, whose
  component list properly extends the rule's component list.\<close>

theorem Allowed_components:
  "Allowed p rules =
     (is_path p \<and>
      (\<exists>rule \<in> set rules.
         if HasSuffix rule ''/*''
         then strict_prefix (Split (TrimSuffix rule ''/*'') slash) (Split p slash)
         else p = rule))"
  by (simp add: Allowed_iff grants_def)

text \<open>A rule list passes \<open>ValidateRules\<close> exactly when each rule is a normalised path or a
  normalised path followed by \<open>/*\<close>; so a wildcard is accepted at the end of a rule only,
  never alone and never in the middle.\<close>

theorem ValidateRules_shape:
  "(ValidateRules rs = Inr ()) =
     list_all (\<lambda>r. is_path r \<or> (\<exists>b. r = b @ ''/*'' \<and> is_path b)) rs"
proof -
  have "is_path (TrimSuffix r ''/*'') \<longleftrightarrow> is_path r \<or> (\<exists>b. r = b @ ''/*'' \<and> is_path b)" for r
  proof (cases "HasSuffix r ''/*''")
    case True
    then obtain b where b: "r = b @ ''/*''" by (auto simp: HasSuffix_iff)
    with True is_path_no_star show ?thesis
      unfolding b by (auto simp del: append_assoc)
  next
    case False
    then show ?thesis by (auto simp: TrimSuffix_def HasSuffix_iff)
  qed
  then show ?thesis by (simp add: ValidateRules_iff list_all_iff)
qed

text \<open>Validated rules never let a request out of their subtree: an allowed path is one
  of the rules, or it continues one rule's base path by further components none of which is
  empty, \<open>.\<close> or \<open>..\<close>.\<close>

theorem Allowed_confined:
  assumes "ValidateRules rules = Inr ()" and "Allowed p rules"
  shows "p \<in> set rules \<or>
    (\<exists>b rest. b @ ''/*'' \<in> set rules \<and> is_path b \<and> rest \<noteq> [] \<and>
       Split p slash = Split b slash @ rest \<and> list_all component_ok rest)"
proof -
  from assms(2) obtain rule where p: "is_path p" and rule: "rule \<in> set rules" "grants rule p"
    by (auto simp: Allowed_iff)
  show ?thesis
  proof (cases "HasSuffix rule ''/*''")
    case True
    then obtain b where b: "rule = b @ ''/*''" by (auto simp: HasSuffix_iff)
    with rule(2) obtain rest where r: "rest \<noteq> []" "Split p slash = Split b slash @ rest"
      by (auto simp: grants_subtree)
    moreover have "is_path b" using assms(1) rule(1) b by (auto simp: ValidateRules_iff)
    moreover have "list_all component_ok rest" using p r(2) by (simp add: is_path_iff)
    ultimately show ?thesis using rule(1) b by blast
  next
    case False
    with rule show ?thesis by (simp add: grants_exact)
  qed
qed

lemma Allowed_confined_witness:
  "ValidateRules [''a/*''] = Inr () \<and> Allowed ''a/b'' [''a/*''] \<and>
   (''a/b'' \<in> set [''a/*''] \<or>
    (\<exists>b rest. b @ ''/*'' \<in> set [''a/*''] \<and> is_path b \<and> rest \<noteq> [] \<and>
       Split ''a/b'' slash = Split b slash @ rest \<and> list_all component_ok rest))"
proof -
  have v: "ValidateRules [''a/*''] = Inr ()" by code_simp
  have a: "Allowed ''a/b'' [''a/*'']" by code_simp
  show ?thesis using v a Allowed_confined [OF v a] by blast
qed

text \<open>A normalised path holds no ASCII control byte, wherever it stands relative to
  multi-byte or invalid UTF-8: no newline, carriage return, NUL or DEL reaches the store, the
  audit trail or the logs through a path.\<close>

theorem Normalize_no_control:
  assumes "Normalize p = Inr q" and "c \<in> set q"
  shows "0x20 \<le> byte c \<and> byte c \<noteq> 0x7F"
  using assms is_path_ascii by (auto simp: Normalize_Inr)

lemma Normalize_no_control_witness:
  "Normalize ''ab/c'' = Inr ''ab/c'' \<and> 0x20 \<le> byte (CHR ''b'') \<and> byte (CHR ''b'') \<noteq> 0x7F"
proof -
  have n: "Normalize ''ab/c'' = Inr ''ab/c''" by code_simp
  show ?thesis using n Normalize_no_control [OF n, of "CHR ''b''"] by simp
qed

end
