(* ===== verification/Security.thy ===== *)
theory Security
  imports GoStrings
begin

text \<open>
  Tokens, hashes, authenticated encryption, the master-key envelope and the vault
  (internal/security/security.go). The cryptographic primitives, the random source and the
  clock are parameters, gathered in the record \<open>env\<close>; the encodings around them
  (hexadecimal, unpadded URL-safe base64, the nonce in front of the ciphertext) are modelled
  byte by byte. Procedures of this theory thread the number of random reads made so far.
\<close>

section \<open>The environment\<close>

text \<open>
  \<open>sha256\<close> is the digest; \<open>entropy i j\<close> is byte \<open>j\<close> of the \<open>i\<close>-th \<open>rand.Read\<close>; \<open>clock i\<close>
  is the \<open>i\<close>-th reading of \<open>time.Now\<close> in nanoseconds after the zero time; \<open>scrypt\<close> derives
  a 32-byte wrapping key from a passphrase and a salt; \<open>gcm_seal\<close> and \<open>gcm_open\<close> are
  AES-GCM under a key, a nonce and associated data, without the nonce prefix; \<open>bcrypt_gen\<close>
  draws its own salt, so it takes the number of the random read; \<open>bcrypt_match\<close> is
  \<open>CompareHashAndPassword\<close> returning nil.
\<close>

record env =
  sha256 :: "string \<Rightarrow> string"
  entropy :: "nat \<Rightarrow> nat \<Rightarrow> char"
  clock :: "nat \<Rightarrow> int"
  scrypt :: "string \<Rightarrow> string \<Rightarrow> string option"
  gcm_seal :: "string \<Rightarrow> string \<Rightarrow> string \<Rightarrow> string \<Rightarrow> string"
  gcm_open :: "string \<Rightarrow> string \<Rightarrow> string \<Rightarrow> string \<Rightarrow> string option"
  bcrypt_gen :: "nat \<Rightarrow> string \<Rightarrow> string option"
  bcrypt_match :: "string \<Rightarrow> string \<Rightarrow> bool"

text \<open>
  The documented law of the cipher: opening what was sealed under the same key, nonce and
  associated data gives the plaintext back, and nothing opens that was not sealed so.
\<close>

definition gcm_law :: "'z env_scheme \<Rightarrow> bool" where
  "gcm_law E \<longleftrightarrow>
     (\<forall>k n m a. gcm_open E k n (gcm_seal E k n m a) a = Some m) \<and>
     (\<forall>k n c m a. gcm_open E k n c a = Some m \<longrightarrow> c = gcm_seal E k n m a)"

text \<open>The derived wrapping key has the length asked for.\<close>

definition scrypt_law :: "'z env_scheme \<Rightarrow> bool" where
  "scrypt_law E \<longleftrightarrow> (\<forall>m s. \<exists>k. scrypt E m s = Some k \<and> length k = 32)"

lemma gcm_open_seal: "gcm_law E \<Longrightarrow> gcm_open E k n (gcm_seal E k n m a) a = Some m"
  by (simp add: gcm_law_def)

lemma gcm_openD: "gcm_law E \<Longrightarrow> gcm_open E k n c a = Some m \<Longrightarrow> c = gcm_seal E k n m a"
  by (simp add: gcm_law_def)

definition rand_read :: "'z env_scheme \<Rightarrow> nat \<Rightarrow> (nat, string) proc" where
  "rand_read E len = (\<lambda>i. (Inr (map (entropy E i) [0..<len]), Suc i))"

lemma wpre_rand_read [wp]:
  "wpre (rand_read E len) Q i = Q (Inr (map (entropy E i) [0..<len])) (Suc i)"
  by (simp add: wpre_def rand_read_def)

section \<open>Hexadecimal and base64\<close>

definition hex_digits :: string where
  "hex_digits = ''0123456789abcdef''"

fun hex_encode :: "string \<Rightarrow> string" where
  "hex_encode [] = []"
| "hex_encode (c # cs) = hex_digits ! (byte c div 16) # hex_digits ! (byte c mod 16) # hex_encode cs"

definition b64_digits :: string where
  "b64_digits = ''ABCDEFGHIJKLMNOPQRSTUVWXYZabcdefghijklmnopqrstuvwxyz0123456789-_''"

fun b64_encode :: "string \<Rightarrow> string" where
  "b64_encode [] = []"
| "b64_encode [a] =
     (let v = byte a * 0x10000
      in [b64_digits ! (v div 0x40000), b64_digits ! (v div 0x1000 mod 64)])"
| "b64_encode [a, b] =
     (let v = byte a * 0x10000 + byte b * 0x100
      in [b64_digits ! (v div 0x40000), b64_digits ! (v div 0x1000 mod 64),
          b64_digits ! (v div 0x40 mod 64)])"
| "b64_encode (a # b # c # cs) =
     (let v = byte a * 0x10000 + byte b * 0x100 + byte c
      in b64_digits ! (v div 0x40000) # b64_digits ! (v div 0x1000 mod 64) #
         b64_digits ! (v div 0x40 mod 64) # b64_digits ! (v mod 64) # b64_encode cs)"

definition Token :: "'z env_scheme \<Rightarrow> (nat, string) proc" where
  "Token E = andthen (rand_read E 32) (\<lambda>b. ret (b64_encode b))"

definition Hash :: "'z env_scheme \<Rightarrow> string \<Rightarrow> string" where
  "Hash E s = hex_encode (sha256 E s)"

text \<open>The token the \<open>i\<close>-th random read gives.\<close>

definition token_at :: "'z env_scheme \<Rightarrow> nat \<Rightarrow> string" where
  "token_at E i = b64_encode (map (entropy E i) [0..<32])"

lemma Token_at: "Token E i = (Inr (token_at E i), Suc i)"
  by (simp add: Token_def token_at_def andthen_def rand_read_def ret_def)

lemma wpre_Token [wp]: "wpre (Token E) Q i = Q (Inr (token_at E i)) (Suc i)"
  by (simp add: wpre_def Token_at)

lemma byte_less: "byte c < 256"
  by simp

lemma byte_le: "byte c \<le> 255"
  using byte_less [of c] by linarith

lemma byte_div_less: "byte c div 16 < 16" "byte c div 4 < 64"
  using byte_less [of c] by (auto intro: less_mult_imp_div_less)

lemma length_b64_digits: "length b64_digits = 64"
  by (simp add: b64_digits_def)

lemma distinct_b64_digits: "distinct b64_digits"
  by (simp add: b64_digits_def)

lemma b64_digit_inject:
  "i < 64 \<Longrightarrow> j < 64 \<Longrightarrow> b64_digits ! i = b64_digits ! j \<longleftrightarrow> i = j"
  by (simp add: nth_eq_iff_index_eq distinct_b64_digits length_b64_digits)

lemma hex_digit_inject:
  "i < 16 \<Longrightarrow> j < 16 \<Longrightarrow> hex_digits ! i = hex_digits ! j \<longleftrightarrow> i = j"
  by (rule nth_eq_iff_index_eq) (simp_all add: hex_digits_def)

lemma length_hex_encode: "length (hex_encode s) = 2 * length s"
  by (induction s) auto

lemma hex_encode_inject: "hex_encode s = hex_encode t \<longleftrightarrow> s = t"
proof (induction s arbitrary: t)
  case Nil
  then show ?case by (cases t) auto
next
  case (Cons c s)
  show ?case
  proof (cases t)
    case (Cons d t')
    have "hex_encode (c # s) = hex_encode (d # t') \<longleftrightarrow>
        byte c div 16 = byte d div 16 \<and> byte c mod 16 = byte d mod 16 \<and> s = t'"
      by (simp add: hex_digit_inject byte_div_less Cons.IH)
    also have "\<dots> \<longleftrightarrow> byte c = byte d \<and> s = t'"
      by (metis div_mult_mod_eq)
    finally show ?thesis by (simp add: Cons)
  qed simp
qed

lemma b64_set: "set (b64_encode s) \<subseteq> set b64_digits"
proof -
  have nth: "i < 64 \<Longrightarrow> b64_digits ! i \<in> set b64_digits" for i
    by (rule nth_mem) (simp add: length_b64_digits)
  have top: "v div 0x40000 < 64" if "v \<le> 0xFFFFFF" for v :: nat
    using that by simp
  show ?thesis
  proof (induction s rule: b64_encode.induct)
    case (2 a)
    show ?case using byte_less [of a] by (auto simp: Let_def byte_div_less intro!: nth top)
  next
    case (3 a b)
    show ?case using byte_le [of a] byte_le [of b] by (auto simp: Let_def intro!: nth top)
  next
    case (4 a b c cs)
    then show ?case
      using byte_le [of a] byte_le [of b] byte_le [of c]
      by (auto simp: Let_def intro!: nth top)
  qed simp
qed

lemma length_b64: "length (b64_encode s) = (8 * length s + 5) div 6"
  by (induction s rule: b64_encode.induct) (auto simp: Let_def)

lemma length_token_at: "length (token_at E i) = 43"
  by (simp add: token_at_def length_b64)

lemma token_at_nonempty [simp]: "token_at E i \<noteq> []" "[] \<noteq> token_at E i"
  using length_token_at [of E i] by force+

text \<open>The bytes of a group can be read back from its digits, so the encoding is injective.\<close>

lemma sextet_step:
  fixes v w k :: nat
  shows "v div (k * 64) = w div (k * 64) \<and> v div k mod 64 = w div k mod 64 \<longleftrightarrow> v div k = w div k"
  unfolding div_mult2_eq by (metis div_mult_mod_eq)

lemma sextets:
  fixes v w :: nat
  shows "v div 0x40000 = w div 0x40000 \<and> v div 0x1000 mod 64 = w div 0x1000 mod 64 \<and>
     v div 0x40 mod 64 = w div 0x40 mod 64 \<and> v mod 64 = w mod 64 \<longleftrightarrow> v = w"
  using sextet_step [where v = v and w = w and k = "0x1000"]
    sextet_step [where v = v and w = w and k = "0x40"]
    sextet_step [where v = v and w = w and k = 1] by auto

lemma low_bits:
  fixes x y :: nat
  shows "x div 4 = y div 4 \<and> 0x10 * x mod 64 = 0x10 * y mod 64 \<longleftrightarrow> x = y"
proof -
  have m: "0x10 * z mod 64 = 0x10 * (z mod 4)" for z :: nat
    using mult_mod_right [of 16 z 4] by simp
  show ?thesis unfolding m by auto (metis div_mult_mod_eq)
qed

lemma low_zero: "(x * 0x10000 + y * 0x100) mod 64 = (0::nat)"
  by presburger

lemma digit_inject:
  fixes a b a' b' n :: nat
  assumes "b < n" "b' < n"
  shows "a * n + b = a' * n + b' \<longleftrightarrow> a = a' \<and> b = b'"
proof
  assume eq: "a * n + b = a' * n + b'"
  have "(a * n + b) div n = a" "(a' * n + b') div n = a'" using assms by auto
  with eq show "a = a' \<and> b = b'" by auto
qed simp

lemma bytes3:
  fixes a b c a' b' c' :: nat
  assumes "b < 256" "c < 256" "b' < 256" "c' < 256"
  shows "a * 0x10000 + b * 0x100 + c = a' * 0x10000 + b' * 0x100 + c' \<longleftrightarrow> a = a' \<and> b = b' \<and> c = c'"
  using digit_inject [of c 256 c' "a * 256 + b" "a' * 256 + b'"] digit_inject [of b 256 b' a a'] assms
  by (simp add: algebra_simps)

lemma b64_inject:
  "length s = length t \<Longrightarrow> b64_encode s = b64_encode t \<longleftrightarrow> s = t"
proof (induction s arbitrary: t rule: b64_encode.induct)
  case 1
  then show ?case by simp
next
  case (2 a)
  then obtain a' where t: "t = [a']" by (cases t) auto
  have "b64_encode [a] = b64_encode [a'] \<longleftrightarrow>
      byte a div 4 = byte a' div 4 \<and> 0x10 * byte a mod 64 = 0x10 * byte a' mod 64"
    using byte_le [of a] byte_le [of a'] by (simp add: Let_def b64_digit_inject byte_div_less)
  also have "\<dots> \<longleftrightarrow> byte a = byte a'" by (rule low_bits)
  finally show ?case by (simp add: t)
next
  case (3 a b)
  then obtain a' b' where t: "t = [a', b']"
    by (cases t; cases "tl t") auto
  have "(byte a * 0x10000 + byte b * 0x100) div 0x40000 < 64"
    "(byte a' * 0x10000 + byte b' * 0x100) div 0x40000 < 64"
    using byte_le [of a] byte_le [of b] byte_le [of a'] byte_le [of b']
    by (auto intro!: less_mult_imp_div_less)
  moreover have "(byte a * 0x10000 + byte b * 0x100) mod 64 = (0::nat)"
    "(byte a' * 0x10000 + byte b' * 0x100) mod 64 = (0::nat)"
    by (rule low_zero)+
  ultimately have "b64_encode [a, b] = b64_encode [a', b'] \<longleftrightarrow>
      byte a * 0x10000 + byte b * 0x100 + 0 = byte a' * 0x10000 + byte b' * 0x100 + 0"
    using sextets [of "byte a * 0x10000 + byte b * 0x100" "byte a' * 0x10000 + byte b' * 0x100"]
      byte_le [of a] byte_le [of b] byte_le [of a'] byte_le [of b']
    by (simp only: b64_encode.simps Let_def list.inject b64_digit_inject) auto
  also have "\<dots> \<longleftrightarrow> byte a = byte a' \<and> byte b = byte b'"
    using bytes3 [of "byte b" 0 "byte b'" 0 "byte a" "byte a'"] byte_less by simp
  finally show ?case by (simp add: t)
next
  case (4 a b c cs)
  then obtain a' b' c' cs' where t: "t = a' # b' # c' # cs'" and len: "length cs = length cs'"
    by (cases t; cases "tl t"; cases "tl (tl t)") auto
  let ?v = "byte a * 0x10000 + byte b * 0x100 + byte c"
  let ?w = "byte a' * 0x10000 + byte b' * 0x100 + byte c'"
  have bound: "?v < 0x1000000" "?w < 0x1000000"
    using byte_le [of a] byte_le [of b] byte_le [of c] byte_le [of a'] byte_le [of b'] byte_le [of c']
    by linarith+
  then have "?v div 0x40000 < 64" "?w div 0x40000 < 64" by (auto intro!: less_mult_imp_div_less)
  then have "b64_encode (a # b # c # cs) = b64_encode (a' # b' # c' # cs') \<longleftrightarrow>
      ?v = ?w \<and> b64_encode cs = b64_encode cs'"
    unfolding sextets [of ?v ?w, symmetric] b64_encode.simps Let_def list.inject
    by (simp add: b64_digit_inject conj_assoc del: div_mult_self3 div_mult_self4)
  also have "\<dots> \<longleftrightarrow> a = a' \<and> b = b' \<and> c = c' \<and> cs = cs'"
    using bytes3 [of "byte b" "byte c" "byte b'" "byte c'" "byte a" "byte a'"] byte_less
      "4.IH" [OF refl len] by simp
  finally show ?case by (simp add: t)
qed

section \<open>Sealing\<close>

definition aes_key_ok :: "string \<Rightarrow> bool" where
  "aes_key_ok key \<longleftrightarrow> length key = 16 \<or> length key = 24 \<or> length key = 32"

definition bad_key :: err where
  "bad_key = ErrText ''crypto/aes: invalid key size''"

definition Seal :: "'z env_scheme \<Rightarrow> string \<Rightarrow> string \<Rightarrow> string \<Rightarrow> (nat, string) proc" where
  "Seal E key plain aad =
     (if \<not> aes_key_ok key then throw bad_key
      else andthen (rand_read E 12) (\<lambda>n. ret (n @ gcm_seal E key n plain aad)))"

definition Open :: "'z env_scheme \<Rightarrow> string \<Rightarrow> string \<Rightarrow> string \<Rightarrow> err + string" where
  "Open E key blob aad =
     (if \<not> aes_key_ok key then Inl bad_key
      else if length blob < 12 then Inl (ErrText ''invalid ciphertext'')
      else (case gcm_open E key (take 12 blob) (drop 12 blob) aad of
              None \<Rightarrow> Inl (ErrText ''cipher: message authentication failed'')
            | Some m \<Rightarrow> Inr m))"

section \<open>The envelope\<close>

record envelope =
  Salt :: string
  Wrapped :: string

definition dek_aad :: string where
  "dek_aad = ''ssm:dek:v1''"

definition wrappingKey :: "'z env_scheme \<Rightarrow> string \<Rightarrow> string \<Rightarrow> err + string" where
  "wrappingKey E master salt =
     (case scrypt E master salt of None \<Rightarrow> Inl (ErrText ''scrypt'') | Some k \<Rightarrow> Inr k)"

definition Wrap :: "'z env_scheme \<Rightarrow> string \<Rightarrow> string \<Rightarrow> (nat, envelope) proc" where
  "Wrap E master dek =
     (if length master < 16 then throw (ErrText ''master key must have at least 16 characters'')
      else andthen (rand_read E 32) (\<lambda>salt.
        andthen (lift (wrappingKey E master salt)) (\<lambda>k.
        andthen (Seal E k dek dek_aad) (\<lambda>b. ret \<lparr>Salt = salt, Wrapped = b\<rparr>))))"

definition Unwrap :: "'z env_scheme \<Rightarrow> string \<Rightarrow> envelope \<Rightarrow> err + string" where
  "Unwrap E master en =
     (case wrappingKey E master (Salt en) of
        Inl e \<Rightarrow> Inl e
      | Inr k \<Rightarrow> Open E k (Wrapped en) dek_aad)"

definition NewEnvelope :: "'z env_scheme \<Rightarrow> string \<Rightarrow> (nat, envelope) proc" where
  "NewEnvelope E master = andthen (rand_read E 32) (\<lambda>k. Wrap E master k)"

definition Rewrap :: "'z env_scheme \<Rightarrow> string \<Rightarrow> string \<Rightarrow> envelope \<Rightarrow> (nat, envelope) proc" where
  "Rewrap E old new en =
     (case Unwrap E old en of
        Inl _ \<Rightarrow> throw (ErrText ''invalid unlock key'')
      | Inr k \<Rightarrow> Wrap E new k)"

section \<open>The vault\<close>

text \<open>
  The vault's only state is the plaintext data-encryption key; the empty key is the locked
  state. Each operation runs under the vault's mutex, so it is one step.
\<close>

type_synonym vault = string

definition Locked :: "vault \<Rightarrow> bool" where
  "Locked key \<longleftrightarrow> length key = 0"

definition Lock :: "(vault, unit) proc" where
  "Lock = modify (\<lambda>_. [])"

definition Unlock :: "'z env_scheme \<Rightarrow> string \<Rightarrow> envelope \<Rightarrow> (vault, unit) proc" where
  "Unlock E master en =
     (case Unwrap E master en of
        Inl _ \<Rightarrow> throw (ErrText ''invalid unlock key'')
      | Inr k \<Rightarrow> modify (\<lambda>_. k))"

definition Encrypt :: "'z env_scheme \<Rightarrow> vault \<Rightarrow> string \<Rightarrow> string \<Rightarrow> (nat, string) proc" where
  "Encrypt E key p v = (if length key = 0 then throw ErrLocked else Seal E key v p)"

definition Decrypt :: "'z env_scheme \<Rightarrow> vault \<Rightarrow> string \<Rightarrow> string \<Rightarrow> err + string" where
  "Decrypt E key p b = (if length key = 0 then Inl ErrLocked else Open E key b p)"

lemma Seal_run:
  "Seal E key m a i =
     (if aes_key_ok key
      then (Inr (map (entropy E i) [0..<12] @ gcm_seal E key (map (entropy E i) [0..<12]) m a), Suc i)
      else (Inl bad_key, i))"
  by (simp add: Seal_def throw_def andthen_def rand_read_def ret_def)

lemma Open_Seal:
  assumes "gcm_law E" and "Seal E key m a i = (Inr blob, j)"
  shows "Open E key blob a = Inr m"
  using assms by (auto simp: Seal_run Open_def gcm_open_seal split: if_splits)

lemma Wrap_run:
  assumes "scrypt_law E"
  shows "\<exists>k. scrypt E master (map (entropy E i) [0..<32]) = Some k \<and> length k = 32 \<and>
    Wrap E master dek i =
      (if length master < 16
       then (Inl (ErrText ''master key must have at least 16 characters''), i)
       else case Seal E k dek dek_aad (Suc i) of
              (Inl e, j) \<Rightarrow> (Inl e, j)
            | (Inr b, j) \<Rightarrow> (Inr \<lparr>Salt = map (entropy E i) [0..<32], Wrapped = b\<rparr>, j))"
proof -
  obtain k where "scrypt E master (map (entropy E i) [0..<32]) = Some k" "length k = 32"
    using assms unfolding scrypt_law_def by blast
  then show ?thesis
    by (auto simp: Wrap_def wrappingKey_def throw_def andthen_def rand_read_def lift_def ret_def
        split: prod.split sum.split)
qed

lemma Unwrap_Wrap:
  assumes "gcm_law E" and "scrypt_law E" and "Wrap E master dek i = (Inr en, j)"
  shows "Unwrap E master en = Inr dek"
proof -
  obtain k where k: "scrypt E master (map (entropy E i) [0..<32]) = Some k" "length k = 32"
    and run: "Wrap E master dek i =
      (if length master < 16
       then (Inl (ErrText ''master key must have at least 16 characters''), i)
       else case Seal E k dek dek_aad (Suc i) of
              (Inl e, j) \<Rightarrow> (Inl e, j)
            | (Inr b, j) \<Rightarrow> (Inr \<lparr>Salt = map (entropy E i) [0..<32], Wrapped = b\<rparr>, j))"
    using Wrap_run [OF assms(2)] by blast
  from run assms(3) obtain b where "Seal E k dek dek_aad (Suc i) = (Inr b, j)"
    and "en = \<lparr>Salt = map (entropy E i) [0..<32], Wrapped = b\<rparr>"
    by (auto split: if_splits prod.splits sum.splits)
  with k show ?thesis
    by (simp add: Unwrap_def wrappingKey_def Open_Seal [OF assms(1)])
qed

lemma Wrap_succeeds:
  assumes "scrypt_law E"
  shows "(\<exists>en j. Wrap E master dek i = (Inr en, j)) \<longleftrightarrow> 16 \<le> length master"
proof -
  obtain k where k: "length k = 32"
    and run: "Wrap E master dek i =
      (if length master < 16
       then (Inl (ErrText ''master key must have at least 16 characters''), i)
       else case Seal E k dek dek_aad (Suc i) of
              (Inl e, j) \<Rightarrow> (Inl e, j)
            | (Inr b, j) \<Rightarrow> (Inr \<lparr>Salt = map (entropy E i) [0..<32], Wrapped = b\<rparr>, j))"
    using Wrap_run [OF assms] by blast
  then show ?thesis by (auto simp: Seal_run aes_key_ok_def)
qed

section \<open>What a vault promises its clients\<close>

text \<open>
  The contract the secret handlers rely on: a locked vault refuses with \<open>ErrLocked\<close> and
  draws nothing, a usable one seals every value, and what was sealed for a path decrypts for
  that path to the value. \<open>usable\<close> is the provider's condition on the vault.
\<close>

locale value_vault =
  fixes locked :: "'v \<Rightarrow> bool"
    and usable :: "'v \<Rightarrow> bool"
    and enc :: "'v \<Rightarrow> string \<Rightarrow> string \<Rightarrow> (nat, string) proc"
    and dec :: "'v \<Rightarrow> string \<Rightarrow> string \<Rightarrow> err + string"
  assumes enc_locked: "locked v \<Longrightarrow> enc v p x i = (Inl ErrLocked, i)"
    and dec_locked: "locked v \<Longrightarrow> dec v p b = Inl ErrLocked"
    and enc_usable: "usable v \<Longrightarrow> \<exists>b. enc v p x i = (Inr b, Suc i)"
    and dec_enc: "usable v \<Longrightarrow> enc v p x i = (Inr b, j) \<Longrightarrow> dec v p b = Inr x"
begin

lemma usable_unlocked: "usable v \<Longrightarrow> \<not> locked v"
  using enc_usable enc_locked by fastforce

lemma locked_silent: "locked v \<Longrightarrow> fst (enc v p x i) = fst (enc v q y j)"
  by (simp add: enc_locked)

text \<open>One ciphertext cannot stand for two values of the same path.\<close>

lemma enc_injective:
  "usable v \<Longrightarrow> enc v p x i = (Inr b, j) \<Longrightarrow> enc v p y k = (Inr b, l) \<Longrightarrow> x = y"
  using dec_enc [of v p x i b j] dec_enc [of v p y k b l] by simp

text \<open>Storing a list of values and reading them all back.\<close>

lemma dec_enc_all:
  assumes "usable v" and "list_all2 (\<lambda>(p, x) b. \<exists>i j. enc v p x i = (Inr b, j)) pxs bs"
  shows "list_all2 (\<lambda>(p, x) b. dec v p b = Inr x) pxs bs"
  using assms(2) by (rule list_all2_mono) (auto intro: dec_enc assms(1))

end

definition vault_usable :: "'z env_scheme \<Rightarrow> vault \<Rightarrow> bool" where
  "vault_usable E key \<longleftrightarrow> gcm_law E \<and> aes_key_ok key"

interpretation vault: value_vault
  "\<lambda>(E :: 'z env_scheme, key). Locked key" "\<lambda>(E, key). vault_usable E key"
  "\<lambda>(E, key). Encrypt E key" "\<lambda>(E, key). Decrypt E key"
proof (unfold_locales, goal_cases)
  case (1 v p x i)
  then show ?case by (auto simp: Locked_def Encrypt_def throw_def split: prod.splits)
next
  case (2 v p b)
  then show ?case by (auto simp: Locked_def Decrypt_def split: prod.splits)
next
  case (3 v p x i)
  then show ?case
    by (auto simp: vault_usable_def Encrypt_def Seal_run aes_key_ok_def split: prod.splits)
next
  case (4 v p x i b j)
  then show ?case
    by (auto simp: vault_usable_def Encrypt_def Decrypt_def aes_key_ok_def throw_def
        intro!: Open_Seal split: prod.splits if_splits)
qed

lemma Encrypt_locked: "Locked key \<Longrightarrow> Encrypt E key p x i = (Inl ErrLocked, i)"
  using vault.enc_locked [of "(E, key)"] by simp

lemma Decrypt_locked: "Locked key \<Longrightarrow> Decrypt E key p b = Inl ErrLocked"
  using vault.dec_locked [of "(E, key)"] by simp

lemma Encrypt_usable: "vault_usable E key \<Longrightarrow> \<exists>b. Encrypt E key p x i = (Inr b, Suc i)"
  using vault.enc_usable [of "(E, key)"] by simp

lemma Decrypt_Encrypt:
  "vault_usable E key \<Longrightarrow> Encrypt E key p x i = (Inr b, j) \<Longrightarrow> Decrypt E key p b = Inr x"
  using vault.dec_enc [of "(E, key)"] by simp

section \<open>A concrete environment\<close>

text \<open>
  An environment in which the witnesses evaluate: a transparent cipher that satisfies the
  cipher's law, random bytes that differ from read to read, a clock that ticks in seconds.
\<close>

definition demo_env :: env where
  "demo_env =
     \<lparr>sha256 = (\<lambda>s. s),
      entropy = (\<lambda>i j. if j = 0 then char_of i else CHR ''r''),
      clock = (\<lambda>i. int i * 1000000000 + 1),
      scrypt = (\<lambda>m s. Some (take 32 (m @ s @ replicate 32 CHR ''k''))),
      gcm_seal = (\<lambda>k n m a. k @ n @ a @ m),
      gcm_open = (\<lambda>k n c a. if prefix (k @ n @ a) c then Some (drop (length (k @ n @ a)) c) else None),
      bcrypt_gen = (\<lambda>i p. if length p \<le> 72 then Some (''$'' @ p) else None),
      bcrypt_match = (\<lambda>h p. h = ''$'' @ p)\<rparr>"

lemma demo_gcm_law: "gcm_law demo_env"
  by (auto simp: gcm_law_def demo_env_def prefix_def split: if_splits)

lemma demo_scrypt_law: "scrypt_law demo_env"
  by (simp add: scrypt_law_def demo_env_def min_def)

lemmas demo_laws = demo_gcm_law demo_scrypt_law

lemma NewEnvelope_key:
  assumes "gcm_law E" and "scrypt_law E" and "NewEnvelope E master i = (Inr en, j)"
  shows "\<exists>key. Unlock E master en old = (Inr (), key) \<and> length key = 32 \<and> \<not> Locked key \<and> vault_usable E key"
proof -
  let ?dek = "map (entropy E i) [0..<32]"
  from assms(3) have "Wrap E master ?dek (Suc i) = (Inr en, j)"
    by (simp add: NewEnvelope_def andthen_def rand_read_def)
  from Unwrap_Wrap [OF assms(1,2) this] assms(1) show ?thesis
    by (simp add: Unlock_def modify_def Locked_def vault_usable_def aes_key_ok_def)
qed

section \<open>Properties\<close>

text \<open>A token always has 43 characters of the URL-safe base64 alphabet, and two tokens
  are equal only when the 32 random bytes they come from are equal: the encoding loses
  nothing of the 256 bits.\<close>

theorem Token_shape:
  "(case Token E i of
      (Inl e, k) \<Rightarrow> False
    | (Inr t, k) \<Rightarrow> length t = 43 \<and> set t \<subseteq> set b64_digits \<and> k = Suc i)
   \<and> (fst (Token E i) = fst (Token E j))
       = (map (entropy E i) [0..<32] = map (entropy E j) [0..<32])"
  by (simp add: Token_at length_token_at) (simp add: token_at_def b64_set b64_inject)

text \<open>The stored form of a credential is the hexadecimal digest: twice as long as the
  digest, and equal for two credentials only when SHA-256 itself gives equal digests.\<close>

theorem Hash_faithful:
  "length (Hash E s) = 2 * length (sha256 E s)
   \<and> (Hash E s = Hash E t) = (sha256 E s = sha256 E t)"
  by (simp add: Hash_def length_hex_encode hex_encode_inject)

text \<open>With a key of a length AES accepts, the vault encrypts every value and decrypts
  the result for the same path to that value.\<close>

theorem vault_roundtrip:
  assumes "gcm_law E" and "aes_key_ok key"
  shows "\<exists>b. Encrypt E key p x i = (Inr b, Suc i) \<and> Decrypt E key p b = Inr x"
proof -
  have u: "vault_usable E key" using assms by (simp add: vault_usable_def)
  then obtain b where "Encrypt E key p x i = (Inr b, Suc i)" using Encrypt_usable by blast
  with Decrypt_Encrypt [OF u this] show ?thesis by blast
qed

lemma vault_roundtrip_witness:
  "\<exists>b. Encrypt demo_env (replicate 32 CHR ''k'') ''a/b'' ''v'' 0 = (Inr b, Suc 0)
     \<and> Decrypt demo_env (replicate 32 CHR ''k'') ''a/b'' b = Inr ''v''"
  by (rule vault_roundtrip) (simp_all add: demo_laws aes_key_ok_def)

text \<open>A ciphertext is bound to its path: if a value sealed for path \<open>p\<close> opens for path
  \<open>q\<close>, then AES-GCM itself produced the same authenticated bytes for both paths under the
  same nonce; for \<open>q = p\<close> the opened value is the sealed one.\<close>

theorem ciphertext_bound:
  assumes "gcm_law E" and "Encrypt E key p x i = (Inr b, j)" and "Decrypt E key q b = Inr y"
  shows "gcm_seal E key (take 12 b) x p = gcm_seal E key (take 12 b) y q \<and> (q = p \<longrightarrow> y = x)"
proof -
  from assms(2) have key: "aes_key_ok key" "length key \<noteq> 0"
    and b: "b = map (entropy E i) [0..<12] @ gcm_seal E key (map (entropy E i) [0..<12]) x p"
    by (auto simp: Encrypt_def throw_def Seal_run split: if_splits)
  then have t: "take 12 b = map (entropy E i) [0..<12]" by simp
  with assms(3) key b have "gcm_open E key (take 12 b) (drop 12 b) q = Some y"
    by (auto simp: Decrypt_def Open_def split: if_splits option.splits)
  from gcm_openD [OF assms(1) this] b t
  have same: "gcm_seal E key (take 12 b) x p = gcm_seal E key (take 12 b) y q" by simp
  moreover have "y = x" if "q = p"
    using gcm_open_seal [OF assms(1), of key "take 12 b" x p]
      gcm_open_seal [OF assms(1), of key "take 12 b" y p] same that
    by (metis option.inject)
  ultimately show ?thesis by blast
qed

lemma ciphertext_bound_witness:
  "\<exists>b. Encrypt demo_env (replicate 16 CHR ''k'') ''p'' ''v'' 0 = (Inr b, 1) \<and>
     gcm_seal demo_env (replicate 16 CHR ''k'') (take 12 b) ''v'' ''p''
       = gcm_seal demo_env (replicate 16 CHR ''k'') (take 12 b) ''v'' ''p'' \<and> (''p'' = ''p'' \<longrightarrow> ''v'' = ''v'')"
proof -
  have u: "vault_usable demo_env (replicate 16 CHR ''k'')"
    by (simp add: vault_usable_def demo_laws aes_key_ok_def)
  obtain b where e: "Encrypt demo_env (replicate 16 CHR ''k'') ''p'' ''v'' 0 = (Inr b, 1)"
    using Encrypt_usable [OF u] by force
  have d: "Decrypt demo_env (replicate 16 CHR ''k'') ''p'' b = Inr ''v''"
    by (rule Decrypt_Encrypt [OF u e])
  show ?thesis using e ciphertext_bound [OF demo_gcm_law e d] by blast
qed

text \<open>Changing the master key succeeds exactly when the old key opens the envelope and
  the new one has at least 16 bytes; then the new key opens the new envelope to the very same
  data-encryption key, so no secret has to be re-encrypted.\<close>

theorem Rewrap_keeps_dek:
  assumes "gcm_law E" and "scrypt_law E"
  shows "case Rewrap E old new en i of
      (Inl e, j) \<Rightarrow> length new < 16 \<or> (\<exists>e'. Unwrap E old en = Inl e')
    | (Inr en', j) \<Rightarrow> 16 \<le> length new \<and> (\<exists>dek. Unwrap E old en = Inr dek \<and> Unwrap E new en' = Inr dek)"
proof (cases "Unwrap E old en")
  case (Inl e)
  then show ?thesis by (simp add: Rewrap_def throw_def)
next
  case (Inr dek)
  obtain r j where w: "Wrap E new dek i = (r, j)" by (cases "Wrap E new dek i")
  show ?thesis
  proof (cases r)
    case (Inl e)
    with w Wrap_succeeds [OF assms(2), of new dek i] have "length new < 16" by auto
    with Inr Inl w show ?thesis by (simp add: Rewrap_def)
  next
    case (Inr en')
    with w have ok: "Wrap E new dek i = (Inr en', j)" by simp
    with Wrap_succeeds [OF assms(2), of new dek i] have "16 \<le> length new" by auto
    with Unwrap_Wrap [OF assms ok] \<open>Unwrap E old en = Inr dek\<close> ok show ?thesis
      by (simp add: Rewrap_def)
  qed
qed

lemma Rewrap_keeps_dek_witness:
  "case Rewrap demo_env ''old'' (replicate 16 CHR ''n'')
      \<lparr>Salt = [], Wrapped = replicate 12 CHR ''0'' @ take 32 (''old'' @ replicate 32 CHR ''k'')
         @ replicate 12 CHR ''0'' @ dek_aad @ ''d''\<rparr> 0 of
      (Inl e, j) \<Rightarrow> length (replicate 16 CHR ''n'') < 16 \<or>
        (\<exists>e'. Unwrap demo_env ''old'' \<lparr>Salt = [], Wrapped = replicate 12 CHR ''0''
           @ take 32 (''old'' @ replicate 32 CHR ''k'') @ replicate 12 CHR ''0'' @ dek_aad @ ''d''\<rparr> = Inl e')
    | (Inr en', j) \<Rightarrow> 16 \<le> length (replicate 16 CHR ''n'') \<and>
        (\<exists>dek. Unwrap demo_env ''old'' \<lparr>Salt = [], Wrapped = replicate 12 CHR ''0''
            @ take 32 (''old'' @ replicate 32 CHR ''k'') @ replicate 12 CHR ''0'' @ dek_aad @ ''d''\<rparr> = Inr dek
          \<and> Unwrap demo_env (replicate 16 CHR ''n'') en' = Inr dek)"
  by (rule Rewrap_keeps_dek [OF demo_laws])

text \<open>The envelope that setup creates unlocks with its master key to a 32-byte
  data-encryption key, whatever the vault held before, and the unlocked vault is usable.\<close>

theorem NewEnvelope_unlocks:
  assumes "gcm_law E" and "scrypt_law E" and "NewEnvelope E master i = (Inr en, j)"
  shows "\<exists>key. Unlock E master en old = (Inr (), key) \<and> length key = 32 \<and> \<not> Locked key \<and> vault_usable E key"
  by (rule NewEnvelope_key [OF assms])

lemma NewEnvelope_unlocks_witness:
  "\<exists>en j key. NewEnvelope demo_env (replicate 16 CHR ''m'') 0 = (Inr en, j) \<and>
     Unlock demo_env (replicate 16 CHR ''m'') en [] = (Inr (), key) \<and> length key = 32"
proof -
  obtain en j where "Wrap demo_env (replicate 16 CHR ''m'') (map (entropy demo_env 0) [0..<32]) 1 = (Inr en, j)"
    using Wrap_succeeds [OF demo_scrypt_law, of "replicate 16 CHR ''m''" "map (entropy demo_env 0) [0..<32]" 1]
    by auto
  then have n: "NewEnvelope demo_env (replicate 16 CHR ''m'') 0 = (Inr en, j)"
    by (simp add: NewEnvelope_def andthen_def rand_read_def)
  show ?thesis using n NewEnvelope_unlocks [OF demo_laws n, of "[]"] by blast
qed

end
