(* ===== verification/Storage.thy ===== *)
theory Storage
  imports Prelude
begin

text \<open>
  The transactional record store (internal/storage/storage.go). The table \<open>records\<close> is the
  list of its rows in insertion order; each statement of \<open>sqlTx\<close> is one function on the
  rows, and every statement may also fail with a driver error, which the list \<open>faults\<close> of
  the state decides. \<open>Update\<close> rolls the rows back on every error, \<open>Scan\<close> reads batches
  from a table that other connections change between the batches.
\<close>

section \<open>Keys, in the order of the primary key\<close>

datatype rkey = Key (kind_of: string) (id_of: string)

instantiation rkey :: linorder
begin

definition less_eq_rkey :: "rkey \<Rightarrow> rkey \<Rightarrow> bool" where
  "less_eq_rkey a b \<longleftrightarrow>
     kind_of a < kind_of b \<or> kind_of a = kind_of b \<and> id_of a \<le> id_of b"

definition less_rkey :: "rkey \<Rightarrow> rkey \<Rightarrow> bool" where
  "less_rkey a b \<longleftrightarrow>
     kind_of a < kind_of b \<or> kind_of a = kind_of b \<and> id_of a < id_of b"

instance
proof
  fix a b c :: rkey
  show "a < b \<longleftrightarrow> a \<le> b \<and> \<not> b \<le> a"
    by (auto simp: less_eq_rkey_def less_rkey_def)
  show "a \<le> a" by (simp add: less_eq_rkey_def)
  show "a \<le> b \<Longrightarrow> b \<le> c \<Longrightarrow> a \<le> c" by (auto simp: less_eq_rkey_def)
  show "a \<le> b \<Longrightarrow> b \<le> a \<Longrightarrow> a = b"
    by (cases a; cases b) (auto simp: less_eq_rkey_def)
  show "a \<le> b \<or> b \<le> a" by (auto simp: less_eq_rkey_def)
qed

end

section \<open>The statements\<close>

type_synonym 'd table = "(rkey \<times> 'd) list"

definition sql_insert :: "rkey \<Rightarrow> 'd \<Rightarrow> 'd table \<Rightarrow> 'd table" where
  "sql_insert k d rs = rs @ [(k, d)]"

definition sql_update :: "rkey \<Rightarrow> 'd \<Rightarrow> 'd table \<Rightarrow> 'd table" where
  "sql_update k d rs = map (\<lambda>(k', d'). if k' = k then (k', d) else (k', d')) rs"

definition sql_delete :: "rkey \<Rightarrow> 'd table \<Rightarrow> 'd table" where
  "sql_delete k rs = filter (\<lambda>(k', d'). k' \<noteq> k) rs"

text \<open>\<open>SELECT ... WHERE kind=? ORDER BY id\<close>.\<close>

definition sql_kind :: "string \<Rightarrow> 'd table \<Rightarrow> 'd table" where
  "sql_kind kd rs = sort_key fst (filter (\<lambda>(k, d). kind_of k = kd) rs)"

text \<open>The two statements of \<open>Put\<close>: update the row if it exists, insert it otherwise.\<close>

definition row_put :: "rkey \<Rightarrow> 'd \<Rightarrow> 'd table \<Rightarrow> 'd table" where
  "row_put k d rs = (if map_of rs k = None then sql_insert k d rs else sql_update k d rs)"

section \<open>The contract of a record store\<close>

text \<open>
  What the service relies on: looking up after a put or a delete, and a listing of a kind
  that holds exactly the records of the kind, once each and in the order of their ids.
\<close>

locale record_store =
  fixes look :: "'s \<Rightarrow> rkey \<Rightarrow> 'd option"
    and put :: "rkey \<Rightarrow> 'd \<Rightarrow> 's \<Rightarrow> 's"
    and del :: "rkey \<Rightarrow> 's \<Rightarrow> 's"
    and listing :: "string \<Rightarrow> 's \<Rightarrow> (rkey \<times> 'd) list"
    and wf :: "'s \<Rightarrow> bool"
  assumes look_put: "look (put k d s) = (look s)(k \<mapsto> d)"
    and look_del: "look (del k s) = (look s)(k := None)"
    and wf_put: "wf s \<Longrightarrow> wf (put k d s)"
    and wf_del: "wf s \<Longrightarrow> wf (del k s)"
    and listing_set: "wf s \<Longrightarrow> set (listing kd s) = {(k, d). kind_of k = kd \<and> look s k = Some d}"
    and listing_sorted: "wf s \<Longrightarrow> sorted (map fst (listing kd s))"
    and listing_distinct: "wf s \<Longrightarrow> distinct (map fst (listing kd s))"
begin

lemma look_put_same: "look (put k d s) k = Some d"
  by (simp add: look_put)

lemma look_put_other: "k' \<noteq> k \<Longrightarrow> look (put k d s) k' = look s k'"
  by (simp add: look_put)

lemma put_put: "look (put k d (put k d' s)) = look (put k d s)"
  by (simp add: look_put)

lemma del_put: "look (del k (put k d s)) = look (del k s)"
  by (simp add: look_put look_del)

text \<open>Deleting a list of records, as the purge loops do.\<close>

lemma look_fold_del: "look (fold del ks s) = (\<lambda>k. if k \<in> set ks then None else look s k)"
  by (induction ks arbitrary: s) (auto simp: look_del fun_eq_iff)

lemma wf_fold_del: "wf s \<Longrightarrow> wf (fold del ks s)"
  by (induction ks arbitrary: s) (auto intro: wf_del)

text \<open>Deleting every listed record of a kind that satisfies a test leaves no such record.\<close>

lemma purge_kind:
  assumes "wf s"
  shows "look (fold del (map fst (filter (\<lambda>(k, d). P d) (listing kd s))) s) k =
    (case look s k of
       None \<Rightarrow> None
     | Some d \<Rightarrow> if kind_of k = kd \<and> P d then None else Some d)"
proof -
  have "k \<in> set (map fst (filter (\<lambda>(k, d). P d) (listing kd s))) \<longleftrightarrow>
      (\<exists>d. kind_of k = kd \<and> look s k = Some d \<and> P d)"
    using listing_set [OF assms, of kd] by force
  then show ?thesis by (auto simp: look_fold_del split: option.split)
qed

text \<open>A listing depends on the mapping only, not on how the records are stored.\<close>

lemma listing_unique:
  assumes "wf s" "wf t" "look s = look t"
  shows "listing kd s = listing kd t"
proof (rule map_sorted_distinct_set_unique [of fst])
  show "inj_on fst (set (listing kd s) \<union> set (listing kd t))"
    unfolding listing_set [OF assms(1)] listing_set [OF assms(2)] assms(3)
    by (auto simp: inj_on_def)
  show "set (listing kd s) = set (listing kd t)"
    unfolding listing_set [OF assms(1)] listing_set [OF assms(2)] assms(3) by simp
qed (simp_all add: listing_sorted listing_distinct assms)

end

section \<open>The SQL table provides it\<close>

lemma map_of_sql_insert: "map_of rs k = None \<Longrightarrow> map_of (sql_insert k d rs) = (map_of rs)(k \<mapsto> d)"
  by (auto simp: sql_insert_def map_add_def fun_eq_iff split: option.split)

lemma map_of_sql_update: "map_of rs k \<noteq> None \<Longrightarrow> map_of (sql_update k d rs) = (map_of rs)(k \<mapsto> d)"
proof -
  have "map_of (sql_update k d rs) = (\<lambda>k'. if k' = k then map_option (\<lambda>_. d) (map_of rs k) else map_of rs k')"
    by (induction rs) (auto simp: sql_update_def fun_eq_iff)
  then show "map_of rs k \<noteq> None \<Longrightarrow> ?thesis" by (auto simp: fun_eq_iff)
qed

lemma map_of_sql_delete: "map_of (sql_delete k rs) = (map_of rs)(k := None)"
  by (induction rs) (auto simp: sql_delete_def fun_eq_iff)

lemma keys_sql_update: "map fst (sql_update k d rs) = map fst rs"
  by (induction rs) (auto simp: sql_update_def)

abbreviation pk :: "'d table \<Rightarrow> bool" where
  "pk rs \<equiv> distinct (map fst rs)"

lemma pk_row_put: "pk rs \<Longrightarrow> pk (row_put k d rs)"
  by (auto simp: row_put_def keys_sql_update) (auto simp: sql_insert_def map_of_eq_None_iff)

lemma pk_sql_delete: "pk rs \<Longrightarrow> pk (sql_delete k rs)"
  by (simp add: sql_delete_def distinct_map_filter)

interpretation sql: record_store map_of row_put sql_delete sql_kind pk
proof (unfold_locales, goal_cases)
  case (1 k d s)
  then show ?case by (auto simp: row_put_def map_of_sql_insert map_of_sql_update)
next
  case (2 k s)
  then show ?case by (rule map_of_sql_delete)
next
  case (3 s k d)
  then show ?case by (rule pk_row_put)
next
  case (4 s k)
  then show ?case by (rule pk_sql_delete)
next
  case (5 s kd)
  then show ?case by (auto simp: sql_kind_def)
next
  case (6 s kd)
  then show ?case by (simp add: sql_kind_def)
next
  case (7 s kd)
  then show ?case by (auto simp: sql_kind_def distinct_map inj_on_def)
qed

lemmas row_simps = sql.look_put sql.look_del
lemmas pk_intros = pk_row_put pk_sql_delete

section \<open>The database and its transactions\<close>

text \<open>
  The state of one connection: the table and the faults to come, \<open>True\<close> standing for a
  statement the driver fails. An empty list means that no further statement fails.
\<close>

record 'd db =
  rows :: "'d table"
  faults :: "bool list"

definition driver_error :: err where
  "driver_error = ErrText ''sql''"

lemma driver_error_not_sentinel [simp]: "driver_error \<noteq> ErrNotFound" "driver_error \<noteq> ErrUnauth"
  "driver_error \<noteq> ErrForbidden" "driver_error \<noteq> ErrLocked"
  by (simp_all add: driver_error_def)

definition faulty :: "('d, 'z) db_scheme \<Rightarrow> bool" where
  "faulty w \<longleftrightarrow> faults w \<noteq> [] \<and> hd (faults w)"

definition after_stmt :: "('d, 'z) db_scheme \<Rightarrow> ('d, 'z) db_scheme" where
  "after_stmt w = w\<lparr>faults := tl (faults w)\<rparr>"

text \<open>One statement: a driver error with no effect, or the statement's own result.\<close>

definition stmt :: "(('d, 'z) db_scheme, 'a) proc \<Rightarrow> (('d, 'z) db_scheme, 'a) proc" where
  "stmt m = (\<lambda>w. if faulty w then (Inl driver_error, after_stmt w) else m (after_stmt w))"

definition tx_Get :: "string \<Rightarrow> string \<Rightarrow> (('d, 'z) db_scheme, 'd) proc" where
  "tx_Get kd i =
     andthen (stmt (gets (\<lambda>w. map_of (rows w) (Key kd i))))
       (\<lambda>r. case r of None \<Rightarrow> throw ErrNotFound | Some d \<Rightarrow> ret d)"

definition tx_Put :: "string \<Rightarrow> string \<Rightarrow> 'd \<Rightarrow> (('d, 'z) db_scheme, unit) proc" where
  "tx_Put kd i d =
     andthen (stmt (gets (\<lambda>w. map_of (rows w) (Key kd i))))
       (\<lambda>r. case r of
          None \<Rightarrow> stmt (modify (\<lambda>w. w\<lparr>rows := sql_insert (Key kd i) d (rows w)\<rparr>))
        | Some _ \<Rightarrow> stmt (modify (\<lambda>w. w\<lparr>rows := sql_update (Key kd i) d (rows w)\<rparr>)))"

definition tx_Delete :: "string \<Rightarrow> string \<Rightarrow> (('d, 'z) db_scheme, unit) proc" where
  "tx_Delete kd i = stmt (modify (\<lambda>w. w\<lparr>rows := sql_delete (Key kd i) (rows w)\<rparr>))"

definition tx_List :: "string \<Rightarrow> (('d, 'z) db_scheme, 'd list) proc" where
  "tx_List kd = stmt (gets (\<lambda>w. map snd (sql_kind kd (rows w))))"

text \<open>
  \<open>Update\<close>: begin, take the mutex row, run the callback, commit. Any error rolls the table
  back to what it was before; a failed commit is taken to have stored nothing. Everything
  else the callback changed (the vault, the limiter) stays changed.
\<close>

definition rollback_to :: "'d table \<Rightarrow> ('d, 'z) db_scheme \<Rightarrow> ('d, 'z) db_scheme" where
  "rollback_to rs w = w\<lparr>rows := rs\<rparr>"

definition Update :: "(('d, 'z) db_scheme, 'a) proc \<Rightarrow> (('d, 'z) db_scheme, 'a) proc" where
  "Update fn = andthen (stmt (ret ())) (\<lambda>_ w.
     case andthen (stmt (ret ())) (\<lambda>_. fn) w of
       (Inl e, w') \<Rightarrow> (Inl e, rollback_to (rows w) w')
     | (Inr v, w') \<Rightarrow>
         (case stmt (ret ()) w' of
            (Inl e, w'') \<Rightarrow> (Inl e, rollback_to (rows w) w'')
          | (Inr _, w'') \<Rightarrow> (Inr v, w'')))"

section \<open>Weakest preconditions of the statements\<close>

lemma rows_after_stmt [simp]: "rows (after_stmt w) = rows w"
  by (simp add: after_stmt_def)

lemma more_after_stmt [simp]: "db.more (after_stmt w) = db.more w"
  by (simp add: after_stmt_def)

lemma after_stmt_none [simp]: "faults w = [] \<Longrightarrow> after_stmt w = w"
  by (simp add: after_stmt_def)

lemma faulty_none [simp]: "faults w = [] \<Longrightarrow> \<not> faulty w"
  by (simp add: faulty_def)

lemma wpre_stmt [wp]:
  "wpre (stmt m) Q w \<longleftrightarrow>
     (if faulty w then Q (Inl driver_error) (after_stmt w) else wpre m Q (after_stmt w))"
  by (simp add: wpre_def stmt_def)

lemma wpre_Get [wp]:
  "wpre (tx_Get kd i) Q w \<longleftrightarrow>
     (if faulty w then Q (Inl driver_error) (after_stmt w)
      else case map_of (rows w) (Key kd i) of
        None \<Rightarrow> Q (Inl ErrNotFound) (after_stmt w)
      | Some d \<Rightarrow> Q (Inr d) (after_stmt w))"
  by (simp add: tx_Get_def wp split: option.split)

lemma wpre_List [wp]:
  "wpre (tx_List kd) Q w \<longleftrightarrow>
     (if faulty w then Q (Inl driver_error) (after_stmt w)
      else Q (Inr (map snd (sql_kind kd (rows w)))) (after_stmt w))"
  by (simp add: tx_List_def wp)

lemma wpre_Delete [wp]:
  "wpre (tx_Delete kd i) Q w \<longleftrightarrow>
     (if faulty w then Q (Inl driver_error) (after_stmt w)
      else Q (Inr ()) ((after_stmt w)\<lparr>rows := sql_delete (Key kd i) (rows w)\<rparr>))"
  by (simp add: tx_Delete_def wp)

lemma wpre_Put [wp]:
  "wpre (tx_Put kd i d) Q w \<longleftrightarrow>
     (if faulty w then Q (Inl driver_error) (after_stmt w)
      else if faulty (after_stmt w) then Q (Inl driver_error) (after_stmt (after_stmt w))
      else Q (Inr ()) ((after_stmt (after_stmt w))\<lparr>rows := row_put (Key kd i) d (rows w)\<rparr>))"
  by (simp add: tx_Put_def row_put_def wp split: option.split)

text \<open>The same statements run without driver faults.\<close>

named_theorems runs \<open>results of the operations when no fault is to come\<close>

lemma tx_run [runs]:
  assumes "faults w = []"
  shows "tx_Get kd i w =
      ((case map_of (rows w) (Key kd i) of None \<Rightarrow> Inl ErrNotFound | Some d \<Rightarrow> Inr d), w)"
    and "tx_List kd w = (Inr (map snd (sql_kind kd (rows w))), w)"
    and "tx_Put kd i d w = (Inr (), w\<lparr>rows := row_put (Key kd i) d (rows w)\<rparr>)"
    and "tx_Delete kd i w = (Inr (), w\<lparr>rows := sql_delete (Key kd i) (rows w)\<rparr>)"
  using assms
  by (auto simp: tx_Get_def tx_List_def tx_Put_def tx_Delete_def andthen_def stmt_def gets_def
      modify_def throw_def ret_def row_put_def split: option.split)

text \<open>The rows after a transaction, and its result.\<close>

lemma Update_Inl: "Update fn w = (Inl e, w') \<Longrightarrow> rows w' = rows w"
  by (auto simp: Update_def andthen_def stmt_def ret_def rollback_to_def
      split: prod.splits sum.splits if_splits)

lemma Update_Inr:
  "Update fn w = (Inr v, w') \<Longrightarrow>
     \<exists>w1. fn (after_stmt (after_stmt w)) = (Inr v, w1) \<and> w' = after_stmt w1"
  by (auto simp: Update_def andthen_def stmt_def ret_def
      split: prod.splits sum.splits if_splits)

lemma Update_no_faults:
  assumes "faults w = []" and "fn w = (r, w')" and "faults w' = []"
  shows "Update fn w = (r, case r of Inl e \<Rightarrow> rollback_to (rows w) w' | Inr v \<Rightarrow> w')"
  using assms by (simp add: Update_def andthen_def stmt_def ret_def split: sum.split)

section \<open>Scan\<close>

text \<open>
  \<open>Scan\<close> queries once for the highest id and then once per batch of at most 256 rows, and
  calls the consumer between the queries with no transaction open. So the \<open>n\<close>-th query may
  see another table: \<open>snap n\<close> is the table it sees, or the driver error it returns. The
  consumer is a function of its own state, \<open>cancelled\<close> is \<open>ctx.Err()\<close> read before each
  call. The loop need not end when others keep inserting below the upper id, so it is a
  partial function and \<open>None\<close> stands for not returning.
\<close>

type_synonym 'd snapshots = "nat \<Rightarrow> err + 'd table"

definition scan_upper :: "string \<Rightarrow> 'd table \<Rightarrow> string" where
  "scan_upper kd rs = (case rev (sql_kind kd rs) of [] \<Rightarrow> [] | (k, d) # _ \<Rightarrow> id_of k)"

definition scan_rest :: "string \<Rightarrow> string \<Rightarrow> string \<Rightarrow> 'd table \<Rightarrow> 'd table" where
  "scan_rest kd after upper rs =
     filter (\<lambda>(k, d). after < id_of k \<and> id_of k \<le> upper) (sql_kind kd rs)"

definition scan_batch :: "string \<Rightarrow> string \<Rightarrow> string \<Rightarrow> 'd table \<Rightarrow> 'd table" where
  "scan_batch kd after upper rs = take 256 (scan_rest kd after upper rs)"

fun visit_all ::
  "('v \<Rightarrow> err option) \<Rightarrow> ('d \<Rightarrow> 'v \<Rightarrow> err option \<times> 'v) \<Rightarrow> 'd list \<Rightarrow> 'v \<Rightarrow> err option \<times> 'v" where
  "visit_all cancelled visit [] v = (None, v)"
| "visit_all cancelled visit (d # ds) v =
     (case cancelled v of
        Some e \<Rightarrow> (Some e, v)
      | None \<Rightarrow> (case visit d v of
            (Some e, v') \<Rightarrow> (Some e, v')
          | (None, v') \<Rightarrow> visit_all cancelled visit ds v'))"

partial_function (option) scan_loop ::
  "'d snapshots \<Rightarrow> ('v \<Rightarrow> err option) \<Rightarrow> ('d \<Rightarrow> 'v \<Rightarrow> err option \<times> 'v) \<Rightarrow> string \<Rightarrow> string
   \<Rightarrow> nat \<Rightarrow> string \<Rightarrow> 'v \<Rightarrow> (err option \<times> 'v) option" where
  "scan_loop snap cancelled visit kd upper n after v =
     (if after < upper then
        (case snap n of
           Inl e \<Rightarrow> Some (Some e, v)
         | Inr rs \<Rightarrow>
             (case scan_batch kd after upper rs of
                [] \<Rightarrow> Some (None, v)
              | r # batch \<Rightarrow>
                  (case visit_all cancelled visit (map snd (r # batch)) v of
                     (Some e, v') \<Rightarrow> Some (Some e, v')
                   | (None, v') \<Rightarrow>
                       scan_loop snap cancelled visit kd upper (Suc n)
                         (id_of (fst (last (r # batch)))) v')))
      else Some (None, v))"

definition Scan ::
  "'d snapshots \<Rightarrow> ('v \<Rightarrow> err option) \<Rightarrow> ('d \<Rightarrow> 'v \<Rightarrow> err option \<times> 'v) \<Rightarrow> string \<Rightarrow> 'v
   \<Rightarrow> (err option \<times> 'v) option" where
  "Scan snap cancelled visit kd v =
     (case snap 0 of
        Inl e \<Rightarrow> Some (Some e, v)
      | Inr rs \<Rightarrow> scan_loop snap cancelled visit kd (scan_upper kd rs) 1 [] v)"

lemma visit_all_append:
  "visit_all cancelled visit (xs @ ys) v =
     (case visit_all cancelled visit xs v of
        (Some e, v') \<Rightarrow> (Some e, v')
      | (None, v') \<Rightarrow> visit_all cancelled visit ys v')"
  by (induction xs arbitrary: v) (auto split: option.split prod.split)

text \<open>In a sorted listing, what comes after the last row of a batch is the rest.\<close>

lemma filter_above_last:
  fixes f :: "'a \<Rightarrow> 'b :: linorder"
  assumes "sorted (map f xs)" "distinct (map f xs)" "xs = ys @ zs" "ys \<noteq> []"
  shows "filter (\<lambda>x. f (last ys) < f x) xs = zs"
proof -
  obtain bs l where ys: "ys = bs @ [l]" using assms(4) by (metis append_butlast_last_id)
  have lt: "x \<in> set bs \<Longrightarrow> \<not> f l < f x" for x
    using assms(1,3) by (auto simp: ys sorted_append)
  have gt: "x \<in> set zs \<Longrightarrow> f l < f x" for x
    using assms(1,2,3) by (force simp: ys sorted_append order.strict_iff_order)
  show ?thesis
    using lt gt by (simp add: assms(3) ys filter_empty_conv filter_id_conv)
qed

lemma scan_rest_sorted:
  assumes "pk rs"
  shows "sorted (map (id_of \<circ> fst) (scan_rest kd after upper rs))"
    and "distinct (map (id_of \<circ> fst) (scan_rest kd after upper rs))"
proof -
  let ?xs = "scan_rest kd after upper rs"
  have sub: "sorted (map fst ?xs)" "distinct (map fst ?xs)" "\<forall>(k, d) \<in> set ?xs. kind_of k = kd"
    using sql.listing_sorted [OF assms, of kd] sql.listing_distinct [OF assms, of kd]
      sql.listing_set [OF assms, of kd]
    by (auto simp: scan_rest_def sorted_filter distinct_map_filter)
  have "sorted (map (id_of \<circ> fst) xs)" if "sorted (map fst xs)" "\<forall>(k, d) \<in> set xs. kind_of k = kd"
    for xs :: "'a table"
    using that by (induction xs) (fastforce simp: less_eq_rkey_def)+
  with sub show "sorted (map (id_of \<circ> fst) ?xs)" by blast
  have kd: "x \<in> set ?xs \<Longrightarrow> kind_of (fst x) = kd" for x
    using sub(3) by auto
  have "inj_on (id_of \<circ> fst) (set ?xs)"
  proof (rule inj_onI)
    fix x y assume x: "x \<in> set ?xs" and y: "y \<in> set ?xs" and eq: "(id_of \<circ> fst) x = (id_of \<circ> fst) y"
    with kd have "fst x = fst y" by (intro rkey.expand) simp
    with sub(2) x y show "x = y" by (simp add: distinct_map inj_on_def)
  qed
  with sub(2) show "distinct (map (id_of \<circ> fst) ?xs)" by (simp add: distinct_map)
qed

lemma scan_rest_step:
  assumes "pk rs" and "scan_rest kd after upper rs = ys @ zs" and "ys \<noteq> []"
  shows "scan_rest kd (id_of (fst (last ys))) upper rs = zs"
proof -
  have "last ys \<in> set (scan_rest kd after upper rs)"
    using assms(2,3) by simp
  then have "after < id_of (fst (last ys))"
    by (auto simp: scan_rest_def)
  then have "scan_rest kd (id_of (fst (last ys))) upper rs =
      filter (\<lambda>x. (id_of \<circ> fst) (last ys) < (id_of \<circ> fst) x) (scan_rest kd after upper rs)"
    by (auto simp: scan_rest_def intro!: filter_cong)
  also have "\<dots> = zs"
    by (rule filter_above_last [OF scan_rest_sorted [OF assms(1)] assms(2,3)])
  finally show ?thesis .
qed

text \<open>
  Other connections may only add records above the upper id: every later query that
  succeeds sees, up to the upper id, the table of the first query.
\<close>

definition appends_above :: "string \<Rightarrow> 'd snapshots \<Rightarrow> 'd table \<Rightarrow> bool" where
  "appends_above kd snap rs \<longleftrightarrow>
     (\<forall>n. \<exists>rs'. snap n = Inr rs' \<and>
        (\<forall>after. scan_rest kd after (scan_upper kd rs) rs' = scan_rest kd after (scan_upper kd rs) rs))"

lemma scan_loop_visits:
  assumes "pk rs" and "\<And>n. \<exists>rs'. snap n = Inr rs' \<and>
      (\<forall>after. scan_rest kd after upper rs' = scan_rest kd after upper rs)"
  shows "scan_loop snap cancelled visit kd upper n after v =
    Some (visit_all cancelled visit (map snd (scan_rest kd after upper rs)) v)"
proof (induction "length (scan_rest kd after upper rs)" arbitrary: n after v rule: less_induct)
  case less
  let ?rest = "scan_rest kd after upper rs"
  obtain rs' where rs': "snap n = Inr rs'" "scan_rest kd after upper rs' = ?rest"
    using assms(2) by blast
  have split: "?rest = take 256 ?rest @ drop 256 ?rest" by simp
  show ?case
  proof (cases "?rest = []")
    case True
    then show ?thesis
      by (subst scan_loop.simps) (simp add: rs' scan_batch_def)
  next
    case False
    then obtain r batch where b: "take 256 ?rest = r # batch" by (cases ?rest) auto
    then have "r \<in> set ?rest" by (metis in_set_takeD list.set_intros(1))
    then have lt: "after < upper" by (auto simp: scan_rest_def)
    have step: "scan_rest kd (id_of (fst (last (r # batch)))) upper rs = drop 256 ?rest"
      using split unfolding b
      by (intro scan_rest_step [OF assms(1), where after = after]) simp_all
    have "length (drop 256 ?rest) < length ?rest" using False by simp
    then have IH: "scan_loop snap cancelled visit kd upper (Suc n) (id_of (fst (last (r # batch)))) v' =
        Some (visit_all cancelled visit (map snd (drop 256 ?rest)) v')" for v'
      using less [of "id_of (fst (last (r # batch)))" "Suc n" v'] unfolding step by blast
    have "visit_all cancelled visit (map snd ?rest) v =
        (case visit_all cancelled visit (map snd (r # batch)) v of
           (Some e, v') \<Rightarrow> (Some e, v')
         | (None, v') \<Rightarrow> visit_all cancelled visit (map snd (drop 256 ?rest)) v')"
      by (subst split) (simp only: map_append visit_all_append b)
    moreover obtain stop v' where "visit_all cancelled visit (map snd (r # batch)) v = (stop, v')"
      by (cases "visit_all cancelled visit (map snd (r # batch)) v")
    ultimately show ?thesis
      using lt by (subst scan_loop.simps, cases stop)
        (simp_all only: rs' scan_batch_def b IH if_True sum.case list.case option.case prod.case)
  qed
qed

lemma scan_upper_ge:
  assumes "pk rs" and "(k, d) \<in> set (sql_kind kd rs)"
  shows "id_of k \<le> scan_upper kd rs"
proof -
  have "sql_kind kd rs \<noteq> []" using assms(2) by auto
  then obtain xs k' d' where xs: "sql_kind kd rs = xs @ [(k', d')]"
    by (metis append_butlast_last_id surj_pair)
  then have "k \<le> k'"
    using sql.listing_sorted [OF assms(1), of kd] assms(2) by (force simp: sorted_append)
  moreover have "kind_of k = kd" "kind_of k' = kd"
    using sql.listing_set [OF assms(1), of kd] assms(2) xs by auto
  ultimately show ?thesis by (auto simp: scan_upper_def xs less_eq_rkey_def)
qed

lemma scan_rest_all:
  assumes "pk rs"
  shows "scan_rest kd [] (scan_upper kd rs) rs = filter (\<lambda>(k, d). id_of k \<noteq> []) (sql_kind kd rs)"
proof -
  have "[] < s \<longleftrightarrow> s \<noteq> []" for s :: string by (cases s) auto
  then show ?thesis
    using scan_upper_ge [OF assms] unfolding scan_rest_def
    by (intro filter_cong) (auto split: prod.split)
qed

lemma Scan_visits:
  assumes "pk rs" and "snap 0 = Inr rs" and "appends_above kd snap rs"
  shows "Scan snap cancelled visit kd v =
    Some (visit_all cancelled visit (map snd (filter (\<lambda>(k, d). id_of k \<noteq> []) (sql_kind kd rs))) v)"
  using assms(3)
  by (simp add: Scan_def assms(2) appends_above_def scan_loop_visits [OF assms(1)]
      scan_rest_all [OF assms(1)])

section \<open>Schema migration\<close>

text \<open>
  The other tables: which tables exist, the rows of \<open>schema_migrations\<close> and of
  \<open>ssm_mutex\<close>. Migration runs outside a transaction, statement by statement.
\<close>

record 'd disk = "'d db" +
  tables :: "string list"
  versions :: "int list"
  mutex :: "(int \<times> int) list"

definition create_table :: "string \<Rightarrow> (('d, 'z) disk_scheme, unit) proc" where
  "create_table t = stmt (modify (\<lambda>w. if t \<in> set (tables w) then w else w\<lparr>tables := tables w @ [t]\<rparr>))"

definition insert_mutex :: "(('d, 'z) disk_scheme, unit) proc" where
  "insert_mutex = stmt (\<lambda>w.
     if ''ssm_mutex'' \<notin> set (tables w) then (Inl driver_error, w)
     else if 1 \<in> fst ` set (mutex w) then (Inr (), w)
     else (Inr (), w\<lparr>mutex := mutex w @ [(1, 0)]\<rparr>))"

definition insert_version :: "(('d, 'z) disk_scheme, unit) proc" where
  "insert_version = stmt (\<lambda>w.
     if ''schema_migrations'' \<notin> set (tables w) then (Inl driver_error, w)
     else if 1 \<in> set (versions w) then (Inr (), w)
     else (Inr (), w\<lparr>versions := versions w @ [1]\<rparr>))"

definition SchemaVersion :: "(('d, 'z) disk_scheme, int) proc" where
  "SchemaVersion = stmt (\<lambda>w.
     if ''schema_migrations'' \<notin> set (tables w) then (Inl driver_error, w)
     else (Inr (case versions w of [] \<Rightarrow> 0 | v # vs \<Rightarrow> fold max vs v), w))"

definition migration_tables :: "string list" where
  "migration_tables = [''schema_migrations'', ''ssm_mutex'', ''records'']"

definition create_tables :: "(('d, 'z) disk_scheme, unit) proc" where
  "create_tables =
     foreach migration_tables (\<lambda>t.
       andthen (attempt (create_table t)) (\<lambda>r. case r of
         Inl e \<Rightarrow> throw (ErrText (''migration: '' @ Error e)) | Inr _ \<Rightarrow> ret ()))"

definition migrate :: "(('d, 'z) disk_scheme, unit) proc" where
  "migrate =
     andthen create_tables
     (\<lambda>_. andthen insert_mutex
     (\<lambda>_. andthen SchemaVersion
     (\<lambda>v. if v > 1 then throw (ErrText ''database schema is newer than this binary'')
           else insert_version)))"

lemma fold_max_le: "fold max vs (v :: int) \<le> b \<longleftrightarrow> v \<le> b \<and> (\<forall>x \<in> set vs. x \<le> b)"
  by (induction vs arbitrary: v) auto

lemma create_table_run:
  "faults w = [] \<Longrightarrow> create_table t w = (Inr (), if t \<in> set (tables w) then w else w\<lparr>tables := tables w @ [t]\<rparr>)"
  by (simp add: create_table_def stmt_def modify_def)

definition migrated :: "('d, 'z) disk_scheme \<Rightarrow> bool" where
  "migrated w \<longleftrightarrow> set migration_tables \<subseteq> set (tables w) \<and> 1 \<in> fst ` set (mutex w) \<and>
     1 \<in> set (versions w) \<and> (\<forall>v \<in> set (versions w). v \<le> 1)"

lemma migrate_tables_run:
  assumes "faults w = []"
  shows "\<exists>ts. foreach xs (\<lambda>t. andthen (attempt (create_table t)) (\<lambda>r. case r of
       Inl e \<Rightarrow> throw (ErrText (''migration: '' @ Error e)) | Inr _ \<Rightarrow> ret ())) w
     = (Inr (), w\<lparr>tables := tables w @ ts\<rparr>) \<and> set (tables w) \<union> set xs = set (tables w @ ts) \<and>
       (set xs \<subseteq> set (tables w) \<longrightarrow> ts = [])"
  using assms
proof (induction xs arbitrary: w)
  case Nil
  then show ?case by (auto simp: ret_def intro: exI [of _ "[]"])
next
  case (Cons t xs)
  let ?w = "if t \<in> set (tables w) then w else w\<lparr>tables := tables w @ [t]\<rparr>"
  have "faults ?w = []" using Cons.prems by simp
  from Cons.IH [OF this] obtain ts where
    "foreach xs (\<lambda>t. andthen (attempt (create_table t)) (\<lambda>r. case r of
       Inl e \<Rightarrow> throw (ErrText (''migration: '' @ Error e)) | Inr _ \<Rightarrow> ret ())) ?w
     = (Inr (), ?w\<lparr>tables := tables ?w @ ts\<rparr>)"
    "set (tables ?w) \<union> set xs = set (tables ?w @ ts)" "set xs \<subseteq> set (tables ?w) \<longrightarrow> ts = []"
    by blast
  then show ?case
    using Cons.prems
    by (cases "t \<in> set (tables w)")
       (auto simp: andthen_def attempt_def create_table_run ret_def
         intro: exI [of _ ts] exI [of _ "t # ts"])
qed

lemma fold_max_le_one:
  "(case vs of [] \<Rightarrow> 0 | v # vs' \<Rightarrow> fold max vs' v) \<le> (1 :: int) \<longleftrightarrow> (\<forall>v \<in> set vs. v \<le> 1)"
  by (cases vs) (auto simp: fold_max_le)

lemma SchemaVersion_run:
  "faults w = [] \<Longrightarrow> ''schema_migrations'' \<in> set (tables w) \<Longrightarrow>
     SchemaVersion w = (Inr (case versions w of [] \<Rightarrow> 0 | v # vs \<Rightarrow> fold max vs v), w)"
  by (simp add: SchemaVersion_def stmt_def)

lemma insert_version_run:
  "faults w = [] \<Longrightarrow> ''schema_migrations'' \<in> set (tables w) \<Longrightarrow>
     insert_version w =
       (Inr (), if 1 \<in> set (versions w) then w else w\<lparr>versions := versions w @ [1]\<rparr>)"
  by (simp add: insert_version_def stmt_def)

lemma migrate_run:
  assumes "faults w = []"
  shows "\<exists>ts. set (tables w) \<union> set migration_tables = set (tables w @ ts) \<and>
     (set migration_tables \<subseteq> set (tables w) \<longrightarrow> ts = []) \<and>
     migrate w =
       (let w1 = w\<lparr>tables := tables w @ ts\<rparr>;
            w2 = (if 1 \<in> fst ` set (mutex w) then w1 else w1\<lparr>mutex := mutex w @ [(1, 0)]\<rparr>)
        in if \<forall>v \<in> set (versions w). v \<le> 1
           then (Inr (), if 1 \<in> set (versions w) then w2 else w2\<lparr>versions := versions w @ [1]\<rparr>)
           else (Inl (ErrText ''database schema is newer than this binary''), w2))"
proof -
  obtain ts where ts: "create_tables w = (Inr (), w\<lparr>tables := tables w @ ts\<rparr>)"
    and set_ts: "set (tables w) \<union> set migration_tables = set (tables w @ ts)"
    and none: "set migration_tables \<subseteq> set (tables w) \<longrightarrow> ts = []"
    using migrate_tables_run [OF assms] unfolding create_tables_def by blast
  have there: "''ssm_mutex'' \<in> set (tables w @ ts)" "''schema_migrations'' \<in> set (tables w @ ts)"
    unfolding set_ts [symmetric] by (simp_all add: migration_tables_def)
  let ?w1 = "w\<lparr>tables := tables w @ ts\<rparr>"
  let ?w2 = "if 1 \<in> fst ` set (mutex w) then ?w1 else ?w1\<lparr>mutex := mutex w @ [(1, 0)]\<rparr>"
  have m: "insert_mutex ?w1 = (Inr (), ?w2)"
    using assms there by (simp add: insert_mutex_def stmt_def del: set_append)
  have f2: "faults ?w2 = []" "tables ?w2 = tables w @ ts" "versions ?w2 = versions w"
    using assms by simp_all
  have v: "SchemaVersion ?w2 = (Inr (case versions w of [] \<Rightarrow> 0 | v # vs \<Rightarrow> fold max vs v), ?w2)"
    using SchemaVersion_run [of ?w2] there(2) unfolding f2 by blast
  have i: "insert_version ?w2 =
      (Inr (), if 1 \<in> set (versions w) then ?w2 else ?w2\<lparr>versions := versions w @ [1]\<rparr>)"
    using insert_version_run [of ?w2] there(2) unfolding f2 by blast
  show ?thesis
  proof (intro exI [of _ ts] conjI set_ts none)
    show "migrate w =
       (let w1 = w\<lparr>tables := tables w @ ts\<rparr>;
            w2 = (if 1 \<in> fst ` set (mutex w) then w1 else w1\<lparr>mutex := mutex w @ [(1, 0)]\<rparr>)
        in if \<forall>v \<in> set (versions w). v \<le> 1
           then (Inr (), if 1 \<in> set (versions w) then w2 else w2\<lparr>versions := versions w @ [1]\<rparr>)
           else (Inl (ErrText ''database schema is newer than this binary''), w2))"
      unfolding migrate_def create_tables_def [symmetric]
        andthen_Inr [of create_tables w "()" ?w1, OF ts] andthen_Inr [of insert_mutex ?w1 "()" ?w2, OF m]
        andthen_Inr [of SchemaVersion ?w2 _ ?w2, OF v] Let_def
      using fold_max_le_one [of "versions w"] i by (auto simp: throw_def)
  qed
qed

section \<open>Properties\<close>

text \<open>The statements of a transaction refine a map from keys to documents: \<open>Put\<close>
  updates the map at its key, \<open>Delete\<close> removes the key, \<open>Get\<close> reads it and changes nothing,
  each keeps the primary key unique, and a statement that fails changes nothing.\<close>

theorem tx_refines_map:
  "wpre (tx_Put kd i d) (\<lambda>r w'. (pk (rows w) \<longrightarrow> pk (rows w')) \<and>
      (case r of Inl e \<Rightarrow> rows w' = rows w
       | Inr u \<Rightarrow> map_of (rows w') = (map_of (rows w))(Key kd i \<mapsto> d))) w
   \<and> wpre (tx_Delete kd i) (\<lambda>r w'. (pk (rows w) \<longrightarrow> pk (rows w')) \<and>
      (case r of Inl e \<Rightarrow> rows w' = rows w
       | Inr u \<Rightarrow> map_of (rows w') = (map_of (rows w))(Key kd i := None))) w
   \<and> wpre (tx_Get kd i) (\<lambda>r w'. rows w' = rows w \<and>
      (case r of Inl e \<Rightarrow> e = driver_error \<or> e = ErrNotFound \<and> map_of (rows w) (Key kd i) = None
       | Inr d \<Rightarrow> map_of (rows w) (Key kd i) = Some d)) w"
proof (intro conjI)
  show "wpre (tx_Put kd i d) (\<lambda>r w'. (pk (rows w) \<longrightarrow> pk (rows w')) \<and>
      (case r of Inl e \<Rightarrow> rows w' = rows w
       | Inr u \<Rightarrow> map_of (rows w') = (map_of (rows w))(Key kd i \<mapsto> d))) w"
    by (simp add: wp row_simps pk_row_put)
  show "wpre (tx_Delete kd i) (\<lambda>r w'. (pk (rows w) \<longrightarrow> pk (rows w')) \<and>
      (case r of Inl e \<Rightarrow> rows w' = rows w
       | Inr u \<Rightarrow> map_of (rows w') = (map_of (rows w))(Key kd i := None))) w"
    by (simp add: wp row_simps pk_sql_delete)
  show "wpre (tx_Get kd i) (\<lambda>r w'. rows w' = rows w \<and>
      (case r of Inl e \<Rightarrow> e = driver_error \<or> e = ErrNotFound \<and> map_of (rows w) (Key kd i) = None
       | Inr d \<Rightarrow> map_of (rows w) (Key kd i) = Some d)) w"
    by (simp add: wp split: option.split)
qed

lemma tx_refines_map_witness:
  "wpre (tx_Put ''k'' ''i'' True) (\<lambda>r w'. (pk (rows \<lparr>rows = [(Key ''k'' ''j'', False)], faults = []\<rparr>) \<longrightarrow> pk (rows w')) \<and>
      (case r of Inl e \<Rightarrow> rows w' = rows \<lparr>rows = [(Key ''k'' ''j'', False)], faults = []\<rparr>
       | Inr u \<Rightarrow> map_of (rows w') = (map_of (rows \<lparr>rows = [(Key ''k'' ''j'', False)], faults = []\<rparr>))(Key ''k'' ''i'' \<mapsto> True)))
     \<lparr>rows = [(Key ''k'' ''j'', False)], faults = []\<rparr>"
  by (rule tx_refines_map [THEN conjunct1])

text \<open>A listing is complete, ordered and canonical: it holds each record of its kind
  exactly once, in the byte order of the ids, whatever order the rows are stored in.\<close>

theorem listing_canonical:
  assumes "pk rs" and "pk rs'" and "map_of rs = map_of rs'"
  shows "sql_kind kd rs = sql_kind kd rs'
    \<and> sorted (map fst (sql_kind kd rs)) \<and> distinct (map fst (sql_kind kd rs))
    \<and> set (sql_kind kd rs) = {(k, d). kind_of k = kd \<and> map_of rs k = Some d}"
  using sql.listing_unique [OF assms] sql.listing_sorted [OF assms(1)]
    sql.listing_distinct [OF assms(1)] sql.listing_set [OF assms(1)]
  by blast

lemma listing_canonical_witness:
  "sql_kind ''k'' [(Key ''k'' ''b'', 1 :: nat), (Key ''k'' ''a'', 2)]
     = sql_kind ''k'' [(Key ''k'' ''a'', 2), (Key ''k'' ''b'', 1)]"
  by (rule listing_canonical [THEN conjunct1]) (auto simp: fun_eq_iff)

text \<open>A transaction is atomic for the table: when the callback or the commit fails, the
  table is what it was before; when \<open>Update\<close> succeeds, the table is the one the callback
  left and the result is the callback's.\<close>

theorem Update_atomic:
  "case Update fn w of
     (Inl e, w') \<Rightarrow> rows w' = rows w
   | (Inr v, w') \<Rightarrow> \<exists>w1. fn (after_stmt (after_stmt w)) = (Inr v, w1) \<and> rows w' = rows w1"
  using Update_Inl [of fn w] Update_Inr [of fn w] by (force split: prod.split sum.split)

text \<open>The export is complete and bounded: if other connections only add records above
  the highest id of the first query, \<open>Scan\<close> returns, and it has called the consumer on
  exactly the records of that first table with a non-empty id, in order, stopping early only
  at the consumer's own error or a cancellation; the 256-row batches do not show.\<close>

theorem Scan_exports:
  assumes "pk rs" and "snap 0 = Inr rs" and "appends_above kd snap rs"
  shows "Scan snap cancelled visit kd v =
    Some (visit_all cancelled visit (map snd (filter (\<lambda>(k, d). id_of k \<noteq> []) (sql_kind kd rs))) v)"
  using assms by (rule Scan_visits)

lemma Scan_exports_witness:
  "Scan (\<lambda>n. Inr [(Key ''audit'' ''b'', 8), (Key ''audit'' ''a'', 7 :: nat)]) (\<lambda>v. None)
     (\<lambda>d v. (None, v @ [d])) ''audit'' [] = Some (None, [7, 8])"
proof -
  let ?rs = "[(Key ''audit'' ''b'', 8), (Key ''audit'' ''a'', 7 :: nat)]"
  have pk: "pk ?rs" by simp
  have above: "appends_above ''audit'' (\<lambda>n. Inr ?rs) ?rs" by (simp add: appends_above_def)
  have listed: "sql_kind ''audit'' ?rs = [(Key ''audit'' ''a'', 7), (Key ''audit'' ''b'', 8)]"
    by (simp add: sql_kind_def less_eq_rkey_def)
  show ?thesis
    using Scan_exports [OF pk refl above, of "\<lambda>v. None" "\<lambda>d v. (None, v @ [d])" "[]"]
    by (simp add: listed)
qed

text \<open>Migration is idempotent and refuses a newer schema: without driver errors it
  either ends with every table, the mutex row and version 1 recorded, no record touched, and
  running it again changes nothing; or some recorded version is above 1, and then it fails
  and changes neither the records nor the recorded versions.\<close>

theorem migrate_idempotent:
  assumes "faults w = []"
  shows "case migrate w of
     (Inr u, w') \<Rightarrow> migrated w' \<and> rows w' = rows w \<and> migrate w' = (Inr (), w')
   | (Inl e, w') \<Rightarrow> (\<exists>v \<in> set (versions w). 1 < v) \<and> rows w' = rows w \<and> versions w' = versions w"
proof -
  obtain ts where ts: "set (tables w) \<union> set migration_tables = set (tables w @ ts)"
    and run: "migrate w =
       (let w1 = w\<lparr>tables := tables w @ ts\<rparr>;
            w2 = (if 1 \<in> fst ` set (mutex w) then w1 else w1\<lparr>mutex := mutex w @ [(1, 0)]\<rparr>)
        in if \<forall>v \<in> set (versions w). v \<le> 1
           then (Inr (), if 1 \<in> set (versions w) then w2 else w2\<lparr>versions := versions w @ [1]\<rparr>)
           else (Inl (ErrText ''database schema is newer than this binary''), w2))"
    using migrate_run [OF assms] by blast
  have again: "migrate w' = (Inr (), w')" if "migrated w'" "faults w' = []" for w' :: "('a, 'b) disk_scheme"
    using migrate_run [OF that(2)] that(1) by (auto simp: migrated_def Let_def)
  show ?thesis
  proof (cases "\<forall>v \<in> set (versions w). v \<le> 1")
    case True
    define w' where "w' = snd (migrate w)"
    have w': "migrate w = (Inr (), w')" "migrated w'" "faults w' = []" "rows w' = rows w"
      using True assms ts by (auto simp: w'_def run Let_def migrated_def)
    with again show ?thesis by simp
  next
    case False
    then show ?thesis by (auto simp: run Let_def not_le)
  qed
qed

lemma migrate_idempotent_witness:
  "case migrate \<lparr>rows = [(Key ''k'' ''i'', True)], faults = [], tables = [], versions = [], mutex = []\<rparr> of
     (Inr u, w') \<Rightarrow> migrated w' \<and> rows w' = [(Key ''k'' ''i'', True)] \<and> migrate w' = (Inr (), w')
   | (Inl e, w') \<Rightarrow> False"
  using migrate_idempotent [of "\<lparr>rows = [(Key ''k'' ''i'', True)], faults = [],
    tables = [], versions = [], mutex = []\<rparr>"]
  by (auto split: prod.splits sum.splits)

end
