(* ===== verification/Json.thy ===== *)
theory Json
  imports GoStrings
begin

text \<open>
  Reading JSON the way \<open>encoding/json\<close>'s decoder reads a request body: one value from the
  front of a byte string and the bytes behind it. Strings are unescaped and coerced to
  well-formed UTF-8, a number is kept as an integer when its literal has neither a fraction
  nor an exponent, the members of an object are kept in order with duplicates. The nesting
  limit of the decoder (10000) is not modelled: no input struct of the handlers accepts a
  value nested deeper than two levels.
\<close>

datatype json =
    JNull
  | JBool bool
  | JInt int
  | JNumber string
  | JString string
  | JArray "json list"
  | JObject "(string \<times> json) list"

datatype json_read = JEnd | JBad | JValue json string

definition json_space :: "char \<Rightarrow> bool" where
  "json_space c \<longleftrightarrow> c = CHR '' '' \<or> c = CHR 0x09 \<or> c = CHR 0x0A \<or> c = CHR 0x0D"

definition skip :: "string \<Rightarrow> string" where
  "skip s = dropWhile json_space s"

section \<open>Strings\<close>

definition EncodeRune :: "nat \<Rightarrow> string" where
  "EncodeRune r =
     (if r < 0x80 then [char_of r]
      else if r < 0x800 then [char_of (0xC0 + r div 0x40), char_of (0x80 + r mod 0x40)]
      else if 0x10FFFF < r \<or> 0xD800 \<le> r \<and> r < 0xE000 then [CHR 0xEF, CHR 0xBF, CHR 0xBD]
      else if r < 0x10000 then
        [char_of (0xE0 + r div 0x1000), char_of (0x80 + r div 0x40 mod 0x40), char_of (0x80 + r mod 0x40)]
      else
        [char_of (0xF0 + r div 0x40000), char_of (0x80 + r div 0x1000 mod 0x40),
         char_of (0x80 + r div 0x40 mod 0x40), char_of (0x80 + r mod 0x40)])"

definition hex_value :: "char \<Rightarrow> nat option" where
  "hex_value c =
     (if CHR ''0'' \<le> c \<and> c \<le> CHR ''9'' then Some (byte c - 48)
      else if CHR ''a'' \<le> c \<and> c \<le> CHR ''f'' then Some (byte c - 87)
      else if CHR ''A'' \<le> c \<and> c \<le> CHR ''F'' then Some (byte c - 55)
      else None)"

fun getu4 :: "string \<Rightarrow> (nat \<times> string) option" where
  "getu4 (a # b # c # d # s) =
     (case (hex_value a, hex_value b, hex_value c, hex_value d) of
        (Some w, Some x, Some y, Some z) \<Rightarrow> Some (w * 0x1000 + x * 0x100 + y * 0x10 + z, s)
      | _ \<Rightarrow> None)"
| "getu4 s = None"

text \<open>The rune of a \<open>\u\<close> escape; half a surrogate pair becomes U+FFFD.\<close>

definition surrogate :: "nat \<Rightarrow> string \<Rightarrow> nat \<times> string" where
  "surrogate r s =
     (case s of
        b # u # t \<Rightarrow>
          if b = CHR 0x5C \<and> u = CHR ''u'' then
            (case getu4 t of
               Some (r2, rest) \<Rightarrow>
                 if r < 0xDC00 \<and> 0xDC00 \<le> r2 \<and> r2 < 0xE000
                 then ((r - 0xD800) * 0x400 + (r2 - 0xDC00) + 0x10000, rest)
                 else (RuneError, s)
             | None \<Rightarrow> (RuneError, s))
          else (RuneError, s)
      | _ \<Rightarrow> (RuneError, s))"

text \<open>What follows a backslash: the bytes it stands for and the rest.\<close>

definition simple_escapes :: "(char \<times> char) list" where
  "simple_escapes =
     [(CHR 0x22, CHR 0x22), (CHR 0x5C, CHR 0x5C), (CHR ''/'', CHR ''/''), (CHR ''b'', CHR 0x08),
      (CHR ''f'', CHR 0x0C), (CHR ''n'', CHR 0x0A), (CHR ''r'', CHR 0x0D), (CHR ''t'', CHR 0x09)]"

definition unescape :: "string \<Rightarrow> (string \<times> string) option" where
  "unescape s =
     (case s of
        [] \<Rightarrow> None
      | c # cs \<Rightarrow>
          (case map_of simple_escapes c of
             Some d \<Rightarrow> Some ([d], cs)
           | None \<Rightarrow>
               if c = CHR ''u'' then
                 (case getu4 cs of
                    None \<Rightarrow> None
                  | Some (r, t) \<Rightarrow>
                      if 0xD800 \<le> r \<and> r < 0xE000
                      then (case surrogate r t of (r', t') \<Rightarrow> Some (EncodeRune r', t'))
                      else Some (EncodeRune r, t))
               else None))"

lemma getu4_shorter: "getu4 s = Some (r, t) \<Longrightarrow> length t < length s"
  by (induction s rule: getu4.induct) (auto split: option.splits)

lemma surrogate_shorter: "length (snd (surrogate r s)) \<le> length s"
  by (auto simp: surrogate_def dest: getu4_shorter split: list.split option.split)

lemma unescape_shorter: "unescape s = Some (u, t) \<Longrightarrow> length t < length s"
proof (cases s)
  case (Cons c cs)
  assume u: "unescape s = Some (u, t)"
  show ?thesis
  proof (cases "map_of simple_escapes c")
    case (Some d)
    with u Cons show ?thesis by (simp add: unescape_def)
  next
    case None
    with u Cons obtain r t0 where g: "getu4 cs = Some (r, t0)"
      by (auto simp: unescape_def split: if_splits option.splits)
    have "length t \<le> length t0"
      using u Cons None g surrogate_shorter [of r t0]
      by (auto simp: unescape_def split: if_splits prod.splits)
    with getu4_shorter [OF g] Cons show ?thesis by simp
  qed
qed (simp add: unescape_def)

text \<open>The rest of a string literal, behind its opening quote.\<close>

function json_string :: "string \<Rightarrow> (string \<times> string) option" where
  "json_string [] = None"
| "json_string (c # cs) =
     (if c = CHR 0x22 then Some ([], cs)
      else if c = CHR 0x5C then
        (case unescape cs of
           None \<Rightarrow> None
         | Some (u, t) \<Rightarrow>
             (case json_string t of None \<Rightarrow> None | Some (v, rest) \<Rightarrow> Some (u @ v, rest)))
      else if byte c < 0x20 then None
      else (case DecodeRune (c # cs) of
              (r, n) \<Rightarrow>
                (case json_string (drop (n - 1) cs) of
                   None \<Rightarrow> None
                 | Some (v, rest) \<Rightarrow> Some (EncodeRune r @ v, rest))))"
  by pat_completeness auto
termination
  by (relation "measure length") (auto dest: unescape_shorter)

section \<open>Numbers and values\<close>

definition digit :: "char \<Rightarrow> bool" where
  "digit c \<longleftrightarrow> CHR ''0'' \<le> c \<and> c \<le> CHR ''9''"

definition number_of_digits :: "string \<Rightarrow> int" where
  "number_of_digits s = foldl (\<lambda>n c. n * 10 + (of_char c - 48)) 0 s"

text \<open>An optional fraction or exponent: \<open>None\<close> if it begins but has no digit.\<close>

definition fraction :: "string \<Rightarrow> (string \<times> string) option" where
  "fraction s =
     (case s of
        c # cs \<Rightarrow>
          if c = CHR ''.'' then
            (if takeWhile digit cs = [] then None
             else Some (c # takeWhile digit cs, dropWhile digit cs))
          else Some ([], s)
      | [] \<Rightarrow> Some ([], s))"

definition exponent :: "string \<Rightarrow> (string \<times> string) option" where
  "exponent s =
     (case s of
        c # cs \<Rightarrow>
          if c = CHR ''e'' \<or> c = CHR ''E'' then
            (let sign = (case cs of d # _ \<Rightarrow> if d = CHR ''+'' \<or> d = CHR ''-'' then [d] else [] | [] \<Rightarrow> []);
                 t = drop (length sign) cs
             in if takeWhile digit t = [] then None
                else Some (c # sign @ takeWhile digit t, dropWhile digit t))
          else Some ([], s)
      | [] \<Rightarrow> Some ([], s))"

definition json_number :: "string \<Rightarrow> (json \<times> string) option" where
  "json_number s =
     (let neg = HasPrefix s ''-'';
          t = (if neg then drop 1 s else s);
          int_part = (if HasPrefix t ''0'' then ''0'' else takeWhile digit t)
      in if int_part = [] then None
         else (case fraction (drop (length int_part) t) of
             None \<Rightarrow> None
           | Some (fr, u) \<Rightarrow>
               (case exponent u of
                  None \<Rightarrow> None
                | Some (ex, rest) \<Rightarrow>
                    Some (if fr = [] \<and> ex = []
                          then JInt (if neg then - number_of_digits int_part else number_of_digits int_part)
                          else JNumber ((if neg then ''-'' else []) @ int_part @ fr @ ex), rest))))"

fun json_value :: "nat \<Rightarrow> string \<Rightarrow> (json \<times> string) option"
  and json_elements :: "nat \<Rightarrow> string \<Rightarrow> (json list \<times> string) option"
  and json_members :: "nat \<Rightarrow> string \<Rightarrow> ((string \<times> json) list \<times> string) option" where
  "json_value 0 s = None"
| "json_value (Suc n) s =
     (case skip s of
        [] \<Rightarrow> None
      | c # cs \<Rightarrow>
          if c = CHR 0x7B then
            (if HasPrefix (skip cs) [CHR 0x7D] then Some (JObject [], drop 1 (skip cs))
             else (case json_members n cs of None \<Rightarrow> None | Some (kvs, t) \<Rightarrow> Some (JObject kvs, t)))
          else if c = CHR 0x5B then
            (if HasPrefix (skip cs) [CHR 0x5D] then Some (JArray [], drop 1 (skip cs))
             else (case json_elements n cs of None \<Rightarrow> None | Some (vs, t) \<Rightarrow> Some (JArray vs, t)))
          else if c = CHR 0x22 then
            (case json_string cs of None \<Rightarrow> None | Some (v, t) \<Rightarrow> Some (JString v, t))
          else if HasPrefix (c # cs) ''null'' then Some (JNull, drop 3 cs)
          else if HasPrefix (c # cs) ''true'' then Some (JBool True, drop 3 cs)
          else if HasPrefix (c # cs) ''false'' then Some (JBool False, drop 4 cs)
          else json_number (c # cs))"
| "json_elements 0 s = None"
| "json_elements (Suc n) s =
     (case json_value n s of
        None \<Rightarrow> None
      | Some (v, t) \<Rightarrow>
          (case skip t of
             [] \<Rightarrow> None
           | c # cs \<Rightarrow>
               if c = CHR 0x5D then Some ([v], cs)
               else if c = CHR '','' then
                 (case json_elements n cs of None \<Rightarrow> None | Some (vs, u) \<Rightarrow> Some (v # vs, u))
               else None))"
| "json_members 0 s = None"
| "json_members (Suc n) s =
     (case skip s of
        [] \<Rightarrow> None
      | q # ks \<Rightarrow>
          if q \<noteq> CHR 0x22 then None
          else (case json_string ks of
              None \<Rightarrow> None
            | Some (k, t) \<Rightarrow>
                if \<not> HasPrefix (skip t) '':'' then None
                else (case json_value n (drop 1 (skip t)) of
                    None \<Rightarrow> None
                  | Some (v, u) \<Rightarrow>
                      (case skip u of
                         [] \<Rightarrow> None
                       | c # cs \<Rightarrow>
                           if c = CHR 0x7D then Some ([(k, v)], cs)
                           else if c = CHR '','' then
                             (case json_members n cs of
                                None \<Rightarrow> None | Some (kvs, w) \<Rightarrow> Some ((k, v) # kvs, w))
                           else None))))"

definition json_next :: "string \<Rightarrow> json_read" where
  "json_next s =
     (if skip s = [] then JEnd
      else (case json_value (2 * length s + 2) s of None \<Rightarrow> JBad | Some (v, t) \<Rightarrow> JValue v t))"

section \<open>The reader's fuel is enough\<close>

text \<open>Every reader consumes at least one byte.\<close>

lemma skip_length: "length (skip s) \<le> length s"
  by (simp add: skip_def length_dropWhile_le)

lemma skip_Cons: "skip s = c # cs \<Longrightarrow> length cs < length s"
  using skip_length [of s] by simp

lemma json_string_length: "json_string s = Some (v, t) \<Longrightarrow> length t < length s"
proof (induction s arbitrary: v t rule: json_string.induct)
  case (2 c cs)
  obtain r n where rn: "DecodeRune (c # cs) = (r, n)" by (cases "DecodeRune (c # cs)")
  show ?case
  proof (cases "c = CHR 0x22 \<or> c = CHR 0x5C \<or> byte c < 0x20")
    case True
    with 2 show ?thesis
      by (fastforce dest: unescape_shorter split: if_splits option.splits prod.splits)
  next
    case False
    with "2.prems" rn obtain v' where "json_string (drop (n - 1) cs) = Some (v', t)"
      by (auto simp del: DecodeRune.simps split: option.splits prod.splits)
    with "2.IH"(2) [OF _ _ _ rn [symmetric]] False have "length t < length (drop (n - 1) cs)" by blast
    then show ?thesis by simp
  qed
qed simp

lemma fraction_length: "fraction s = Some (f, t) \<Longrightarrow> length t \<le> length s"
  by (auto simp: fraction_def length_dropWhile_le le_SucI split: list.splits if_splits)

lemma exponent_length: "exponent s = Some (x, t) \<Longrightarrow> length t \<le> length s"
proof (cases s)
  case (Cons c cs)
  let ?sign = "case cs of d # _ \<Rightarrow> if d = CHR ''+'' \<or> d = CHR ''-'' then [d] else [] | [] \<Rightarrow> []"
  assume "exponent s = Some (x, t)"
  then have "t = dropWhile digit (drop (length ?sign) cs) \<or> t = s"
    by (auto simp: Cons exponent_def Let_def split: if_splits)
  then show ?thesis
    using length_dropWhile_le [of digit "drop (length ?sign) cs"] by (auto simp: Cons)
qed (simp add: exponent_def)

lemma json_number_length: "json_number s = Some (v, t) \<Longrightarrow> length t < length s"
proof -
  let ?t = "if HasPrefix s ''-'' then drop 1 s else s"
  let ?i = "if HasPrefix ?t ''0'' then ''0'' else takeWhile digit ?t"
  assume "json_number s = Some (v, t)"
  then obtain fr u ex where i: "?i \<noteq> []" and f: "fraction (drop (length ?i) ?t) = Some (fr, u)"
    and x: "exponent u = Some (ex, t)"
    by (auto simp: json_number_def Let_def split: if_splits option.splits)
  have "?t \<noteq> []" using i by (auto simp: HasPrefix_def)
  then have "length (drop (length ?i) ?t) < length ?t" using i by (cases ?t) auto
  also have "\<dots> \<le> length s" by simp
  finally show ?thesis using fraction_length [OF f] exponent_length [OF x] by simp
qed

lemma reader_shrinks:
  "json_value n s = Some (v, t) \<Longrightarrow> length t < length s"
  "json_elements n s = Some (vs, t) \<Longrightarrow> length t < length s"
  "json_members n s = Some (kvs, t) \<Longrightarrow> length t < length s"
proof (induction n s and n s and n s arbitrary: v t and vs t and kvs t
    rule: json_value_json_elements_json_members.induct)
  case (2 n s)
  then obtain c cs where sk: "skip s = c # cs" by (auto split: list.splits)
  have sk2: "length (skip cs) \<le> length cs" by (rule skip_length)
  show ?case
    using "2.prems" "2.IH" skip_Cons [OF sk] sk2 json_number_length [of "c # cs" v t] sk
    by (fastforce dest: json_string_length split: if_splits option.splits)
next
  case (4 n s)
  then obtain v u c cs where u: "json_value n s = Some (v, u)" "skip u = c # cs"
    by (auto split: list.splits option.splits)
  have "length u < length s" using "4.IH"(1) [OF u(1)] .
  with "4.prems" "4.IH"(2) [OF u(1) refl u(2)] u skip_Cons [OF u(2)] show ?case
    by (fastforce split: if_splits option.splits)
next
  case (6 n s)
  then obtain q ks k t0 v u c cs where sk: "skip s = q # ks" "q = CHR 0x22" "json_string ks = Some (k, t0)"
    "HasPrefix (skip t0) '':''" "json_value n (drop 1 (skip t0)) = Some (v, u)" "skip u = c # cs"
    by (auto split: list.splits option.splits if_splits)
  have "length u < length (drop 1 (skip t0))"
    using "6.IH"(1) [OF sk(1) _ sk(3) refl _ sk(5)] sk(2,4) by blast
  then have cs: "length cs < length s"
    using skip_Cons [OF sk(6)] skip_Cons [OF sk(1)] json_string_length [OF sk(3)] skip_length [of t0]
    by simp
  have "c \<noteq> CHR 0x7D \<Longrightarrow> c = CHR '','' \<Longrightarrow> json_members n cs = Some (kvs', t) \<Longrightarrow> length t < length cs"
    for kvs'
    using "6.IH"(2) [OF sk(1) _ sk(3) refl _ sk(5) refl sk(6)] sk(2,4) by blast
  then show ?case
    using "6.prems" sk cs by (fastforce split: if_splits option.splits)
qed simp_all

lemma reader_fuel_step:
  "(\<forall>s. 2 * length s + 1 \<le> n \<longrightarrow> json_value (Suc n) s = json_value n s) \<and>
   (\<forall>s. 2 * length s + 2 \<le> n \<longrightarrow> json_elements (Suc n) s = json_elements n s) \<and>
   (\<forall>s. 2 * length s + 2 \<le> n \<longrightarrow> json_members (Suc n) s = json_members n s)"
proof (induction n)
  case (Suc n)
  have value_eq: "2 * length s + 1 \<le> n \<Longrightarrow> json_value (Suc n) s = json_value n s"
    and elements_eq: "2 * length s + 2 \<le> n \<Longrightarrow> json_elements (Suc n) s = json_elements n s"
    and members_eq: "2 * length s + 2 \<le> n \<Longrightarrow> json_members (Suc n) s = json_members n s" for s
    using Suc.IH by blast+
  show ?case
  proof (intro conjI allI impI)
    fix s :: string
    assume len: "2 * length s + 1 \<le> Suc n"
    show "json_value (Suc (Suc n)) s = json_value (Suc n) s"
    proof (cases "skip s")
      case (Cons c cs)
      then have "2 * length cs + 2 \<le> n" using skip_Cons [OF Cons] len by linarith
      then show ?thesis
        unfolding json_value.simps(2) [of "Suc n" s] json_value.simps(2) [of n s] Cons
        by (simp only: elements_eq members_eq list.case)
    qed simp
  next
    fix s :: string
    assume len: "2 * length s + 2 \<le> Suc n"
    have v: "json_value (Suc n) s = json_value n s" using len by (intro value_eq) simp
    show "json_elements (Suc (Suc n)) s = json_elements (Suc n) s"
    proof (cases "json_value n s")
      case (Some vt)
      obtain v' t where vt: "vt = (v', t)" by (cases vt)
      have more: "skip t = c # cs \<Longrightarrow> json_elements (Suc n) cs = json_elements n cs" for c cs
        using skip_Cons [of t c cs] reader_shrinks(1) [OF Some [unfolded vt]] len
        by (intro elements_eq) linarith
      show ?thesis
        unfolding json_elements.simps(2) [of "Suc n" s] json_elements.simps(2) [of n s] v Some vt
        by (simp add: more split: list.split del: json_elements.simps)
    qed (simp add: v json_elements.simps(2) [of "Suc n" s] json_elements.simps(2) [of n s]
        del: json_elements.simps json_value.simps)
  next
    fix s :: string
    assume len: "2 * length s + 2 \<le> Suc n"
    show "json_members (Suc (Suc n)) s = json_members (Suc n) s"
    proof (cases "skip s")
      case (Cons q ks)
      show ?thesis
      proof (cases "json_string ks")
        case (Some kt)
        obtain k t where kt: "kt = (k, t)" by (cases kt)
        let ?v = "drop 1 (skip t)"
        have lv: "length ?v < length s"
          using skip_Cons [OF Cons] json_string_length [OF Some [unfolded kt]] skip_length [of t] by simp
        then have v: "json_value (Suc n) ?v = json_value n ?v" using len by (intro value_eq) linarith
        have more: "json_members (Suc n) cs = json_members n cs"
          if "json_value n ?v = Some (v', u)" "skip u = c # cs" for v' u c cs
          using skip_Cons [OF that(2)] reader_shrinks(1) [OF that(1)] lv len
          by (intro members_eq) linarith
        show ?thesis
          unfolding json_members.simps(2) [of "Suc n" s] json_members.simps(2) [of n s] Cons
            list.case Some kt option.case prod.case v
          by (simp add: more split: list.split option.split prod.split del: json_members.simps)
      qed (simp add: Cons json_members.simps(2) [of "Suc n" s] json_members.simps(2) [of n s]
          del: json_members.simps)
    qed (simp add: json_members.simps(2) [of "Suc n" s] json_members.simps(2) [of n s]
        del: json_members.simps)
  qed
qed simp

lemma reader_fuel: "2 * length s + 1 \<le> n \<Longrightarrow> json_value n s = json_value (2 * length s + 1) s"
  by (induction n rule: dec_induct) (use reader_fuel_step in auto)

text \<open>So reading does not depend on the fuel: more of it never gives another answer.\<close>

lemma json_next_fuel:
  assumes "2 * length s + 2 \<le> n"
  shows "json_next s =
     (if skip s = [] then JEnd
      else (case json_value n s of None \<Rightarrow> JBad | Some (v, t) \<Rightarrow> JValue v t))"
  using reader_fuel [of s n] reader_fuel [of s "2 * length s + 2"] assms
  by (simp add: json_next_def)

end
