(* ===== verification/Models.thy ===== *)
theory Models
  imports Security Storage Json
begin

text \<open>
  The data of the service (internal/server/models.go, the credential type of
  internal/server/write_credentials.go), requests and replies, the decoding of request
  bodies into the handlers' input structs (\<open>decode\<close> in internal/server/server.go), and the
  state a request handler works on.
\<close>

section \<open>Documents\<close>

text \<open>
  A \<open>time.Time\<close> is the number of nanoseconds after Go's zero time, so \<open>IsZero\<close> is \<open>= 0\<close>.
  A revision is a signed 64-bit integer. A nil or empty byte slice is the empty string; JSON
  drops it in both cases.
\<close>

type_synonym time = int
type_synonym int64 = "64 word"

record secret =
  sec_Path :: string
  sec_Revision :: int64
  sec_Created :: time
  sec_Updated :: time
  sec_Ciphertext :: string
  sec_Algorithm :: string
  sec_Deleted :: bool

record agent =
  ag_ID :: string
  ag_Name :: string
  ag_Paths :: "string list"
  ag_Hash :: string
  ag_Revoked :: bool
  ag_Created :: time

record enrollment =
  en_ID :: string
  en_AgentID :: string
  en_Hash :: string
  en_Expires :: time
  en_Used :: bool

record admin =
  ad_Name :: string
  ad_Password :: string

record session =
  se_Hash :: string
  se_Admin :: string
  se_CSRF :: string
  se_Expires :: time

record audit =
  au_Time :: time
  au_Identity :: string
  au_Path :: string
  au_Operation :: string
  au_Success :: bool
  au_Source :: string

record write_credential =
  wc_AllowCreate :: bool
  wc_ID :: string
  wc_Name :: string
  wc_Paths :: "string list"
  wc_Hash :: string
  wc_Revoked :: bool
  wc_Created :: time

text \<open>\<open>var record Secret\<close>: the zero value a failed \<open>Get\<close> leaves behind.\<close>

definition zero_secret :: secret where
  "zero_secret = \<lparr>sec_Path = [], sec_Revision = 0, sec_Created = 0, sec_Updated = 0,
     sec_Ciphertext = [], sec_Algorithm = [], sec_Deleted = False\<rparr>"

text \<open>
  What the table stores: the JSON document of one of these types. Reading a document as
  another type is a JSON error.
\<close>

datatype doc =
    DEnvelope envelope
  | DAdmin admin
  | DSession session
  | DEnrollment enrollment
  | DAgent agent
  | DIndex string
  | DSecret secret
  | DWriter write_credential
  | DAudit audit

definition json_error :: err where
  "json_error = ErrText ''json''"

definition as_envelope :: "doc \<Rightarrow> err + envelope" where
  "as_envelope d = (case d of DEnvelope x \<Rightarrow> Inr x | _ \<Rightarrow> Inl json_error)"
definition as_admin :: "doc \<Rightarrow> err + admin" where
  "as_admin d = (case d of DAdmin x \<Rightarrow> Inr x | _ \<Rightarrow> Inl json_error)"
definition as_session :: "doc \<Rightarrow> err + session" where
  "as_session d = (case d of DSession x \<Rightarrow> Inr x | _ \<Rightarrow> Inl json_error)"
definition as_enrollment :: "doc \<Rightarrow> err + enrollment" where
  "as_enrollment d = (case d of DEnrollment x \<Rightarrow> Inr x | _ \<Rightarrow> Inl json_error)"
definition as_agent :: "doc \<Rightarrow> err + agent" where
  "as_agent d = (case d of DAgent x \<Rightarrow> Inr x | _ \<Rightarrow> Inl json_error)"
definition as_index :: "doc \<Rightarrow> err + string" where
  "as_index d = (case d of DIndex x \<Rightarrow> Inr x | _ \<Rightarrow> Inl json_error)"
definition as_secret :: "doc \<Rightarrow> err + secret" where
  "as_secret d = (case d of DSecret x \<Rightarrow> Inr x | _ \<Rightarrow> Inl json_error)"
definition as_writer :: "doc \<Rightarrow> err + write_credential" where
  "as_writer d = (case d of DWriter x \<Rightarrow> Inr x | _ \<Rightarrow> Inl json_error)"

lemmas as_defs = as_envelope_def as_admin_def as_session_def as_enrollment_def as_agent_def
  as_index_def as_secret_def as_writer_def

lemma as_Inr [simp]:
  "as_envelope d = Inr en \<longleftrightarrow> d = DEnvelope en"
  "as_admin d = Inr ad \<longleftrightarrow> d = DAdmin ad"
  "as_session d = Inr se \<longleftrightarrow> d = DSession se"
  "as_enrollment d = Inr er \<longleftrightarrow> d = DEnrollment er"
  "as_agent d = Inr ag \<longleftrightarrow> d = DAgent ag"
  "as_index d = Inr ix \<longleftrightarrow> d = DIndex ix"
  "as_secret d = Inr sc \<longleftrightarrow> d = DSecret sc"
  "as_writer d = Inr wc \<longleftrightarrow> d = DWriter wc"
  by (auto simp: as_defs split: doc.splits)

lemma as_own [simp]:
  "as_envelope (DEnvelope en) = Inr en" "as_admin (DAdmin ad) = Inr ad"
  "as_session (DSession se) = Inr se" "as_enrollment (DEnrollment er) = Inr er"
  "as_agent (DAgent ag) = Inr ag" "as_index (DIndex ix) = Inr ix"
  "as_secret (DSecret sc) = Inr sc" "as_writer (DWriter wc) = Inr wc"
  by (simp_all add: as_defs)

lemma as_Inl:
  "as_envelope d = Inl e \<Longrightarrow> e = json_error" "as_admin d = Inl e \<Longrightarrow> e = json_error"
  "as_session d = Inl e \<Longrightarrow> e = json_error" "as_enrollment d = Inl e \<Longrightarrow> e = json_error"
  "as_agent d = Inl e \<Longrightarrow> e = json_error" "as_index d = Inl e \<Longrightarrow> e = json_error"
  "as_secret d = Inl e \<Longrightarrow> e = json_error" "as_writer d = Inl e \<Longrightarrow> e = json_error"
  by (auto simp: as_defs split: doc.splits)

lemma json_error_not_sentinel [simp]: "json_error \<noteq> ErrNotFound" "json_error \<noteq> ErrUnauth"
  "json_error \<noteq> ErrForbidden" "json_error \<noteq> ErrLocked"
  by (simp_all add: json_error_def)

lemma as_not_NotFound [simp]:
  "as_envelope d \<noteq> Inl ErrNotFound" "as_admin d \<noteq> Inl ErrNotFound" "as_session d \<noteq> Inl ErrNotFound"
  "as_enrollment d \<noteq> Inl ErrNotFound" "as_agent d \<noteq> Inl ErrNotFound" "as_index d \<noteq> Inl ErrNotFound"
  "as_secret d \<noteq> Inl ErrNotFound" "as_writer d \<noteq> Inl ErrNotFound"
  by (auto simp: as_defs json_error_def split: doc.splits)

section \<open>Requests\<close>

text \<open>
  Header names are canonical and a list holds the first value of each; the path is
  \<open>URL.Path\<close>, decoded once by \<open>net/http\<close>.
\<close>

record request =
  Method :: string
  UrlPath :: string
  UsesTLS :: bool
  HostName :: string
  Headers :: "(string \<times> string) list"
  Cookies :: "(string \<times> string) list"
  RemoteAddr :: string
  Body :: string

definition header :: "request \<Rightarrow> string \<Rightarrow> string" where
  "header r k = (case map_of (Headers r) k of None \<Rightarrow> [] | Some v \<Rightarrow> v)"

definition cookie :: "request \<Rightarrow> string \<Rightarrow> string option" where
  "cookie r k = map_of (Cookies r) k"

definition safe_method :: "request \<Rightarrow> bool" where
  "safe_method r \<longleftrightarrow> Method r = ''GET'' \<or> Method r = ''HEAD''"

section \<open>Decoding a body\<close>

text \<open>
  Member names match a field if they are equal after simple case folding: ASCII letters, and
  the two other runes that fold to an ASCII letter, U+017F (s) and U+212A (k).
\<close>

fun fold_name :: "string \<Rightarrow> string" where
  "fold_name [] = []"
| "fold_name (c # cs) =
     (if c = CHR 0xC5 \<and> take 1 cs = [CHR 0xBF] then CHR ''s'' # fold_name (drop 1 cs)
      else if c = CHR 0xE2 \<and> take 2 cs = [CHR 0x84, CHR 0xAA] then CHR ''k'' # fold_name (drop 2 cs)
      else (if 65 \<le> (of_char c :: nat) \<and> (of_char c :: nat) \<le> 90 then char_of ((of_char c :: nat) + 32) else c)
             # fold_name cs)"

definition names :: "string \<Rightarrow> string \<Rightarrow> bool" where
  "names key field \<longleftrightarrow> fold_name key = fold_name field"

definition set_string :: "string \<Rightarrow> json \<Rightarrow> string option" where
  "set_string old v = (case v of JNull \<Rightarrow> Some old | JString s \<Rightarrow> Some s | _ \<Rightarrow> None)"

definition set_bool :: "bool \<Rightarrow> json \<Rightarrow> bool option" where
  "set_bool old v = (case v of JNull \<Rightarrow> Some old | JBool b \<Rightarrow> Some b | _ \<Rightarrow> None)"

definition set_int :: "int64 \<Rightarrow> json \<Rightarrow> int64 option" where
  "set_int old v = (case v of JNull \<Rightarrow> Some old
     | JInt i \<Rightarrow> if - (2 ^ 63) \<le> i \<and> i < 2 ^ 63 then Some (word_of_int i) else None
     | _ \<Rightarrow> None)"

text \<open>
  An array is decoded into the slice's elements from the first on, so a null element keeps
  what an earlier duplicate member left there. (What a third duplicate would find between the
  slice's length and its capacity is not modelled.)
\<close>

definition set_strings :: "string list \<Rightarrow> json \<Rightarrow> string list option" where
  "set_strings old v = (case v of JNull \<Rightarrow> Some []
     | JArray xs \<Rightarrow>
         those (map (\<lambda>(i, x). set_string (if i < length old then old ! i else []) x) (enumerate 0 xs))
     | _ \<Rightarrow> None)"

text \<open>A pointer field: null gives nil, anything else decodes into the pointee, new or old.\<close>

definition set_pointer ::
  "('a \<Rightarrow> json \<Rightarrow> 'a option) \<Rightarrow> 'a \<Rightarrow> 'a option \<Rightarrow> json \<Rightarrow> 'a option option" where
  "set_pointer dec zero old v = (case v of JNull \<Rightarrow> Some None
     | _ \<Rightarrow> map_option Some (dec (case old of None \<Rightarrow> zero | Some x \<Rightarrow> x) v))"

text \<open>
  Decoding into a struct: \<open>fld key v x\<close> stores one member, \<open>None\<close> for an unknown member
  (\<open>DisallowUnknownFields\<close>) or a value of the wrong type. A JSON null leaves the struct as
  it is.
\<close>

fun set_members :: "(string \<Rightarrow> json \<Rightarrow> 't \<Rightarrow> 't option) \<Rightarrow> (string \<times> json) list \<Rightarrow> 't \<Rightarrow> 't option" where
  "set_members fld [] x = Some x"
| "set_members fld ((k, v) # kvs) x =
     (case fld k v x of None \<Rightarrow> None | Some y \<Rightarrow> set_members fld kvs y)"

definition into_struct :: "(string \<Rightarrow> json \<Rightarrow> 't \<Rightarrow> 't option) \<Rightarrow> json \<Rightarrow> 't \<Rightarrow> 't option" where
  "into_struct fld v x = (case v of JNull \<Rightarrow> Some x | JObject kvs \<Rightarrow> set_members fld kvs x | _ \<Rightarrow> None)"

definition invalid_json :: err where
  "invalid_json = bad ''invalid JSON request''"

text \<open>One member of a struct, by its JSON name; \<open>no_field\<close> ends the list of fields.\<close>

definition no_field :: "string \<Rightarrow> json \<Rightarrow> 't \<Rightarrow> 't option" where
  "no_field key v x = None"

definition field ::
  "string \<Rightarrow> ('a \<Rightarrow> json \<Rightarrow> 'a option) \<Rightarrow> ('t \<Rightarrow> 'a) \<Rightarrow> ('a \<Rightarrow> 't \<Rightarrow> 't)
   \<Rightarrow> (string \<Rightarrow> json \<Rightarrow> 't \<Rightarrow> 't option) \<Rightarrow> string \<Rightarrow> json \<Rightarrow> 't \<Rightarrow> 't option" where
  "field name dec sel upd others key v x =
     (if names key name then map_option (\<lambda>a. upd a x) (dec (sel x) v) else others key v x)"

text \<open>
  The decoder reads at most 2 MiB of the body, takes one value, and wants nothing but white
  space behind it. All failures are the one error.
\<close>

definition decode_bytes :: "string \<Rightarrow> (string \<Rightarrow> json \<Rightarrow> 't \<Rightarrow> 't option) \<Rightarrow> 't \<Rightarrow> err + 't" where
  "decode_bytes s fld zero =
     (case json_next s of
        JValue v rest \<Rightarrow>
          (case into_struct fld v zero of
             None \<Rightarrow> Inl invalid_json
           | Some x \<Rightarrow> (case json_next rest of JEnd \<Rightarrow> Inr x | _ \<Rightarrow> Inl invalid_json))
      | _ \<Rightarrow> Inl invalid_json)"

definition decode :: "request \<Rightarrow> (string \<Rightarrow> json \<Rightarrow> 't \<Rightarrow> 't option) \<Rightarrow> 't \<Rightarrow> err + 't" where
  "decode r fld zero = decode_bytes (take (2 * 1024 * 1024) (Body r)) fld zero"

lemma decode_short: "length (Body r) \<le> 2000000 \<Longrightarrow> decode r fld zero = decode_bytes (Body r) fld zero"
  by (simp add: decode_def)

lemma decode_Inl: "decode r fld zero = Inl e \<Longrightarrow> e = invalid_json"
  by (auto simp: decode_def decode_bytes_def split: json_read.splits option.splits)

lemma json_next_JEnd: "json_next s = JEnd \<longleftrightarrow> skip s = []"
  by (auto simp: json_next_def split: option.splits)

text \<open>A request body is accepted exactly when its first 2 MiB are one JSON value, read
  with any sufficient fuel, that fits the input struct, with nothing but white space behind
  it; every other body gets the one 400 error.\<close>

theorem decode_one_value:
  fixes zero :: 't
  shows "decode r fld zero =
     (let s = take (2 * 1024 * 1024) (Body r) in
      case json_value (2 * length s + 2 + n) s of
        None \<Rightarrow> Inl invalid_json
      | Some (v, rest) \<Rightarrow>
          (case into_struct fld v zero of
             None \<Rightarrow> Inl invalid_json
           | Some x \<Rightarrow> if skip rest = [] then Inr x else Inl invalid_json))"
proof -
  define s where "s = take (2 * 1024 * 1024) (Body r)"
  define m where "m = 2 * length s + 2 + n"
  have read: "json_next s =
      (if skip s = [] then JEnd else case json_value m s of None \<Rightarrow> JBad | Some (v, t) \<Rightarrow> JValue v t)"
    by (rule json_next_fuel) (simp add: m_def)
  have empty: "skip s = [] \<Longrightarrow> json_value m s = None"
    by (cases m) simp_all
  have rest: "(case json_next t of JEnd \<Rightarrow> Inr x | _ \<Rightarrow> Inl invalid_json) =
      (if skip t = [] then Inr x else Inl invalid_json)" for t and x :: 't
    using json_next_JEnd [of t] by (cases "json_next t") auto
  show ?thesis
    unfolding decode_def decode_bytes_def Let_def s_def [symmetric] m_def [symmetric]
    by (cases "json_value m s") (auto simp: read rest empty split: option.split)
qed

end
