(* ===== verification/Host.thy ===== *)
theory Host
  imports Paths Models
begin

text \<open>
  The machine the agent runs on, as far as internal/agent uses it: the lexical functions of
  Go's \<open>path/filepath\<close>, the integer parsers of \<open>strconv\<close>, and a file system of inodes with
  directories, regular files and symbolic links, whose operations may fail or be cut short by
  a crash at any point.
\<close>

section \<open>Lexical path functions\<close>

definition IsAbs :: "string \<Rightarrow> bool" where
  "IsAbs p = HasPrefix p ''/''"

text \<open>One element of the path, over the elements kept so far in reverse.\<close>

definition clean_step :: "bool \<Rightarrow> string list \<Rightarrow> string \<Rightarrow> string list" where
  "clean_step rooted out part =
     (if part = [] \<or> part = ''.'' then out
      else if part = ''..'' then
        (case out of
           [] \<Rightarrow> if rooted then [] else [''..'']
         | q # qs \<Rightarrow> if q = ''..'' then ''..'' # out else qs)
      else part # out)"

definition Clean :: "string \<Rightarrow> string" where
  "Clean p =
     (if p = [] then ''.''
      else let rooted = HasPrefix p ''/'';
               s = Join (rev (foldl (clean_step rooted) [] (Split p slash))) slash
           in if rooted then slash # s else if s = [] then ''.'' else s)"

definition FilepathJoin :: "string \<Rightarrow> string \<Rightarrow> string" where
  "FilepathJoin a b =
     (if a = [] then (if b = [] then [] else Clean b) else Clean (a @ ''/'' @ b))"

text \<open>The last element, after removing trailing slashes.\<close>

definition strip_slashes :: "string \<Rightarrow> string" where
  "strip_slashes p = rev (dropWhile (\<lambda>c. c = slash) (rev p))"

definition Base :: "string \<Rightarrow> string" where
  "Base p =
     (if p = [] then ''.''
      else let q = strip_slashes p
           in if q = [] then ''/'' else last (Split q slash))"

section \<open>Integer parsers\<close>

definition digit_value :: "char \<Rightarrow> nat" where
  "digit_value c = byte c - byte CHR ''0''"

definition is_octal :: "char \<Rightarrow> bool" where
  "is_octal c \<longleftrightarrow> c \<in> set ''01234567''"

definition is_decimal :: "char \<Rightarrow> bool" where
  "is_decimal c \<longleftrightarrow> c \<in> set ''0123456789''"

text \<open>\<open>strconv.ParseUint(s, 8, 12)\<close> on a non-empty string.\<close>

fun parse_octal :: "nat \<Rightarrow> string \<Rightarrow> nat option" where
  "parse_octal n [] = Some n"
| "parse_octal n (c # cs) =
     (if is_octal c then
        (if 8 * n + digit_value c > 4095 then None else parse_octal (8 * n + digit_value c) cs)
      else None)"

definition decimal_value :: "string \<Rightarrow> nat" where
  "decimal_value s = foldl (\<lambda>n c. 10 * n + digit_value c) 0 s"

text \<open>\<open>strconv.Atoi\<close>: an optional sign and digits, within 64 bits.\<close>

definition Atoi :: "string \<Rightarrow> int option" where
  "Atoi s =
     (let neg = HasPrefix s ''-'';
          ds = (if neg \<or> HasPrefix s ''+'' then tl s else s);
          n = decimal_value ds
      in if ds = [] \<or> \<not> list_all is_decimal ds then None
         else if neg then (if n > 2 ^ 63 then None else Some (- int n))
         else if n \<ge> 2 ^ 63 then None
         else Some (int n))"

section \<open>Log levels\<close>

text \<open>
  \<open>slog.Level.UnmarshalText\<close>, which both commands apply to their configuration: a name in
  any case, with an optional offset. Two runes that are not ASCII have ASCII letters as their
  upper case.
\<close>

definition upper_rune :: "nat \<Rightarrow> nat" where
  "upper_rune r =
     (if 97 \<le> r \<and> r \<le> 122 then r - 32 else if r = 0x131 then 73 else if r = 0x17F then 83 else r)"

definition level_names :: "string list" where
  "level_names = [''DEBUG'', ''INFO'', ''WARN'', ''ERROR'']"

definition level_ok :: "string \<Rightarrow> bool" where
  "level_ok s =
     (let name = takeWhile (\<lambda>c. c \<noteq> CHR ''+'' \<and> c \<noteq> CHR ''-'') s; offset = drop (length name) s in
      (offset = [] \<or> Atoi offset \<noteq> None) \<and> map upper_rune (runes name) \<in> set (map runes level_names))"

section \<open>Files\<close>

text \<open>
  What a file holds: bytes, one of the agent's two state files as the value that was
  marshalled into it, or what an interrupted write left. Reading a file as something else is
  an error of the decoder.
\<close>

record agent_credentials =
  cr_ID :: string
  cr_Token :: string

record applied =
  ap_Revision :: int64
  ap_Fingerprint :: string
  ap_OutputHash :: string
  ap_Pending :: bool

datatype content =
    Bytes string
  | CredentialsFile agent_credentials
  | RevisionsFile "string \<rightharpoonup> applied"
  | Torn

text \<open>A file is synced when a crash leaves its content as it is.\<close>

record stored_file =
  f_data :: content
  f_mode :: nat
  f_uid :: int
  f_gid :: int
  f_synced :: bool

text \<open>A directory has its parent and its permissions, and its entries.\<close>

record dir_info =
  d_parent :: nat
  d_mode :: nat

datatype node =
    Reg stored_file
  | Directory dir_info "string \<rightharpoonup> nat"
  | Link string
  | Special

fun is_reg :: "node \<Rightarrow> bool" where
  "is_reg (Reg f) = True"
| "is_reg d = False"

fun crash_node :: "node \<Rightarrow> node" where
  "crash_node (Reg f) = Reg (if f_synced f then f else f\<lparr>f_data := Torn\<rparr>)"
| "crash_node d = d"

text \<open>
  What the next operation does: its work, fail for a reason outside the model (permissions,
  space, the device), or never return.
\<close>

datatype outcome = Done | Fails | Crashes

text \<open>
  The environment of the agent's process: the primitives of theory Security, the owner its
  files get, its working directory, and the user database.
\<close>

record host_env = env +
  self_uid :: int
  self_gid :: int
  cwd :: nat
  lookup_user :: "string \<Rightarrow> string option"
  lookup_group :: "string \<Rightarrow> string option"

record host =
  nodes :: "nat \<rightharpoonup> node"
  next_ino :: nat
  outcomes :: "outcome list"
  crashed :: bool
  drawn :: nat

definition halted :: err where
  "halted = ErrText ''crashed''"

definition EIO :: err where
  "EIO = ErrText ''input/output error''"

definition ENOENT :: err where
  "ENOENT = ErrText ''no such file or directory''"

definition EEXIST :: err where
  "EEXIST = ErrText ''file exists''"

definition ENOTDIR :: err where
  "ENOTDIR = ErrText ''not a directory''"

definition ELOOP :: err where
  "ELOOP = ErrText ''too many levels of symbolic links''"

definition EISDIR :: err where
  "EISDIR = ErrText ''is a directory''"

text \<open>A crash loses what is not synced; after it nothing happens any more.\<close>

definition crash_nodes :: "(nat \<rightharpoonup> node) \<Rightarrow> (nat \<rightharpoonup> node)" where
  "crash_nodes ns = (\<lambda>i. map_option crash_node (ns i))"

definition crash :: "'z host_scheme \<Rightarrow> 'z host_scheme" where
  "crash w = w\<lparr>crashed := True, nodes := crash_nodes (nodes w)\<rparr>"

definition sys :: "('z host_scheme, 'a) proc \<Rightarrow> ('z host_scheme, 'a) proc" where
  "sys m = (\<lambda>w.
     if crashed w then (Inl halted, w)
     else case outcomes w of
       [] \<Rightarrow> m w
     | x # xs \<Rightarrow>
         (let w = w\<lparr>outcomes := xs\<rparr> in
          case x of Done \<Rightarrow> m w | Fails \<Rightarrow> (Inl EIO, w) | Crashes \<Rightarrow> (Inl halted, crash w)))"

text \<open>A deferred call runs after the body, whatever it returned.\<close>

definition deferring :: "('s, 'a) proc \<Rightarrow> ('s, 'b) proc \<Rightarrow> ('s, 'a) proc" where
  "deferring m cleanup = (\<lambda>w. case m w of (r, w') \<Rightarrow> (r, snd (cleanup w')))"

section \<open>Operations on open directories and files\<close>

definition entries :: "'z host_scheme \<Rightarrow> nat \<Rightarrow> (string \<rightharpoonup> nat) option" where
  "entries w d = (case nodes w d of Some (Directory p es) \<Rightarrow> Some es | _ \<Rightarrow> None)"

definition child :: "'z host_scheme \<Rightarrow> nat \<Rightarrow> string \<Rightarrow> err + nat" where
  "child w d name =
     (case entries w d of
        None \<Rightarrow> Inl ENOTDIR
      | Some es \<Rightarrow> (case es name of None \<Rightarrow> Inl ENOENT | Some i \<Rightarrow> Inr i))"

definition set_entries :: "nat \<Rightarrow> ((string \<rightharpoonup> nat) \<Rightarrow> (string \<rightharpoonup> nat)) \<Rightarrow> 'z host_scheme \<Rightarrow> 'z host_scheme" where
  "set_entries d f w =
     (case nodes w d of
        Some (Directory p es) \<Rightarrow> w\<lparr>nodes := (nodes w)(d \<mapsto> Directory p (f es))\<rparr>
      | _ \<Rightarrow> w)"

definition set_file :: "nat \<Rightarrow> (stored_file \<Rightarrow> stored_file) \<Rightarrow> 'z host_scheme \<Rightarrow> 'z host_scheme" where
  "set_file i f w =
     (case nodes w i of
        Some (Reg g) \<Rightarrow> w\<lparr>nodes := (nodes w)(i \<mapsto> Reg (f g))\<rparr>
      | _ \<Rightarrow> w)"

text \<open>\<open>openat(fd, name, O_RDONLY|O_DIRECTORY|O_NOFOLLOW)\<close>.\<close>

definition open_dir :: "nat \<Rightarrow> string \<Rightarrow> ('z host_scheme, nat) proc" where
  "open_dir d name = sys (\<lambda>w.
     (case child w d name of
        Inl e \<Rightarrow> Inl e
      | Inr i \<Rightarrow>
          (case nodes w i of
             Some (Directory p es) \<Rightarrow> Inr i
           | Some (Link t) \<Rightarrow> Inl ELOOP
           | _ \<Rightarrow> Inl ENOTDIR), w))"

text \<open>\<open>fstatat(fd, name, AT_SYMLINK_NOFOLLOW)\<close>.\<close>

definition stat_at :: "nat \<Rightarrow> string \<Rightarrow> ('z host_scheme, node) proc" where
  "stat_at d name = sys (\<lambda>w.
     (case child w d name of
        Inl e \<Rightarrow> Inl e
      | Inr i \<Rightarrow> (case nodes w i of None \<Rightarrow> Inl ENOENT | Some n \<Rightarrow> Inr n), w))"

text \<open>\<open>openat(fd, name, O_WRONLY|O_CREAT|O_EXCL|O_NOFOLLOW, 0600)\<close>.\<close>

definition create_excl :: "'e host_env_scheme \<Rightarrow> nat \<Rightarrow> string \<Rightarrow> ('z host_scheme, nat) proc" where
  "create_excl E d name = sys (\<lambda>w.
     case child w d name of
       Inr i \<Rightarrow> (Inl EEXIST, w)
     | Inl e \<Rightarrow>
         if e \<noteq> ENOENT then (Inl e, w)
         else let i = next_ino w;
                  f = \<lparr>f_data = Bytes [], f_mode = 384, f_uid = self_uid E, f_gid = self_gid E,
                       f_synced = False\<rparr>
              in (Inr i, set_entries d (\<lambda>es. es(name \<mapsto> i))
                    (w\<lparr>nodes := (nodes w)(i \<mapsto> Reg f), next_ino := Suc i\<rparr>)))"

text \<open>A write that fails, or that a crash interrupts, leaves the file torn.\<close>

definition write_file :: "nat \<Rightarrow> content \<Rightarrow> ('z host_scheme, unit) proc" where
  "write_file i data =
     andthen (modify (\<lambda>w. if crashed w then w else set_file i (\<lambda>f. f\<lparr>f_data := Torn, f_synced := False\<rparr>) w)) (\<lambda>_.
     sys (modify (set_file i (\<lambda>f. f\<lparr>f_data := data, f_synced := False\<rparr>))))"

text \<open>
  \<open>fchown\<close>: the kernel takes the low 32 bits of each argument, and all ones mean "leave as it
  is".
\<close>

definition own_id :: "int \<Rightarrow> int \<Rightarrow> int" where
  "own_id old n = (if n mod 2 ^ 32 = 2 ^ 32 - 1 then old else n mod 2 ^ 32)"

definition chown_file :: "nat \<Rightarrow> int \<Rightarrow> int \<Rightarrow> ('z host_scheme, unit) proc" where
  "chown_file i uid gid = sys (modify (set_file i (\<lambda>f.
     f\<lparr>f_uid := own_id (f_uid f) uid, f_gid := own_id (f_gid f) gid\<rparr>)))"

definition chmod_file :: "nat \<Rightarrow> nat \<Rightarrow> ('z host_scheme, unit) proc" where
  "chmod_file i m = sys (modify (set_file i (\<lambda>f. f\<lparr>f_mode := m\<rparr>)))"

definition sync_file :: "nat \<Rightarrow> ('z host_scheme, unit) proc" where
  "sync_file i = sys (modify (set_file i (\<lambda>f. f\<lparr>f_synced := True\<rparr>)))"

text \<open>\<open>renameat(fd, from, fd, to)\<close>: the entry moves, replacing what was there if it is not a
  directory.\<close>

definition rename_at :: "nat \<Rightarrow> string \<Rightarrow> string \<Rightarrow> ('z host_scheme, unit) proc" where
  "rename_at d src dst = sys (\<lambda>w.
     case child w d src of
       Inl e \<Rightarrow> (Inl e, w)
     | Inr i \<Rightarrow>
         (case child w d dst of
            Inr j \<Rightarrow>
              (case nodes w j of
                 Some (Directory p es) \<Rightarrow> (Inl EISDIR, w)
               | _ \<Rightarrow> (Inr (), set_entries d (\<lambda>es. es(src := None, dst \<mapsto> i)) w))
          | Inl e \<Rightarrow> (Inr (), set_entries d (\<lambda>es. es(src := None, dst \<mapsto> i)) w)))"

definition unlink_at :: "nat \<Rightarrow> string \<Rightarrow> ('z host_scheme, unit) proc" where
  "unlink_at d name = sys (\<lambda>w.
     case child w d name of
       Inl e \<Rightarrow> (Inl e, w)
     | Inr i \<Rightarrow> (Inr (), set_entries d (\<lambda>es. es(name := None)) w))"

section \<open>Operations on path names\<close>

text \<open>
  The kernel's walk from a directory: symbolic links in the way are followed, at most 40 of
  them, one at the end only on demand.
\<close>

function resolve :: "(nat \<rightharpoonup> node) \<Rightarrow> nat \<Rightarrow> nat \<Rightarrow> string list \<Rightarrow> bool \<Rightarrow> err + nat" where
  "resolve ns links d [] follow = Inr d"
| "resolve ns links d (c # cs) follow =
     (case ns d of
        Some (Directory p es) \<Rightarrow>
          (if c = [] \<or> c = ''.'' then resolve ns links d cs follow
           else if c = ''..'' then resolve ns links (d_parent p) cs follow
           else (case es c of
               None \<Rightarrow> Inl ENOENT
             | Some i \<Rightarrow>
                 (case ns i of
                    Some (Link t) \<Rightarrow>
                      (if cs = [] \<and> \<not> follow then Inr i
                       else if links = 0 then Inl ELOOP
                       else resolve ns (links - 1) (if IsAbs t then 0 else d) (Split t slash @ cs) follow)
                  | _ \<Rightarrow> resolve ns links i cs follow)))
      | _ \<Rightarrow> Inl ENOTDIR)"
  by pat_completeness auto
termination
  by (relation "measures [\<lambda>(ns, links, d, cs, follow). links, \<lambda>(ns, links, d, cs, follow). length cs]") auto

definition locate :: "'e host_env_scheme \<Rightarrow> 'z host_scheme \<Rightarrow> string \<Rightarrow> bool \<Rightarrow> err + nat" where
  "locate E w path follow =
     (if path = [] then Inl ENOENT
      else resolve (nodes w) 40 (if IsAbs path then 0 else cwd E) (Split path slash) follow)"

definition node_at :: "'e host_env_scheme \<Rightarrow> 'z host_scheme \<Rightarrow> string \<Rightarrow> bool \<Rightarrow> err + node" where
  "node_at E w path follow =
     (case locate E w path follow of
        Inl e \<Rightarrow> Inl e
      | Inr i \<Rightarrow> (case nodes w i of None \<Rightarrow> Inl ENOENT | Some n \<Rightarrow> Inr n))"

definition Lstat :: "'e host_env_scheme \<Rightarrow> string \<Rightarrow> ('z host_scheme, node) proc" where
  "Lstat E path = sys (\<lambda>w. (node_at E w path False, w))"

definition Stat :: "'e host_env_scheme \<Rightarrow> string \<Rightarrow> ('z host_scheme, node) proc" where
  "Stat E path = sys (\<lambda>w. (node_at E w path True, w))"

definition ReadFile :: "'e host_env_scheme \<Rightarrow> string \<Rightarrow> ('z host_scheme, content) proc" where
  "ReadFile E path = sys (\<lambda>w.
     (case node_at E w path True of
        Inl e \<Rightarrow> Inl e
      | Inr (Reg f) \<Rightarrow> Inr (f_data f)
      | Inr (Directory p es) \<Rightarrow> Inl EISDIR
      | Inr _ \<Rightarrow> Inl EIO, w))"

text \<open>The names in a directory in order, each with the node it stands for itself.\<close>

definition ReadDir :: "'e host_env_scheme \<Rightarrow> string \<Rightarrow> ('z host_scheme, (string \<times> node) list) proc" where
  "ReadDir E path = sys (\<lambda>w.
     (case node_at E w path True of
        Inl e \<Rightarrow> Inl e
      | Inr (Directory p es) \<Rightarrow>
          Inr (map (\<lambda>c. (c, case nodes w (the (es c)) of None \<Rightarrow> Special | Some n \<Rightarrow> n)) (sorted_list_of_set (dom es)))
      | Inr _ \<Rightarrow> Inl ENOTDIR, w))"

text \<open>\<open>mkdir(2)\<close> of a new last component; trailing slashes are dropped.\<close>

definition Mkdir :: "'e host_env_scheme \<Rightarrow> string \<Rightarrow> nat \<Rightarrow> ('z host_scheme, unit) proc" where
  "Mkdir E path m = sys (\<lambda>w.
     let parts = Split (strip_slashes path) slash in
     case resolve (nodes w) 40 (if IsAbs path then 0 else cwd E) (butlast parts) True of
       Inl e \<Rightarrow> (Inl e, w)
     | Inr d \<Rightarrow>
         (case child w d (last parts) of
            Inr i \<Rightarrow> (Inl EEXIST, w)
          | Inl e \<Rightarrow>
              if e \<noteq> ENOENT then (Inl e, w)
              else let i = next_ino w
                   in (Inr (), set_entries d (\<lambda>es. es(last parts \<mapsto> i))
                         (w\<lparr>nodes := (nodes w)(i \<mapsto> Directory \<lparr>d_parent = d, d_mode = m\<rparr> (\<lambda>_. None)),
                            next_ino := Suc i\<rparr>))))"

text \<open>
  \<open>os.MkdirAll\<close>: nothing to do for a directory; otherwise the parent first, then the
  directory itself, which may have appeared meanwhile.
\<close>

definition parent_prefix :: "string \<Rightarrow> string" where
  "parent_prefix p = rev (dropWhile (\<lambda>c. c \<noteq> slash) (rev (strip_slashes p)))"

lemma parent_prefix_shorter [simp]:
  assumes "p \<noteq> []"
  shows "length (parent_prefix p) < length p"
proof -
  obtain c r where r: "rev p = c # r" using assms by (cases "rev p") auto
  have "length (parent_prefix p) = length (dropWhile (\<lambda>c. c \<noteq> slash) (dropWhile (\<lambda>c. c = slash) (c # r)))"
    by (simp add: parent_prefix_def strip_slashes_def r)
  also have "\<dots> \<le> length r"
  proof (cases "c = slash")
    case True
    have "length (dropWhile (\<lambda>c. c \<noteq> slash) (dropWhile (\<lambda>c. c = slash) r)) \<le> length (dropWhile (\<lambda>c. c = slash) r)"
      by (rule length_dropWhile_le)
    also have "\<dots> \<le> length r" by (rule length_dropWhile_le)
    finally show ?thesis using True by simp
  qed (simp add: length_dropWhile_le)
  also have "length r < length p"
    by (metis length_Cons length_rev lessI r)
  finally show ?thesis .
qed

function MkdirAll :: "'e host_env_scheme \<Rightarrow> string \<Rightarrow> nat \<Rightarrow> ('z host_scheme, unit) proc" where
  "MkdirAll E path m =
     andthen (attempt (Stat E path)) (\<lambda>st. case st of
       Inr (Directory p es) \<Rightarrow> ret ()
     | Inr _ \<Rightarrow> throw ENOTDIR
     | Inl _ \<Rightarrow>
         andthen (if path = [] \<or> parent_prefix path = [] then ret () else MkdirAll E (parent_prefix path) m) (\<lambda>_.
         andthen (attempt (Mkdir E path m)) (\<lambda>r. case r of
           Inr _ \<Rightarrow> ret ()
         | Inl e \<Rightarrow>
             andthen (attempt (Lstat E path)) (\<lambda>st. case st of
               Inr (Directory p es) \<Rightarrow> ret ()
             | _ \<Rightarrow> throw e))))"
  by pat_completeness auto
termination
  by (relation "measure (\<lambda>(E, path, m). length path)") auto

section \<open>A concrete machine for the witnesses\<close>

definition demo_host_env :: host_env where
  "demo_host_env = env.extend demo_env
     \<lparr>self_uid = 0, self_gid = 0, cwd = 0,
      lookup_user = (\<lambda>s. if s = ''app'' then Some ''1000'' else None), lookup_group = (\<lambda>_. None)\<rparr>"

definition demo_dir :: "(string \<times> nat) list \<Rightarrow> node" where
  "demo_dir es = Directory \<lparr>d_parent = 0, d_mode = 448\<rparr> (map_of es)"

definition demo_nodes :: "nat \<rightharpoonup> node" where
  "demo_nodes = map_of
     [(0, demo_dir [(''run'', 1)]),
      (1, demo_dir [(''key'', 2), (''link'', 3)]),
      (2, Reg \<lparr>f_data = Bytes ''old'', f_mode = 384, f_uid = 0, f_gid = 0, f_synced = True\<rparr>),
      (3, Link ''key'')]"

definition demo_host :: "outcome list \<Rightarrow> host" where
  "demo_host os = \<lparr>nodes = demo_nodes, next_ino = 4, outcomes = os, crashed = False, drawn = 0\<rparr>"

end
