(* ===== verification/Encode.thy ===== *)
theory Encode
  imports Host
begin

text \<open>
  What the agent writes to the network: JSON documents as \<open>encoding/json\<close> marshals them, and
  path segments as \<open>url.PathEscape\<close> escapes them, with the server's decoding of both.
\<close>

section \<open>JSON documents\<close>

text \<open>
  \<open>encoding/json\<close> escapes quotes, backslashes, control characters and what HTML treats
  specially, writes U+2028 and U+2029 as escapes, and replaces bytes that are not UTF-8.
\<close>

definition short_escapes :: "(char \<times> char) list" where
  "short_escapes = [(CHR 0x22, CHR 0x22), (CHR 0x5C, CHR 0x5C), (CHR 0x08, CHR ''b''), (CHR 0x0C, CHR ''f''),
     (CHR 0x0A, CHR ''n''), (CHR 0x0D, CHR ''r''), (CHR 0x09, CHR ''t'')]"

definition escape_ascii :: "char \<Rightarrow> string" where
  "escape_ascii c =
     (case map_of short_escapes c of
        Some e \<Rightarrow> [CHR 0x5C, e]
      | None \<Rightarrow>
          if byte c < 0x20 \<or> c = CHR ''<'' \<or> c = CHR ''>'' \<or> c = CHR ''&''
          then CHR 0x5C # ''u00'' @ hex_encode [c] else [c])"

function marshal_chars :: "string \<Rightarrow> string" where
  "marshal_chars [] = []"
| "marshal_chars (c # cs) =
     (if byte c < 0x80 then escape_ascii c @ marshal_chars cs
      else (case DecodeRune (c # cs) of
        (r, n) \<Rightarrow>
          if r = RuneError \<and> n = 1 then CHR 0x5C # ''ufffd'' @ marshal_chars cs
          else if r = 0x2028 then CHR 0x5C # ''u2028'' @ marshal_chars (drop (n - 1) cs)
          else if r = 0x2029 then CHR 0x5C # ''u2029'' @ marshal_chars (drop (n - 1) cs)
          else c # take (n - 1) cs @ marshal_chars (drop (n - 1) cs)))"
  by pat_completeness auto
termination
  by (relation "measure length") auto

definition marshal_string :: "string \<Rightarrow> string" where
  "marshal_string s = CHR 0x22 # marshal_chars s @ [CHR 0x22]"

definition marshal_strings :: "string list option \<Rightarrow> string" where
  "marshal_strings xs =
     (case xs of None \<Rightarrow> ''null'' | Some ys \<Rightarrow> ''['' @ Join (map marshal_string ys) CHR '','' @ '']'')"

definition marshal_object :: "(string \<times> string) list \<Rightarrow> string" where
  "marshal_object ms = ''{'' @ Join (map (\<lambda>(k, v). marshal_string k @ '':'' @ v) ms) CHR '','' @ ''}''"

text \<open>An escape is at most six times as long as what it stands for.\<close>

lemma escape_length: "length (escape_ascii c) \<le> 6"
  by (simp add: escape_ascii_def length_hex_encode split: option.split)

lemma marshal_length: "length (marshal_chars s) \<le> 6 * length s"
proof (induction s rule: marshal_chars.induct)
  case (2 c cs)
  show ?case
  proof (cases "byte c < 0x80")
    case True
    then show ?thesis using 2(1) escape_length [of c] by simp
  next
    case False
    then show ?thesis
      using 2(2-) [OF False] by (fastforce simp del: DecodeRune.simps split: prod.splits if_splits)
  qed
qed simp

section \<open>Path segments\<close>

definition upper_hex :: string where
  "upper_hex = ''0123456789ABCDEF''"

text \<open>The bytes \<open>url.PathEscape\<close> leaves as they are.\<close>

definition segment_safe :: "char \<Rightarrow> bool" where
  "segment_safe c \<longleftrightarrow>
     (let b = byte c in 48 \<le> b \<and> b \<le> 57 \<or> 65 \<le> b \<and> b \<le> 90 \<or> 97 \<le> b \<and> b \<le> 122 \<or>
        c = CHR ''-'' \<or> c = CHR ''_'' \<or> c = CHR ''.'' \<or> c = CHR ''~'' \<or> c = CHR ''$'' \<or> c = CHR ''&'' \<or>
        c = CHR ''+'' \<or> c = CHR '':'' \<or> c = CHR ''='' \<or> c = CHR ''@'')"

fun PathEscape :: "string \<Rightarrow> string" where
  "PathEscape [] = []"
| "PathEscape (c # cs) =
     (if segment_safe c then c # PathEscape cs
      else CHR ''%'' # upper_hex ! (byte c div 16) # upper_hex ! (byte c mod 16) # PathEscape cs)"

text \<open>What \<open>net/http\<close> makes of an escaped path: the decoding behind \<open>URL.Path\<close>.\<close>

fun PathUnescape :: "string \<Rightarrow> string option" where
  "PathUnescape [] = Some []"
| "PathUnescape (c # cs) =
     (if c = CHR ''%'' then
        (case cs of
           a # b # rest \<Rightarrow>
             (case (hex_value a, hex_value b) of
                (Some x, Some y) \<Rightarrow> map_option ((#) (char_of (16 * x + y))) (PathUnescape rest)
              | _ \<Rightarrow> None)
         | _ \<Rightarrow> None)
      else map_option ((#) c) (PathUnescape cs))"

text \<open>The agent escapes a secret's path segment by segment.\<close>

definition escape_path :: "string \<Rightarrow> string" where
  "escape_path path = Join (map PathEscape (Split path slash)) slash"

end
