(* ===== verification/Wire.thy ===== *)
theory Wire
  imports Encode Models
begin

text \<open>
  What is written can be read back: JSON strings and flat objects by the decoder of theory
  Json, escaped paths by the decoding of request paths.
\<close>

section \<open>Hexadecimal digits\<close>

lemma hex_value_lower: "n < 16 \<Longrightarrow> hex_value (hex_digits ! n) = Some n"
proof -
  assume "n < 16"
  moreover have "list_all (\<lambda>n. hex_value (hex_digits ! n) = Some n) [0..<16]" by code_simp
  ultimately show ?thesis by (simp add: list_all_iff)
qed

lemma hex_value_upper: "n < 16 \<Longrightarrow> hex_value (upper_hex ! n) = Some n"
proof -
  assume "n < 16"
  moreover have "list_all (\<lambda>n. hex_value (upper_hex ! n) = Some n) [0..<16]" by code_simp
  ultimately show ?thesis by (simp add: list_all_iff)
qed

lemma byte_bound: "byte c < 256"
  by (metis of_char_mod_256 mod_less_divisor zero_less_numeral)

lemma hex_byte: "byte c div 16 < 16" "byte c mod 16 < 16" "16 * (byte c div 16) + byte c mod 16 = byte c"
  using byte_bound [of c] by linarith (rule mod_less_divisor, simp, rule mult_div_mod_eq)

section \<open>Strings\<close>

text \<open>The text of a byte string: bytes that are not UTF-8 become U+FFFD.\<close>

definition text_of :: "string \<Rightarrow> string" where
  "text_of s = concat (map EncodeRune (runes s))"

lemma EncodeRune_ascii: "byte c < 0x80 \<Longrightarrow> EncodeRune (byte c) = [c]"
  unfolding EncodeRune_def by simp

lemma unescape_hex: "byte c < 0x80 \<Longrightarrow> unescape (''u00'' @ hex_encode [c] @ t) = Some ([c], t)"
  using hex_byte [of c]
  by (simp add: unescape_def simple_escapes_def hex_value_lower) (simp add: hex_value_def EncodeRune_ascii)

lemma json_string_ascii:
  assumes "byte c < 0x80"
  shows "json_string (escape_ascii c @ t) = map_option (\<lambda>(v, rest). (c # v, rest)) (json_string t)"
proof (cases "map_of short_escapes c")
  case (Some e)
  then have "unescape (e # t) = Some ([c], t)"
    by (auto simp: short_escapes_def unescape_def simple_escapes_def split: if_splits)
  then show ?thesis using Some by (simp add: escape_ascii_def split: option.split)
next
  case None
  then have plain: "c \<noteq> CHR 0x22" "c \<noteq> CHR 0x5C" by (auto simp: short_escapes_def split: if_splits)
  show ?thesis
  proof (cases "byte c < 0x20 \<or> c = CHR ''<'' \<or> c = CHR ''>'' \<or> c = CHR ''&''")
    case True
    then have "escape_ascii c = CHR 0x5C # ''u00'' @ hex_encode [c]" using None by (simp add: escape_ascii_def)
    then show ?thesis using unescape_hex [OF assms, of t] by (simp split: option.split)
  next
    case False
    then have "escape_ascii c = [c]" using None by (simp add: escape_ascii_def)
    then show ?thesis using plain False assms by (simp add: EncodeRune_ascii split: option.split)
  qed
qed

text \<open>Decoding a rune looks at no byte behind it.\<close>

lemma DecodeRune_two:
  assumes "0xC2 \<le> byte c" and "byte c \<le> 0xDF"
  shows "DecodeRune (c # cs) =
    (case cs of c1 # _ \<Rightarrow> if cont (byte c1) then ((byte c - 0xC0) * 0x40 + (byte c1 - 0x80), 2) else (RuneError, 1)
     | [] \<Rightarrow> (RuneError, 1))"
  using assms by (simp only: DecodeRune.simps Let_def) (simp split: list.split)

lemma DecodeRune_three:
  assumes "0xE0 \<le> byte c" and "byte c \<le> 0xEF"
  shows "DecodeRune (c # cs) =
    (case cs of c1 # c2 # _ \<Rightarrow>
        if second_ok (byte c) (byte c1) \<and> cont (byte c2)
        then ((byte c - 0xE0) * 0x1000 + (byte c1 - 0x80) * 0x40 + (byte c2 - 0x80), 3) else (RuneError, 1)
     | _ \<Rightarrow> (RuneError, 1))"
  using assms by (simp only: DecodeRune.simps Let_def) (simp split: list.split)

lemma DecodeRune_four:
  assumes "0xF0 \<le> byte c" and "byte c \<le> 0xF4"
  shows "DecodeRune (c # cs) =
    (case cs of c1 # c2 # c3 # _ \<Rightarrow>
        if second_ok (byte c) (byte c1) \<and> cont (byte c2) \<and> cont (byte c3)
        then ((byte c - 0xF0) * 0x40000 + (byte c1 - 0x80) * 0x1000 + (byte c2 - 0x80) * 0x40 + (byte c3 - 0x80), 4)
        else (RuneError, 1)
     | _ \<Rightarrow> (RuneError, 1))"
  using assms by (simp only: DecodeRune.simps Let_def) (simp split: list.split)

lemma DecodeRune_bad:
  assumes "0x80 \<le> byte c" and "byte c < 0xC2 \<or> 0xF4 < byte c"
  shows "DecodeRune (c # cs) = (RuneError, 1)"
  using assms by (auto simp: Let_def)

text \<open>A string of more than one byte that is one rune.\<close>

inductive rune_bytes :: "string \<Rightarrow> nat \<Rightarrow> bool" where
  two: "0xC2 \<le> byte c \<Longrightarrow> byte c \<le> 0xDF \<Longrightarrow> cont (byte c1) \<Longrightarrow>
    rune_bytes [c, c1] ((byte c - 0xC0) * 0x40 + (byte c1 - 0x80))"
| three: "0xE0 \<le> byte c \<Longrightarrow> byte c \<le> 0xEF \<Longrightarrow> second_ok (byte c) (byte c1) \<Longrightarrow> cont (byte c2) \<Longrightarrow>
    rune_bytes [c, c1, c2] ((byte c - 0xE0) * 0x1000 + (byte c1 - 0x80) * 0x40 + (byte c2 - 0x80))"
| four: "0xF0 \<le> byte c \<Longrightarrow> byte c \<le> 0xF4 \<Longrightarrow> second_ok (byte c) (byte c1) \<Longrightarrow> cont (byte c2) \<Longrightarrow> cont (byte c3) \<Longrightarrow>
    rune_bytes [c, c1, c2, c3]
      ((byte c - 0xF0) * 0x40000 + (byte c1 - 0x80) * 0x1000 + (byte c2 - 0x80) * 0x40 + (byte c3 - 0x80))"

lemma rune_bytes_decode: "rune_bytes u r \<Longrightarrow> DecodeRune (u @ t) = (r, length u)"
  by (cases rule: rune_bytes.cases, assumption)
     (simp_all add: DecodeRune_two DecodeRune_three DecodeRune_four del: DecodeRune.simps)

text \<open>Behind a byte that is not ASCII there is such a rune, or the byte counts as U+FFFD.\<close>

lemma DecodeRune_cases:
  assumes "0x80 \<le> byte c"
  obtains (rune) u t r where "c # cs = u @ t" and "rune_bytes u r" and "DecodeRune (c # cs) = (r, length u)"
  | (bad) "DecodeRune (c # cs) = (RuneError, 1)"
proof -
  consider "byte c < 0xC2 \<or> 0xF4 < byte c" | "0xC2 \<le> byte c" "byte c \<le> 0xDF" | "0xE0 \<le> byte c" "byte c \<le> 0xEF"
    | "0xF0 \<le> byte c" "byte c \<le> 0xF4"
    by linarith
  then show ?thesis
  proof cases
    case 1
    then show ?thesis using assms DecodeRune_bad bad by blast
  next
    case 2
    show ?thesis
    proof (cases "\<exists>c1 t. cs = c1 # t \<and> cont (byte c1)")
      case True
      then obtain c1 t where "cs = c1 # t" "cont (byte c1)" by blast
      then show ?thesis using two [OF 2] rune_bytes_decode [of "[c, c1]"] rune [of "[c, c1]" t] by force
    next
      case False
      then show ?thesis by (intro bad) (auto simp: DecodeRune_two [OF 2] simp del: DecodeRune.simps split: list.split)
    qed
  next
    case 3
    show ?thesis
    proof (cases "\<exists>c1 c2 t. cs = c1 # c2 # t \<and> second_ok (byte c) (byte c1) \<and> cont (byte c2)")
      case True
      then obtain c1 c2 t where "cs = c1 # c2 # t" "second_ok (byte c) (byte c1)" "cont (byte c2)" by blast
      then show ?thesis using three [OF 3] rune_bytes_decode [of "[c, c1, c2]"] rune [of "[c, c1, c2]" t] by force
    next
      case False
      then show ?thesis by (intro bad) (auto simp: DecodeRune_three [OF 3] simp del: DecodeRune.simps split: list.split)
    qed
  next
    case 4
    show ?thesis
    proof (cases "\<exists>c1 c2 c3 t. cs = c1 # c2 # c3 # t \<and> second_ok (byte c) (byte c1) \<and> cont (byte c2) \<and> cont (byte c3)")
      case True
      then obtain c1 c2 c3 t where "cs = c1 # c2 # c3 # t" "second_ok (byte c) (byte c1)" "cont (byte c2)" "cont (byte c3)"
        by blast
      then show ?thesis using four [OF 4] rune_bytes_decode [of "[c, c1, c2, c3]"] rune [of "[c, c1, c2, c3]" t] by force
    next
      case False
      then show ?thesis by (intro bad) (auto simp: DecodeRune_four [OF 4] simp del: DecodeRune.simps split: list.split)
    qed
  qed
qed

text \<open>Encoding the rune gives its bytes back.\<close>

lemma digits_div_mod: "d < m \<Longrightarrow> (q * m + d) div m = q" "d < m \<Longrightarrow> (q * m + d) mod m = d" for d m q :: nat
  by simp_all

lemma EncodeRune_two: "2 \<le> e \<Longrightarrow> e < 0x20 \<Longrightarrow> d < 0x40 \<Longrightarrow>
  EncodeRune (e * 0x40 + d) = [char_of (0xC0 + e), char_of (0x80 + d)]"
  unfolding EncodeRune_def by simp

lemma EncodeRune_in_three:
  "0x800 \<le> r \<Longrightarrow> r < 0x10000 \<Longrightarrow> r < 0xD800 \<or> 0xE000 \<le> r \<Longrightarrow>
   EncodeRune r = [char_of (0xE0 + r div 0x1000), char_of (0x80 + r div 0x40 mod 0x40), char_of (0x80 + r mod 0x40)]"
  by (auto simp: EncodeRune_def)

lemma EncodeRune_three:
  assumes "f < 0x10" and "e < 0x40" and "d < 0x40" and "f = 0 \<longrightarrow> 0x20 \<le> e" and "f = 0xD \<longrightarrow> e < 0x20"
  shows "EncodeRune (f * 0x1000 + e * 0x40 + d) = [char_of (0xE0 + f), char_of (0x80 + e), char_of (0x80 + d)]"
proof -
  let ?r = "f * 0x1000 + e * 0x40 + d"
  have r: "?r = (f * 0x40 + e) * 0x40 + d" "?r = f * 0x1000 + (e * 0x40 + d)" by simp_all
  have low: "e * 0x40 + d < 0x1000" using assms(2,3) by linarith
  have div64: "?r div 0x40 = f * 0x40 + e" and d: "?r mod 0x40 = d"
    unfolding r(1) using assms(3) by (rule digits_div_mod)+
  have f: "?r div 0x1000 = f" unfolding r(2) using low by (rule digits_div_mod)
  have e: "?r div 0x40 mod 0x40 = e" unfolding div64 using assms(2) by (rule digits_div_mod)
  have "0x800 \<le> ?r" "?r < 0x10000" using assms by (cases "f = 0"; linarith)+
  moreover have "?r < 0xD800 \<or> 0xE000 \<le> ?r" using assms by (cases "f = 0xD"; linarith)
  ultimately have "EncodeRune ?r = [char_of (0xE0 + ?r div 0x1000), char_of (0x80 + ?r div 0x40 mod 0x40), char_of (0x80 + ?r mod 0x40)]"
    by (rule EncodeRune_in_three)
  then show ?thesis unfolding d e f .
qed

lemma EncodeRune_in_four:
  "0x10000 \<le> r \<Longrightarrow> r \<le> 0x10FFFF \<Longrightarrow>
   EncodeRune r = [char_of (0xF0 + r div 0x40000), char_of (0x80 + r div 0x1000 mod 0x40),
     char_of (0x80 + r div 0x40 mod 0x40), char_of (0x80 + r mod 0x40)]"
  by (auto simp: EncodeRune_def)

lemma EncodeRune_four:
  assumes "g < 5" and "f < 0x40" and "e < 0x40" and "d < 0x40" and "g = 0 \<longrightarrow> 0x10 \<le> f" and "g = 4 \<longrightarrow> f < 0x10"
  shows "EncodeRune (g * 0x40000 + f * 0x1000 + e * 0x40 + d) =
    [char_of (0xF0 + g), char_of (0x80 + f), char_of (0x80 + e), char_of (0x80 + d)]"
proof -
  let ?r = "g * 0x40000 + f * 0x1000 + e * 0x40 + d"
  have r: "?r = ((g * 0x40 + f) * 0x40 + e) * 0x40 + d" "?r = (g * 0x40 + f) * 0x1000 + (e * 0x40 + d)"
    "?r = g * 0x40000 + (f * 0x1000 + e * 0x40 + d)" by simp_all
  have low: "e * 0x40 + d < 0x1000" "f * 0x1000 + e * 0x40 + d < 0x40000" using assms(2-4) by linarith+
  have div64: "?r div 0x40 = (g * 0x40 + f) * 0x40 + e" and d: "?r mod 0x40 = d"
    unfolding r(1) using assms(4) by (rule digits_div_mod)+
  have e: "?r div 0x40 mod 0x40 = e" unfolding div64 using assms(3) by (rule digits_div_mod)
  have div4096: "?r div 0x1000 = g * 0x40 + f" unfolding r(2) using low(1) by (rule digits_div_mod)
  have f: "?r div 0x1000 mod 0x40 = f" unfolding div4096 using assms(2) by (rule digits_div_mod)
  have g: "?r div 0x40000 = g" unfolding r(3) using low(2) by (rule digits_div_mod)
  have "0x10000 \<le> ?r" "?r \<le> 0x10FFFF" using assms by (cases "g = 0"; cases "g = 4"; linarith)+
  then have "EncodeRune ?r = [char_of (0xF0 + ?r div 0x40000), char_of (0x80 + ?r div 0x1000 mod 0x40),
     char_of (0x80 + ?r div 0x40 mod 0x40), char_of (0x80 + ?r mod 0x40)]"
    by (rule EncodeRune_in_four)
  then show ?thesis unfolding d e f g .
qed

lemma EncodeRune_rune_bytes: "rune_bytes u r \<Longrightarrow> EncodeRune r = u"
proof (induction rule: rune_bytes.induct)
  case (two c c1)
  then show ?case by (subst EncodeRune_two) (auto simp: cont_def)
next
  case (three c c1 c2)
  then show ?case by (subst EncodeRune_three) (auto simp: cont_def second_ok_def split: if_splits)
next
  case (four c c1 c2 c3)
  then show ?case by (subst EncodeRune_four) (auto simp: cont_def second_ok_def split: if_splits)
qed

lemma rune_bytes_length: "rune_bytes u r \<Longrightarrow> 2 \<le> length u \<and> 0x80 \<le> byte (hd u)"
  by (cases rule: rune_bytes.cases) auto

text \<open>Reading back a string that was written gives its text.\<close>

lemma json_string_rune:
  assumes "rune_bytes u r" and "json_string t = Some (v, rest)"
  shows "json_string (u @ t) = Some (u @ v, rest)"
proof -
  obtain c cs where u: "u = c # cs" using rune_bytes_length [OF assms(1)] by (cases u) auto
  have c: "0x80 \<le> byte c" using rune_bytes_length [OF assms(1)] by (simp add: u)
  then have "c \<noteq> CHR 0x22" "c \<noteq> CHR 0x5C" "\<not> byte c < 0x20" by auto
  moreover have "DecodeRune (c # cs @ t) = (r, length u)"
    using rune_bytes_decode [OF assms(1), of t] by (simp add: u)
  ultimately show ?thesis
    using assms(2) EncodeRune_rune_bytes [OF assms(1)] by (simp add: u del: DecodeRune.simps)
qed

lemma json_string_unicode:
  assumes "r \<in> {0xFFFD, 0x2028, 0x2029}" and "json_string t = Some (v, rest)"
  shows "json_string (CHR 0x5C # (if r = 0xFFFD then ''ufffd'' else if r = 0x2028 then ''u2028'' else ''u2029'') @ t) =
    Some (EncodeRune r @ v, rest)"
  using assms by (auto simp: unescape_def simple_escapes_def hex_value_def)

lemma text_of_Nil [simp]: "text_of [] = []"
  by (simp add: text_of_def)

lemma text_of_ascii: "byte c < 0x80 \<Longrightarrow> text_of (c # cs) = c # text_of cs"
  using DecodeRune_ascii [of c cs] EncodeRune_ascii [of c] by (simp add: text_of_def del: DecodeRune.simps)

lemma text_of_rune: "rune_bytes u r \<Longrightarrow> text_of (u @ t) = u @ text_of t"
  using rune_bytes_decode [of u r t] EncodeRune_rune_bytes [of u r]
  by (cases u) (auto simp: text_of_def simp del: DecodeRune.simps dest: rune_bytes_length)

lemma text_of_bad: "DecodeRune (c # cs) = (RuneError, 1) \<Longrightarrow> text_of (c # cs) = EncodeRune RuneError @ text_of cs"
  by (simp add: text_of_def del: DecodeRune.simps)

lemma json_string_marshal: "json_string (marshal_chars s @ CHR 0x22 # rest) = Some (text_of s, rest)"
proof (induction s rule: marshal_chars.induct)
  case (2 c cs)
  show ?case
  proof (cases "byte c < 0x80")
    case True
    then show ?thesis using 2(1) json_string_ascii [OF True] text_of_ascii [OF True, of cs] by simp
  next
    case False
    then have c: "0x80 \<le> byte c" by simp
    from c show ?thesis
    proof (cases rule: DecodeRune_cases [of c cs])
      case (rune u t r)
      have len: "2 \<le> length u" using rune_bytes_length [OF rune(2)] by simp
      then have cs: "drop (length u - 1) cs = t" "c # take (length u - 1) cs = u"
        using rune(1) by (cases u; simp)+
      have step: "marshal_chars (c # cs) = (if r = 0x2028 then CHR 0x5C # ''u2028'' else if r = 0x2029 then CHR 0x5C # ''u2029'' else u)
          @ marshal_chars t"
        using False len rune(3) cs by (simp del: DecodeRune.simps)
      have rest: "json_string (marshal_chars t @ CHR 0x22 # rest) = Some (text_of t, rest)"
        using 2(3-5) False rune(3) len cs(1) by (cases "r = 0x2028"; cases "r = 0x2029") (auto simp del: DecodeRune.simps)
      have "text_of (c # cs) = EncodeRune r @ text_of t"
        using text_of_rune [OF rune(2)] EncodeRune_rune_bytes [OF rune(2)] rune(1) by simp
      then show ?thesis
        unfolding step
        using json_string_unicode [OF _ rest, of r] json_string_rune [OF rune(2) rest] EncodeRune_rune_bytes [OF rune(2)]
        by (auto simp del: json_string.simps)
    next
      case bad
      then have "json_string (marshal_chars cs @ CHR 0x22 # rest) = Some (text_of cs, rest)"
        using 2 False by simp
      then have "json_string (CHR 0x5C # ''ufffd'' @ marshal_chars cs @ CHR 0x22 # rest) =
          Some (EncodeRune RuneError @ text_of cs, rest)"
        using json_string_unicode [where r = "0xFFFD" and t = "marshal_chars cs @ CHR 0x22 # rest" and v = "text_of cs" and rest = rest]
        by (simp add: RuneError_def del: json_string.simps)
      then show ?thesis
        using bad False text_of_bad [OF bad] by (simp add: RuneError_def del: DecodeRune.simps json_string.simps)
    qed
  qed
qed simp

section \<open>Objects with string members\<close>

abbreviation string_members :: "(string \<times> string) list \<Rightarrow> (string \<times> string) list" where
  "string_members \<equiv> map (\<lambda>(k, v). (k, marshal_string v))"

abbreviation member_texts :: "(string \<times> string) list \<Rightarrow> (string \<times> json) list" where
  "member_texts \<equiv> map (\<lambda>(k, v). (text_of k, JString (text_of v)))"

lemma skip_no_space: "\<not> json_space c \<Longrightarrow> skip (c # cs) = c # cs"
  by (simp add: skip_def)

lemma not_space: "\<not> json_space CHR 0x22" "\<not> json_space CHR '':''" "\<not> json_space CHR '',''" "\<not> json_space CHR 0x7B"
    "\<not> json_space CHR 0x7D"
  by (simp_all add: json_space_def)

lemmas skips = skip_no_space [OF not_space(1)] skip_no_space [OF not_space(2)] skip_no_space [OF not_space(3)]
  skip_no_space [OF not_space(4)] skip_no_space [OF not_space(5)]

lemma json_value_marshal: "json_value (Suc n) (marshal_string v @ rest) = Some (JString (text_of v), rest)"
  using json_string_marshal [of v rest] by (simp add: marshal_string_def skips)

text \<open>The members of an object as written, up to the closing brace.\<close>

definition members_text :: "(string \<times> string) list \<Rightarrow> string" where
  "members_text ms = Join (map (\<lambda>(k, v). marshal_string k @ '':'' @ v) ms) CHR '',''"

lemma members_text_Cons:
  "members_text ((k, v) # ms) = marshal_string k @ '':'' @ v @ (if ms = [] then [] else CHR '','' # members_text ms)"
  by (cases ms) (auto simp: members_text_def)

lemma json_members_marshal:
  "ms \<noteq> [] \<Longrightarrow> length ms < n \<Longrightarrow>
     json_members n (members_text (string_members ms) @ CHR 0x7D # rest) = Some (member_texts ms, rest)"
proof (induction ms arbitrary: n)
  case (Cons m ms)
  obtain k v where m: "m = (k, v)" by (cases m)
  from Cons.prems obtain n' where n: "n = Suc n'" by (cases n) auto
  from Cons.prems n obtain n'' where n': "n' = Suc n''" by (cases n') auto
  let ?more = "if ms = [] then CHR 0x7D # rest else CHR '','' # members_text (string_members ms) @ CHR 0x7D # rest"
  have written: "members_text (string_members (m # ms)) @ CHR 0x7D # rest =
      CHR 0x22 # marshal_chars k @ CHR 0x22 # CHR '':'' # marshal_string v @ ?more"
    by (simp add: m members_text_Cons marshal_string_def)
  have key: "json_string (marshal_chars k @ CHR 0x22 # CHR '':'' # marshal_string v @ ?more) =
      Some (text_of k, CHR '':'' # marshal_string v @ ?more)"
    by (rule json_string_marshal)
  have val: "json_value n' (marshal_string v @ ?more) = Some (JString (text_of v), ?more)"
    unfolding n' by (rule json_value_marshal)
  have rest: "ms \<noteq> [] \<Longrightarrow> json_members n' (members_text (string_members ms) @ CHR 0x7D # rest) = Some (member_texts ms, rest)"
    using Cons n by simp
  show ?case
    unfolding written n json_members.simps skips list.case key option.case prod.case
    using val rest by (simp add: HasPrefix_def skips m)
qed simp

lemma members_text_length: "length ms \<le> Suc (length (members_text (string_members ms)))"
proof (induction ms)
  case (Cons m ms)
  then show ?case by (cases m) (simp add: members_text_Cons marshal_string_def)
qed simp

lemma json_next_marshal: "json_next (marshal_object (string_members ms)) = JValue (JObject (member_texts ms)) []"
proof (cases "ms = []")
  case True
  have "json_next (marshal_object []) = JValue (JObject []) []" by code_simp
  with True show ?thesis by simp
next
  case False
  let ?s = "members_text (string_members ms) @ [CHR 0x7D]"
  obtain m ms' where "ms = m # ms'" using False by (cases ms) auto
  then obtain r where start: "?s = CHR 0x22 # r" by (cases m) (simp add: members_text_Cons marshal_string_def)
  have object: "marshal_object (string_members ms) = CHR 0x7B # ?s" by (simp add: marshal_object_def members_text_def)
  have "json_members (2 * length (CHR 0x7B # ?s) + 1) ?s = Some (member_texts ms, [])"
    using members_text_length [of ms] by (intro json_members_marshal [OF False]) simp
  moreover have "\<not> HasPrefix (skip ?s) [CHR 0x7D]" unfolding start skips by (simp add: HasPrefix_def)
  ultimately have "json_value (2 * length (CHR 0x7B # ?s) + 2) (CHR 0x7B # ?s) = Some (JObject (member_texts ms), [])"
    by (simp add: skips numeral_2_eq_2 del: json_members.simps)
  then show ?thesis unfolding json_next_def object skips by (simp only: list.distinct if_False option.case prod.case)
qed

lemma decode_bytes_marshal:
  "decode_bytes (marshal_object (string_members ms)) fld zero =
     (case set_members fld (member_texts ms) zero of None \<Rightarrow> Inl invalid_json | Some x \<Rightarrow> Inr x)"
  by (simp add: decode_bytes_def json_next_marshal into_struct_def json_next_def [of "[]"] skip_def split: option.split)

text \<open>A request body with string members is read as it was meant: marshalled by the agent or the
  command line and decoded by the server, any members give the same names and values again, up
  to bytes that are not UTF-8, which become U+FFFD; no value, whatever quotes, escapes or
  control characters it holds, can end its string or add a member.\<close>

theorem body_roundtrip:
  "json_next (marshal_object (map (\<lambda>(k, v). (k, marshal_string v)) ms)) =
     JValue (JObject (map (\<lambda>(k, v). (text_of k, JString (text_of v))) ms)) []"
  by (rule json_next_marshal)

section \<open>Paths\<close>

lemma segment_safe_plain: "segment_safe c \<Longrightarrow> c \<noteq> CHR ''%'' \<and> c \<noteq> slash"
  by (auto simp: segment_safe_def Let_def)

lemma PathUnescape_escape: "PathUnescape (PathEscape s @ t) = map_option ((@) s) (PathUnescape t)"
proof (induction s)
  case (Cons c cs)
  show ?case
  proof (cases "segment_safe c")
    case True
    then show ?thesis using Cons segment_safe_plain by (cases "PathUnescape t") auto
  next
    case False
    then show ?thesis
      using Cons hex_value_upper [OF hex_byte(1)] hex_value_upper [OF hex_byte(2)] hex_byte(3) [of c]
      by (cases "PathUnescape t") auto
  qed
qed (simp add: option.map_id0 [unfolded id_def])

lemma PathUnescape_Join:
  "PathUnescape (Join (map PathEscape ps) slash) = Some (Join ps slash)"
proof (induction ps slash rule: Join.induct)
  case (2 p)
  then show ?case using PathUnescape_escape [of p "[]"] by simp
next
  case (3 p q ps)
  then show ?case by (simp add: PathUnescape_escape)
qed simp

lemma upper_hex_safe: "n < 16 \<Longrightarrow> segment_safe (upper_hex ! n)"
proof -
  assume "n < 16"
  moreover have "list_all (\<lambda>n. segment_safe (upper_hex ! n)) [0..<16]" by code_simp
  ultimately show ?thesis by (simp add: list_all_iff)
qed

lemma PathEscape_safe: "c \<in> set (PathEscape s) \<Longrightarrow> segment_safe c \<or> c = CHR ''%''"
  by (induction s) (auto simp: upper_hex_safe hex_byte split: if_splits)

lemma PathUnescape_escape_path: "PathUnescape (escape_path p) = Some p"
  unfolding escape_path_def PathUnescape_Join by (simp add: Join_Split)

text \<open>C22: The path of a definition reaches the server unchanged: what the agent puts into the URL is
  made of unreserved characters, percent signs and the slashes of the path, so it cannot end
  the path or begin a query, and decoding it gives the path again.\<close>

theorem escape_path_roundtrip:
  "PathUnescape (escape_path p) = Some p \<and>
   list_all (\<lambda>c. segment_safe c \<or> c = CHR ''%'' \<or> c = slash) (escape_path p)"
proof
  show "PathUnescape (escape_path p) = Some p" by (rule PathUnescape_escape_path)
  have "set (escape_path p) \<subseteq> insert slash (\<Union>(set ` set (map PathEscape (Split p slash))))"
    unfolding escape_path_def by (rule set_Join)
  then show "list_all (\<lambda>c. segment_safe c \<or> c = CHR ''%'' \<or> c = slash) (escape_path p)"
    using PathEscape_safe by (fastforce simp: list_all_iff)
qed

end
