(* ===== verification/Files.thy ===== *)
theory Files
  imports Host
begin

text \<open>
  Publishing a file (internal/agent/files.go): the parents are opened one by one without
  following symbolic links, the content goes to a fresh temporary file in the same directory,
  and one rename publishes it.
\<close>

section \<open>The functions\<close>

definition parseMode :: "string \<Rightarrow> err + nat" where
  "parseMode s =
     (if s = [] then Inr 384
      else (case parse_octal 0 s of
          None \<Rightarrow> Inl (ErrText ''mode must be an octal permission such as 0600'')
        | Some n \<Rightarrow>
            if n > 511 then Inl (ErrText ''mode must be an octal permission such as 0600'')
            else Inr n))"

fun open_parents :: "nat \<Rightarrow> string list \<Rightarrow> ('z host_scheme, nat) proc" where
  "open_parents d [] = ret d"
| "open_parents d (part # parts) =
     andthen (on_error (open_dir d part)
       (\<lambda>_. ErrText ''destination parent is missing, inaccessible, or a symlink'')) (\<lambda>d'.
     open_parents d' parts)"

definition temp_name :: "'e host_env_scheme \<Rightarrow> nat \<Rightarrow> string" where
  "temp_name E k = ''.ssm-'' @ token_at E k"

text \<open>\<open>".ssm-" + randomName()\<close>.\<close>

definition fresh_name :: "'e host_env_scheme \<Rightarrow> ('z host_scheme, string) proc" where
  "fresh_name E = (\<lambda>w. (Inr (temp_name E (drawn w)), w\<lparr>drawn := Suc (drawn w)\<rparr>))"

text \<open>Up to \<open>n\<close> attempts; only \<open>EEXIST\<close> is worth another name.\<close>

fun create_temp :: "'e host_env_scheme \<Rightarrow> nat \<Rightarrow> nat \<Rightarrow> ('z host_scheme, string \<times> nat) proc" where
  "create_temp E d 0 = throw EEXIST"
| "create_temp E d (Suc n) =
     andthen (fresh_name E) (\<lambda>temp.
     andthen (attempt (create_excl E d temp)) (\<lambda>out. case out of
       Inr i \<Rightarrow> ret (temp, i)
     | Inl e \<Rightarrow> if e \<noteq> EEXIST then throw e else create_temp E d n))"

definition fill_temp :: "nat \<Rightarrow> string \<Rightarrow> nat \<Rightarrow> string \<Rightarrow> content \<Rightarrow> nat \<Rightarrow> int \<Rightarrow> int \<Rightarrow> ('z host_scheme, unit) proc" where
  "fill_temp d temp i base data m uid gid =
     andthen (write_file i data) (\<lambda>_.
     andthen (if uid \<noteq> - 1 \<or> gid \<noteq> - 1 then chown_file i uid gid else ret ()) (\<lambda>_.
     andthen (chmod_file i m) (\<lambda>_.
     andthen (sync_file i) (\<lambda>_.
     andthen (sys (ret ())) (\<lambda>_.
     andthen (rename_at d temp base) (\<lambda>_.
     sys (ret ())))))))"

definition write_via_temp ::
  "'e host_env_scheme \<Rightarrow> nat \<Rightarrow> string \<Rightarrow> content \<Rightarrow> nat \<Rightarrow> int \<Rightarrow> int \<Rightarrow> ('z host_scheme, unit) proc" where
  "write_via_temp E d base data m uid gid =
     andthen (create_temp E d 10) (\<lambda>(temp, i).
     deferring (fill_temp d temp i base data m uid gid) (unlink_at d temp))"

definition publish_in ::
  "'e host_env_scheme \<Rightarrow> nat \<Rightarrow> string \<Rightarrow> content \<Rightarrow> nat \<Rightarrow> int \<Rightarrow> int \<Rightarrow> ('z host_scheme, unit) proc" where
  "publish_in E d base data m uid gid =
     andthen (attempt (stat_at d base)) (\<lambda>st. case st of
       Inl e \<Rightarrow> if e \<noteq> ENOENT then throw e else write_via_temp E d base data m uid gid
     | Inr n \<Rightarrow>
         if \<not> is_reg n then throw (ErrText ''destination must be a regular file, never a symlink'')
         else write_via_temp E d base data m uid gid)"

definition AtomicWrite ::
  "'e host_env_scheme \<Rightarrow> string \<Rightarrow> content \<Rightarrow> nat \<Rightarrow> int \<Rightarrow> int \<Rightarrow> ('z host_scheme, unit) proc" where
  "AtomicWrite E path data m uid gid =
     (if \<not> IsAbs path \<or> Clean path \<noteq> path \<or> path = ''/''
      then throw (ErrText ''destination must be a clean absolute path'')
      else
        let parts = Split (TrimPrefix path ''/'') slash in
        andthen (sys (ret 0)) (\<lambda>root.
        andthen (open_parents root (butlast parts)) (\<lambda>d.
        publish_in E d (last parts) data m uid gid)))"

section \<open>Octal permissions\<close>

lemma parse_octal_exact:
  "parse_octal n s = Some m \<longleftrightarrow>
     list_all is_octal s \<and> m = foldl (\<lambda>n c. 8 * n + digit_value c) n s \<and> (s \<noteq> [] \<longrightarrow> m \<le> 4095)"
proof (induction s arbitrary: n)
  case Nil
  then show ?case by auto
next
  case (Cons c s)
  have grows: "k \<le> foldl (\<lambda>n c. 8 * n + digit_value c) k s" for k
  proof (induction s arbitrary: k)
    case (Cons c s)
    have "k \<le> 8 * k + digit_value c" by simp
    then show ?case using Cons [of "8 * k + digit_value c"] by simp
  qed simp
  show ?case
    using Cons.IH [of "8 * n + digit_value c"] grows [of "8 * n + digit_value c"]
    by auto
qed

lemma parse_octal_value:
  "parse_octal n s =
     (let v = foldl (\<lambda>n c. 8 * n + digit_value c) n s
      in if list_all is_octal s \<and> (s \<noteq> [] \<longrightarrow> v \<le> 4095) then Some v else None)"
  using parse_octal_exact [of n s] by (cases "parse_octal n s") (auto simp: Let_def)

section \<open>Rules for the operations\<close>

text \<open>Every operation may also fail, crash, or have no effect after a crash.\<close>

lemma wpre_sys:
  assumes "crashed w \<Longrightarrow> Q (Inl halted) w"
    and "\<And>os. \<not> crashed w \<Longrightarrow> wpre m Q (w\<lparr>outcomes := os\<rparr>)"
    and "\<And>os. \<not> crashed w \<Longrightarrow> Q (Inl EIO) (w\<lparr>outcomes := os\<rparr>)"
    and "\<And>os. \<not> crashed w \<Longrightarrow> Q (Inl halted) (crash (w\<lparr>outcomes := os\<rparr>))"
  shows "wpre (sys m) Q w"
  using assms(1,3,4) assms(2) [of "outcomes w"] assms(2)
  by (auto simp: wpre_def sys_def Let_def split: list.split outcome.split)

lemma wpre_sys_crashed: "crashed w \<Longrightarrow> wpre (sys m) Q w \<longleftrightarrow> Q (Inl halted) w"
  by (simp add: wpre_def sys_def)

text \<open>What a crash does to the files, if one happened.\<close>

definition aged :: "(nat \<rightharpoonup> node) \<Rightarrow> (nat \<rightharpoonup> node) \<Rightarrow> bool" where
  "aged ns ns' \<longleftrightarrow> ns' = ns \<or> ns' = crash_nodes ns"

lemma aged_refl [simp]: "aged ns ns"
  by (simp add: aged_def)

lemma crash_node_twice [simp]: "crash_node (crash_node n) = crash_node n"
  by (cases n) simp_all

lemma crash_nodes_twice [simp]: "crash_nodes (crash_nodes ns) = crash_nodes ns"
proof
  show "crash_nodes (crash_nodes ns) k = crash_nodes ns k" for k
    by (cases "ns k") (simp_all add: crash_nodes_def)
qed

lemma aged_crash [simp]: "aged ns ns' \<Longrightarrow> aged ns (crash_nodes ns')"
  unfolding aged_def by (elim disjE) simp_all

lemma aged_None: "aged ns ns' \<Longrightarrow> ns' k = None \<longleftrightarrow> ns k = None"
  by (auto simp: aged_def crash_nodes_def)

lemma crash_node_reg [simp]: "is_reg (crash_node n) = is_reg n"
  by (cases n) simp_all

lemma crash_node_Directory [simp]: "crash_node n = Directory p es \<longleftrightarrow> n = Directory p es"
  by (cases n) auto

lemma aged_Directory:
  assumes "aged ns ns'"
  shows "ns' k = Some (Directory p es) \<longleftrightarrow> ns k = Some (Directory p es)"
  using assms unfolding aged_def by (elim disjE) (simp_all add: crash_nodes_def)

text \<open>
  The states between creating the temporary file \<open>i\<close> and the end: the other nodes are those
  at the start, as far as a crash leaves them.
\<close>

definition writing ::
  "(nat \<rightharpoonup> node) \<Rightarrow> nat \<Rightarrow> dir_info \<Rightarrow> nat \<Rightarrow> stored_file \<Rightarrow> (string \<rightharpoonup> nat) \<Rightarrow> 'z host_scheme \<Rightarrow> bool" where
  "writing ns d p i f es w \<longleftrightarrow>
     i \<noteq> d \<and> next_ino w = Suc i \<and>
     (\<exists>ns'. aged ns ns' \<and> nodes w = ns'(i \<mapsto> Reg f, d \<mapsto> Directory p es))"

lemma writing_outcomes [simp]: "writing ns d p i f es (w\<lparr>outcomes := os\<rparr>) \<longleftrightarrow> writing ns d p i f es w"
  by (simp add: writing_def)

lemma writing_crash:
  assumes "writing ns d p i f es w"
  obtains f' where "writing ns d p i f' es (crash (w\<lparr>outcomes := os\<rparr>))" and "f_synced f \<longrightarrow> f' = f"
proof
  let ?f = "if f_synced f then f else f\<lparr>f_data := Torn\<rparr>"
  obtain ns' where ns': "aged ns ns'" "nodes w = ns'(i \<mapsto> Reg f, d \<mapsto> Directory p es)"
    using assms by (auto simp: writing_def)
  have "crash_nodes (nodes w) = (crash_nodes ns')(i \<mapsto> Reg ?f, d \<mapsto> Directory p es)"
    by (auto simp: ns'(2) crash_nodes_def fun_eq_iff)
  then show "writing ns d p i ?f es (crash (w\<lparr>outcomes := os\<rparr>))"
    using assms aged_crash [OF ns'(1)] by (auto simp: writing_def crash_def)
qed simp

lemma writing_entries: "writing ns d p i f es w \<Longrightarrow> entries w d = Some es"
  by (auto simp: writing_def entries_def)

lemma writing_set_file: "writing ns d p i f es w \<Longrightarrow> writing ns d p i (g f) es (set_file i g w)"
  by (auto simp: writing_def set_file_def fun_upd_twist)

lemma writing_set_entries: "writing ns d p i f es w \<Longrightarrow> writing ns d p i f (h es) (set_entries d h w)"
  by (auto simp: writing_def set_entries_def)

lemma wpre_file_op:
  assumes "writing ns d p i f es w"
    and "\<And>w'. writing ns d p i (g f) es w' \<Longrightarrow> Q (Inr ()) w'"
    and "\<And>e f' w'. writing ns d p i f' es w' \<Longrightarrow> Q (Inl e) w'"
  shows "wpre (sys (modify (set_file i g))) Q w"
proof (rule wpre_sys, goal_cases)
  case (2 os)
  then show ?case using assms(1) by (simp add: wp assms(2) writing_set_file)
next
  case (4 os)
  show ?case by (rule writing_crash [OF assms(1), of os]) (rule assms(3))
qed (rule assms(3), use assms(1) in simp)+

lemma wpre_sync_op:
  assumes "writing ns d p i f es w"
    and "\<And>w'. writing ns d p i f es w' \<Longrightarrow> Q (Inr ()) w'"
    and "\<And>e f' w'. writing ns d p i f' es w' \<Longrightarrow> f_synced f \<longrightarrow> f' = f \<Longrightarrow> Q (Inl e) w'"
  shows "wpre (sys (ret ())) Q w"
proof (rule wpre_sys, goal_cases)
  case (4 os)
  show ?case by (rule writing_crash [OF assms(1), of os]) (rule assms(3))
qed (use assms in \<open>simp_all add: wp\<close>)

lemma wpre_rename_op:
  assumes "writing ns d p i f es w" and "es src = Some i" and "f_synced f"
    and "\<And>w'. writing ns d p i f (es(src := None, dst \<mapsto> i)) w' \<Longrightarrow> Q (Inr ()) w'"
    and "\<And>e w'. writing ns d p i f es w' \<Longrightarrow> Q (Inl e) w'"
  shows "wpre (rename_at d src dst) Q w"
  unfolding rename_at_def
proof (rule wpre_sys, goal_cases)
  case (2 os)
  have "child (w\<lparr>outcomes := os\<rparr>) d src = Inr i"
    using assms(1,2) by (simp add: child_def writing_entries [of ns d p i f es])
  moreover have "writing ns d p i f (es(src := None, dst \<mapsto> i))
      (set_entries d (\<lambda>es. es(src := None, dst \<mapsto> i)) (w\<lparr>outcomes := os\<rparr>))"
    using assms(1) by (intro writing_set_entries [of ns d p i f es]) simp
  moreover have "writing ns d p i f es (w\<lparr>outcomes := os\<rparr>)" using assms(1) by simp
  ultimately show ?case
    by (auto simp: wpre_def intro: assms(4,5) split: sum.split option.split node.split)
next
  case (4 os)
  show ?case by (rule writing_crash [OF assms(1), of os]) (simp add: assms(3,5))
qed (use assms in simp_all)

lemma wpre_unlink_op:
  assumes "writing ns d p i f es w"
    and "\<And>w' x f' es'. writing ns d p i f' es' w' \<Longrightarrow> f_synced f \<longrightarrow> f' = f \<Longrightarrow> es' = es \<or> es' = es(name := None) \<Longrightarrow>
       Q x w'"
  shows "wpre (unlink_at d name) Q w"
  unfolding unlink_at_def
proof (rule wpre_sys, goal_cases)
  case (2 os)
  then show ?case
    using assms(1) writing_set_entries [OF assms(1), of "\<lambda>es. es(name := None)"]
    by (auto simp: wpre_def child_def writing_entries [of ns d p i f es] intro!: assms(2) writing_set_entries
        split: option.split)
next
  case (4 os)
  show ?case by (rule writing_crash [OF assms(1), of os]) (auto intro: assms(2))
qed (use assms in \<open>auto intro!: assms(2)\<close>)

lemma wpre_deferring [wp]:
  "wpre (deferring m c) Q w \<longleftrightarrow> wpre m (\<lambda>r w'. wpre c (\<lambda>_. Q r) w') w"
  by (simp add: wpre_def deferring_def split: prod.split)

section \<open>The temporary file\<close>

definition published :: "stored_file \<Rightarrow> content \<Rightarrow> nat \<Rightarrow> int \<Rightarrow> int \<Rightarrow> stored_file" where
  "published f data m uid gid =
     \<lparr>f_data = data, f_mode = m, f_uid = own_id (f_uid f) uid, f_gid = own_id (f_gid f) gid,
      f_synced = True\<rparr>"

lemma wpre_write_file:
  assumes "writing ns d p i f es w"
    and "\<And>w'. writing ns d p i (f\<lparr>f_data := data, f_synced := False\<rparr>) es w' \<Longrightarrow> Q (Inr ()) w'"
    and "\<And>e f' w'. writing ns d p i f' es w' \<Longrightarrow> Q (Inl e) w'"
  shows "wpre (write_file i data) Q w"
proof (cases "crashed w")
  case True
  then show ?thesis
    by (simp add: write_file_def wp wpre_sys_crashed assms(3) [OF assms(1)])
next
  case False
  have torn: "writing ns d p i (f\<lparr>f_data := Torn, f_synced := False\<rparr>) es
      (set_file i (\<lambda>f. f\<lparr>f_data := Torn, f_synced := False\<rparr>) w)"
    by (rule writing_set_file [OF assms(1), where g = "\<lambda>f. f\<lparr>f_data := Torn, f_synced := False\<rparr>"])
  have "wpre (sys (modify (set_file i (\<lambda>f. f\<lparr>f_data := data, f_synced := False\<rparr>)))) Q
      (set_file i (\<lambda>f. f\<lparr>f_data := Torn, f_synced := False\<rparr>) w)"
    by (rule wpre_file_op [OF torn]) (simp_all add: assms(2,3))
  then show ?thesis using False by (simp add: write_file_def wp)
qed

lemma wpre_fill_temp:
  assumes "writing ns d p i f (es(temp \<mapsto> i)) w"
    and failed: "\<And>e f' w'. writing ns d p i f' (es(temp \<mapsto> i)) w' \<Longrightarrow> Q (Inl e) w'"
    and moved: "\<And>x w'. writing ns d p i (published f data m uid gid) (es(temp := None, base \<mapsto> i)) w' \<Longrightarrow> Q x w'"
  shows "wpre (fill_temp d temp i base data m uid gid) Q w"
proof -
  let ?es = "es(temp \<mapsto> i)"
  let ?f1 = "f\<lparr>f_data := data, f_synced := False\<rparr>"
  let ?f2 = "?f1\<lparr>f_uid := own_id (f_uid f) uid, f_gid := own_id (f_gid f) gid\<rparr>"
  have ready: "?f2\<lparr>f_mode := m, f_synced := True\<rparr> = published f data m uid gid"
    by (cases f) (simp add: published_def)
  have last: "wpre (sys (ret ())) Q w'"
    if "writing ns d p i (published f data m uid gid) (es(temp := None, base \<mapsto> i)) w'" for w'
    using that by (rule wpre_sync_op) (auto simp: published_def intro: moved)
  have move: "wpre (andthen (sys (ret ())) (\<lambda>_. andthen (rename_at d temp base) (\<lambda>_. sys (ret ())))) Q w'"
    if "writing ns d p i (published f data m uid gid) ?es w'" for w'
    unfolding wpre_andthen
  proof (rule wpre_sync_op [OF that], goal_cases)
    case (1 w1)
    show ?case
      by (simp, rule wpre_rename_op [OF 1]) (use last in \<open>auto simp: published_def intro: failed\<close>)
  qed (auto intro: failed)
  have finish: "wpre (andthen (chmod_file i m) (\<lambda>_. andthen (sync_file i) (\<lambda>_.
      andthen (sys (ret ())) (\<lambda>_. andthen (rename_at d temp base) (\<lambda>_. sys (ret ())))))) Q w'"
    if "writing ns d p i ?f2 ?es w'" for w'
    unfolding chmod_file_def
  proof (rule wpre_andthen [THEN iffD2], rule wpre_file_op [OF that], goal_cases)
    case (1 w1)
    show ?case
      unfolding sum.case sync_file_def
      by (rule wpre_andthen [THEN iffD2], rule wpre_file_op [OF 1, where g = "\<lambda>f. f\<lparr>f_synced := True\<rparr>"])
         (simp only: sum.case ready move, simp add: failed)
  qed (auto intro: failed)
  have own: "wpre (andthen (if uid \<noteq> - 1 \<or> gid \<noteq> - 1 then chown_file i uid gid else ret ()) (\<lambda>_.
      andthen (chmod_file i m) (\<lambda>_. andthen (sync_file i) (\<lambda>_.
      andthen (sys (ret ())) (\<lambda>_. andthen (rename_at d temp base) (\<lambda>_. sys (ret ()))))))) Q w'"
    if w': "writing ns d p i ?f1 ?es w'" for w'
  proof (cases "uid \<noteq> - 1 \<or> gid \<noteq> - 1")
    case True
    show ?thesis
      unfolding if_P [OF True] chown_file_def
      by (rule wpre_andthen [THEN iffD2], rule wpre_file_op [OF w']) (use finish in \<open>auto cong: if_cong intro: failed\<close>)
  next
    case False
    then have "?f2 = ?f1" by (simp add: own_id_def)
    with False finish [of w'] w' show ?thesis by (simp add: andthen_ret)
  qed
  show ?thesis
    unfolding fill_temp_def wpre_andthen [of "write_file i data"]
    by (rule wpre_write_file [OF assms(1)]) (use own in \<open>auto intro: failed\<close>)
qed

text \<open>The file a process creates, before anything is written to it.\<close>

definition new_file :: "'e host_env_scheme \<Rightarrow> stored_file" where
  "new_file E = \<lparr>f_data = Bytes [], f_mode = 384, f_uid = self_uid E, f_gid = self_gid E, f_synced = False\<rparr>"

lemma nodes_crash [simp]: "nodes (crash w) = crash_nodes (nodes w)" "next_ino (crash w) = next_ino w"
  by (simp_all add: crash_def)

text \<open>An operation that only reads.\<close>

lemma wpre_sys_read:
  assumes "\<And>w'. nodes w' = nodes w \<Longrightarrow> next_ino w' = next_ino w \<Longrightarrow> Q (fst (m w)) w'"
    and "\<And>e w'. e = EIO \<or> e = halted \<Longrightarrow> aged (nodes w) (nodes w') \<Longrightarrow> next_ino w' = next_ino w \<Longrightarrow> Q (Inl e) w'"
    and "\<And>w os. m (w\<lparr>outcomes := os\<rparr>) = (fst (m w), w\<lparr>outcomes := os\<rparr>)"
  shows "wpre (sys m) Q w"
proof (rule wpre_sys, goal_cases)
  case (2 os)
  show ?case using assms(3) [where w = w and os = os] by (simp add: wpre_def assms(1))
qed (simp_all add: assms(2))

lemma wpre_open_dir:
  assumes "\<And>i p es q fs w'. nodes w' = nodes w \<Longrightarrow> next_ino w' = next_ino w \<Longrightarrow>
       nodes w d = Some (Directory p es) \<Longrightarrow> es name = Some i \<Longrightarrow> nodes w i = Some (Directory q fs) \<Longrightarrow> Q (Inr i) w'"
    and "\<And>e w'. aged (nodes w) (nodes w') \<Longrightarrow> next_ino w' = next_ino w \<Longrightarrow> Q (Inl e) w'"
  shows "wpre (open_dir d name) Q w"
  unfolding open_dir_def
proof (rule wpre_sys_read, goal_cases)
  case (1 w')
  then show ?case
    by (auto simp: child_def entries_def assms(2) intro: assms(1) split: option.split node.split)
qed (simp_all add: assms(2) child_def entries_def cong: sum.case_cong)

lemma wpre_stat_at:
  assumes "\<And>w'. nodes w' = nodes w \<Longrightarrow> next_ino w' = next_ino w \<Longrightarrow>
       Q (case child w d name of Inl e \<Rightarrow> Inl e
          | Inr i \<Rightarrow> (case nodes w i of None \<Rightarrow> Inl ENOENT | Some n \<Rightarrow> Inr n)) w'"
    and "\<And>e w'. e \<noteq> ENOENT \<Longrightarrow> aged (nodes w) (nodes w') \<Longrightarrow> next_ino w' = next_ino w \<Longrightarrow> Q (Inl e) w'"
  shows "wpre (stat_at d name) Q w"
  unfolding stat_at_def
proof (rule wpre_sys_read, goal_cases)
  case (2 e w')
  then show ?case by (intro assms(2)) (auto simp: EIO_def halted_def ENOENT_def)
next
  case (1 w')
  then show ?case using assms(1) by simp
qed (simp_all add: child_def entries_def cong: sum.case_cong)

text \<open>Following directories only.\<close>

fun walk :: "(nat \<rightharpoonup> node) \<Rightarrow> nat \<Rightarrow> string list \<Rightarrow> nat option" where
  "walk ns d [] = Some d"
| "walk ns d (c # cs) =
     (case ns d of
        Some (Directory p es) \<Rightarrow>
          (case es c of
             None \<Rightarrow> None
           | Some i \<Rightarrow> (case ns i of Some (Directory q fs) \<Rightarrow> walk ns i cs | _ \<Rightarrow> None))
      | _ \<Rightarrow> None)"

lemma wpre_open_parents:
  assumes "\<And>d' w'. nodes w' = nodes w \<Longrightarrow> next_ino w' = next_ino w \<Longrightarrow> walk (nodes w) d parts = Some d' \<Longrightarrow> Q (Inr d') w'"
    and "\<And>e w'. aged (nodes w) (nodes w') \<Longrightarrow> next_ino w' = next_ino w \<Longrightarrow> Q (Inl e) w'"
  shows "wpre (open_parents d parts) Q w"
  using assms
proof (induction parts arbitrary: d w)
  case Nil
  then show ?case by (simp add: wp)
next
  case (Cons part parts)
  show ?case
    unfolding open_parents.simps wpre_andthen wpre_on_error
  proof (rule wpre_open_dir, goal_cases)
    case (1 i p es q fs w')
    have "wpre (open_parents i parts) Q w'"
      by (rule Cons.IH) (use Cons.prems 1 in simp_all)
    then show ?case by simp
  next
    case (2 e w')
    then show ?case by (simp add: Cons.prems(2))
  qed
qed

lemma wpre_create_excl:
  assumes "nodes w (next_ino w) = None" and "nodes w d = Some (Directory p es)"
    and "\<And>w'. es temp = None \<Longrightarrow> writing (nodes w) d p (next_ino w) (new_file E) (es(temp \<mapsto> next_ino w)) w' \<Longrightarrow>
       Q (Inr (next_ino w)) w'"
    and "\<And>e w'. aged (nodes w) (nodes w') \<Longrightarrow> e = EEXIST \<Longrightarrow> nodes w' = nodes w \<Longrightarrow> next_ino w' = next_ino w \<Longrightarrow> Q (Inl e) w'"
    and "\<And>e w'. aged (nodes w) (nodes w') \<Longrightarrow> e \<noteq> EEXIST \<Longrightarrow> next_ino w' = next_ino w \<Longrightarrow> Q (Inl e) w'"
  shows "wpre (create_excl E d temp) Q w"
  unfolding create_excl_def
proof (rule wpre_sys, goal_cases)
  case (2 os)
  have d: "next_ino w \<noteq> d" using assms(1,2) by auto
  show ?case
  proof (cases "es temp")
    case None
    have "\<exists>ns'. aged (nodes w) ns' \<and> (nodes w)(next_ino w \<mapsto> Reg (new_file E), d \<mapsto> Directory p (es(temp \<mapsto> next_ino w)))
        = ns'(next_ino w \<mapsto> Reg (new_file E), d \<mapsto> Directory p (es(temp \<mapsto> next_ino w)))"
      by (intro exI [of _ "nodes w"]) simp
    with None assms(2) d show ?thesis
      by (auto simp: wpre_def child_def entries_def Let_def ENOENT_def ENOTDIR_def writing_def set_entries_def
          new_file_def intro!: assms(3))
  next
    case (Some j)
    with assms(2) show ?thesis by (simp add: wpre_def child_def entries_def assms(4))
  qed
qed (simp_all add: assms(5) EIO_def halted_def EEXIST_def)

lemma wpre_create_temp:
  assumes "nodes w (next_ino w) = None" and "nodes w d = Some (Directory p es)"
    and "\<And>k w'. es (temp_name E k) = None \<Longrightarrow>
       writing (nodes w) d p (next_ino w) (new_file E) (es(temp_name E k \<mapsto> next_ino w)) w' \<Longrightarrow>
       Q (Inr (temp_name E k, next_ino w)) w'"
    and "\<And>e w'. aged (nodes w) (nodes w') \<Longrightarrow> next_ino w' = next_ino w \<Longrightarrow> Q (Inl e) w'"
  shows "wpre (create_temp E d n) Q w"
  using assms
proof (induction n arbitrary: w)
  case 0
  then show ?case by (simp add: wp)
next
  case (Suc n)
  have name: "wpre (fresh_name E) R w \<longleftrightarrow> R (Inr (temp_name E (drawn w))) (w\<lparr>drawn := Suc (drawn w)\<rparr>)" for R
    by (simp add: wpre_def fresh_name_def)
  show ?case
    unfolding create_temp.simps wpre_andthen name sum.case wpre_attempt
  proof (rule wpre_create_excl [where p = p and es = es], goal_cases)
    case (3 w')
    have same: "nodes (w\<lparr>drawn := Suc (drawn w)\<rparr>) = nodes w" "next_ino (w\<lparr>drawn := Suc (drawn w)\<rparr>) = next_ino w"
      by simp_all
    from 3 have "Q (Inr (temp_name E (drawn w), next_ino w)) w'"
      unfolding same by (rule Suc.prems(3))
    then show ?case by (simp add: wp)
  next
    case (4 e w')
    have "wpre (create_temp E d n) Q w'"
      by (rule Suc.IH) (use Suc.prems 4 in simp_all)
    with 4 show ?case by (simp add: wp)
  next
    case (5 e w')
    then show ?case by (simp add: wp Suc.prems(4))
  qed (use Suc.prems in simp_all)
qed

section \<open>Where a path leads\<close>

definition path_parts :: "string \<Rightarrow> string list" where
  "path_parts path = Split (TrimPrefix path ''/'') slash"

text \<open>The inode at a path whose parents are directories, never symbolic links.\<close>

definition dest :: "(nat \<rightharpoonup> node) \<Rightarrow> string \<Rightarrow> nat option" where
  "dest ns path =
     (case walk ns 0 (butlast (path_parts path)) of
        None \<Rightarrow> None
      | Some d \<Rightarrow>
          (case ns d of
             Some (Directory p es) \<Rightarrow> es (last (path_parts path))
           | _ \<Rightarrow> None))"

definition parent :: "(nat \<rightharpoonup> node) \<Rightarrow> string \<Rightarrow> nat option" where
  "parent ns path = walk ns 0 (butlast (path_parts path))"

definition leaf_name :: "string \<Rightarrow> string" where
  "leaf_name path = last (path_parts path)"

lemma dest_parent:
  "dest ns path = (case parent ns path of None \<Rightarrow> None
     | Some d \<Rightarrow> (case ns d of Some (Directory p es) \<Rightarrow> es (leaf_name path) | _ \<Rightarrow> None))"
  by (auto simp: dest_def parent_def leaf_name_def split: option.split node.split)

section \<open>What publishing files may change\<close>

text \<open>An entry that is missing or names a regular file.\<close>

definition leaf :: "(nat \<rightharpoonup> node) \<Rightarrow> nat option \<Rightarrow> bool" where
  "leaf ns x \<longleftrightarrow> (\<forall>j n. x = Some j \<longrightarrow> ns j = Some n \<longrightarrow> is_reg n)"

text \<open>A temporary name of the agent.\<close>

definition temporary :: "string \<Rightarrow> bool" where
  "temporary c \<longleftrightarrow> HasPrefix c ''.ssm-''"

lemma temp_name_temporary [simp]: "temporary (temp_name E k)"
  by (simp add: temp_name_def temporary_def HasPrefix_def)

text \<open>
  Only the paths in \<open>P\<close> and temporary files come, go or get another content: every node that
  was there stays what it was, except for what a crash takes from an unsynced file, and
  every directory keeps all its other entries. Entries that change name regular files
  before and after.
\<close>

definition entry_may_change :: "string set \<Rightarrow> (nat \<rightharpoonup> node) \<Rightarrow> nat \<Rightarrow> string \<Rightarrow> bool" where
  "entry_may_change P ns k c \<longleftrightarrow> temporary c \<or> (\<exists>path\<in>P. parent ns path = Some k \<and> c = leaf_name path)"

definition evolved :: "string set \<Rightarrow> (nat \<rightharpoonup> node) \<Rightarrow> (nat \<rightharpoonup> node) \<Rightarrow> bool" where
  "evolved P ns ns' \<longleftrightarrow>
     (\<forall>k p es. ns k = Some (Directory p es) \<longrightarrow>
        (\<exists>es'. ns' k = Some (Directory p es') \<and>
           (\<forall>c. es' c = es c \<or> leaf ns (es c) \<and> leaf ns' (es' c) \<and> entry_may_change P ns k c))) \<and>
     (\<forall>k n. ns k = Some n \<longrightarrow> (\<forall>p es. n \<noteq> Directory p es) \<longrightarrow>
        ns' k = Some n \<or> ns' k = Some (crash_node n)) \<and>
     (\<forall>k n. ns k = None \<longrightarrow> ns' k = Some n \<longrightarrow> is_reg n)"

lemma evolved_directory:
  assumes "evolved P ns ns'" and "ns k = Some (Directory p es)"
  obtains es' where "ns' k = Some (Directory p es')"
    and "\<And>c. es' c = es c \<or> leaf ns (es c) \<and> leaf ns' (es' c) \<and> entry_may_change P ns k c"
  using assms unfolding evolved_def by blast

lemma evolved_other:
  assumes "evolved P ns ns'" and "\<And>p es. ns k \<noteq> Some (Directory p es)"
  shows "case ns k of None \<Rightarrow> (case ns' k of None \<Rightarrow> True | Some n \<Rightarrow> is_reg n)
    | Some n \<Rightarrow> ns' k = Some n \<or> ns' k = Some (crash_node n)"
proof (cases "ns k")
  case None
  then show ?thesis using assms(1) unfolding evolved_def by (simp split: option.split)
next
  case (Some n)
  then have "\<forall>p es. n \<noteq> Directory p es" using assms(2) by blast
  with Some have "ns' k = Some n \<or> ns' k = Some (crash_node n)"
    using assms(1) unfolding evolved_def by blast
  with Some show ?thesis by simp
qed

lemma evolved_not_Directory:
  assumes "evolved P ns ns'" and "\<And>p es. ns k \<noteq> Some (Directory p es)"
  shows "ns' k \<noteq> Some (Directory p es)"
  using evolved_other [OF assms] assms(2) by (auto split: option.splits)

lemma evolved_leaf:
  assumes "evolved P ns ns'"
  shows "leaf ns' x \<longleftrightarrow> leaf ns x"
proof (cases x)
  case (Some j)
  show ?thesis
  proof (cases "\<exists>p es. ns j = Some (Directory p es)")
    case True
    then obtain p es where j: "ns j = Some (Directory p es)" by blast
    then obtain es' where "ns' j = Some (Directory p es')" by (rule evolved_directory [OF assms])
    with j Some show ?thesis by (simp add: leaf_def)
  next
    case False
    then have "case ns j of None \<Rightarrow> (case ns' j of None \<Rightarrow> True | Some n \<Rightarrow> is_reg n)
        | Some n \<Rightarrow> ns' j = Some n \<or> ns' j = Some (crash_node n)"
      using evolved_other [OF assms, of j] by blast
    then show ?thesis unfolding leaf_def Some by (auto split: option.splits)
  qed
qed (simp add: leaf_def)

lemma evolved_walk:
  assumes "evolved P ns ns'"
  shows "walk ns' a cs = walk ns a cs"
proof (induction cs arbitrary: a)
  case (Cons c cs)
  have no: "walk m a (c # cs) = None" if "\<And>p es. m a \<noteq> Some (Directory p es)" for m
    using that by (auto split: option.split node.split)
  show ?case
  proof (cases "\<exists>p es. ns a = Some (Directory p es)")
    case True
    then obtain p es where a: "ns a = Some (Directory p es)" by blast
    obtain es' where a': "ns' a = Some (Directory p es')"
      and es': "\<And>c. es' c = es c \<or> leaf ns (es c) \<and> leaf ns' (es' c) \<and> entry_may_change P ns a c"
      using evolved_directory [OF assms a] by blast
    show ?thesis
    proof (cases "es' c = es c")
      case True
      have "(case ns' i of Some (Directory q fs) \<Rightarrow> walk ns' i cs | _ \<Rightarrow> None) =
          (case ns i of Some (Directory q fs) \<Rightarrow> walk ns i cs | _ \<Rightarrow> None)" for i
      proof (cases "\<exists>q fs. ns i = Some (Directory q fs)")
        case True
        then obtain q fs where i: "ns i = Some (Directory q fs)" by blast
        then obtain fs' where "ns' i = Some (Directory q fs')" by (rule evolved_directory [OF assms])
        with i show ?thesis by (simp add: Cons.IH)
      next
        case False
        then have "ns' i \<noteq> Some (Directory q fs)" for q fs
          using evolved_not_Directory [OF assms, of i] by blast
        with False show ?thesis by (auto split: option.split node.split)
      qed
      with True show ?thesis by (simp add: a a' split: option.split)
    next
      case False
      with es' [of c] show ?thesis
        by (auto simp: a a' leaf_def split: option.split node.split)
    qed
  next
    case False
    then have "ns' a \<noteq> Some (Directory q fs)" for q fs
      using evolved_not_Directory [OF assms, of a] by blast
    with False show ?thesis using no [of ns] no [of ns'] by metis
  qed
qed simp

lemma evolved_parent: "evolved P ns ns' \<Longrightarrow> parent ns' path = parent ns path"
  by (simp add: parent_def evolved_walk)

lemma evolved_may_change: "evolved P ns ns' \<Longrightarrow> entry_may_change Q ns' k c = entry_may_change Q ns k c"
  by (simp add: entry_may_change_def evolved_parent)

lemma evolved_aged: "aged ns ns' \<Longrightarrow> evolved P ns ns'"
  by (auto simp: evolved_def aged_def crash_nodes_def)

lemma evolved_mono: "evolved P ns ns' \<Longrightarrow> P \<subseteq> Q \<Longrightarrow> evolved Q ns ns'"
proof -
  assume ev: "evolved P ns ns'" and "P \<subseteq> Q"
  then have may: "entry_may_change P ns k c \<Longrightarrow> entry_may_change Q ns k c" for k c
    by (auto simp: entry_may_change_def)
  show "evolved Q ns ns'"
    unfolding evolved_def
  proof (intro conjI allI impI, goal_cases)
    case (1 k p es)
    obtain es' where "ns' k = Some (Directory p es')"
      and "\<And>c. es' c = es c \<or> leaf ns (es c) \<and> leaf ns' (es' c) \<and> entry_may_change P ns k c"
      using evolved_directory [OF ev 1] by blast
    then show ?case using may by blast
  qed (use ev in \<open>simp_all add: evolved_def\<close>)
qed

lemma evolved_trans:
  assumes "evolved P ns ns'" and "evolved P ns' ns''"
  shows "evolved P ns ns''"
  unfolding evolved_def
proof (intro conjI allI impI, goal_cases)
  case (1 k p es)
  obtain es' where a: "ns' k = Some (Directory p es')"
    and es': "\<And>c. es' c = es c \<or> leaf ns (es c) \<and> leaf ns' (es' c) \<and> entry_may_change P ns k c"
    using evolved_directory [OF assms(1) 1] by blast
  obtain es'' where b: "ns'' k = Some (Directory p es'')"
    and es'': "\<And>c. es'' c = es' c \<or> leaf ns' (es' c) \<and> leaf ns'' (es'' c) \<and> entry_may_change P ns' k c"
    using evolved_directory [OF assms(2) a] by blast
  have "es'' c = es c \<or> leaf ns (es c) \<and> leaf ns'' (es'' c) \<and> entry_may_change P ns k c" for c
    using es' [of c] es'' [of c]
    by (auto simp: evolved_leaf [OF assms(1)] evolved_leaf [OF assms(2)] evolved_may_change [OF assms(1)])
  with b show ?case by blast
next
  case (2 k n)
  then have "ns' k = Some n \<or> ns' k = Some (crash_node n)"
    using assms(1) unfolding evolved_def by blast
  moreover have "ns' k = Some m \<Longrightarrow> \<forall>p es. m \<noteq> Directory p es \<Longrightarrow> ns'' k = Some m \<or> ns'' k = Some (crash_node m)" for m
    using assms(2) unfolding evolved_def by blast
  ultimately show ?case using 2 by fastforce
next
  case (3 k n)
  then have none: "ns k \<noteq> Some (Directory p es)" for p es by simp
  have "case ns' k of None \<Rightarrow> True | Some n \<Rightarrow> is_reg n"
    using evolved_other [OF assms(1) none] 3 by simp
  moreover have "ns' k \<noteq> Some (Directory p es)" for p es
    by (rule evolved_not_Directory [OF assms(1) none])
  ultimately show ?case
    using evolved_other [OF assms(2), of k] 3 by (auto split: option.splits)
qed

section \<open>Clean absolute paths\<close>

text \<open>A component that names an entry of its directory and nothing else.\<close>

definition plain_part :: "string \<Rightarrow> bool" where
  "plain_part c \<longleftrightarrow> c \<noteq> [] \<and> c \<noteq> ''.'' \<and> c \<noteq> ''..'' \<and> slash \<notin> set c"

lemma clean_step_rooted:
  assumes "list_all plain_part out" and "slash \<notin> set part"
  shows "list_all plain_part (clean_step True out part)"
proof -
  consider "part = [] \<or> part = ''.''" | "part = ''..''" | "part \<noteq> []" "part \<noteq> ''.''" "part \<noteq> ''..''"
    by blast
  then show ?thesis
  proof cases
    case 1
    show ?thesis unfolding clean_step_def if_P [OF 1] by (rule assms(1))
  next
    case 2
    then show ?thesis using assms(1) by (cases out) (simp_all add: clean_step_def plain_part_def)
  next
    case 3
    then have "plain_part part" using assms(2) by (simp only: plain_part_def simp_thms)
    with 3 assms(1) show ?thesis by (simp only: clean_step_def if_False simp_thms list.pred_inject)
  qed
qed

lemma foldl_clean_step:
  "list_all plain_part out \<Longrightarrow> (\<And>part. part \<in> set parts \<Longrightarrow> slash \<notin> set part) \<Longrightarrow>
     list_all plain_part (foldl (clean_step True) out parts)"
  by (induction parts arbitrary: out) (simp_all add: clean_step_rooted)

lemma clean_parts:
  assumes "IsAbs p" and "Clean p = p" and "p \<noteq> ''/''"
  shows "list_all plain_part (path_parts p)"
proof -
  define xs where "xs = rev (foldl (clean_step True) [] (Split p slash))"
  have p: "p = slash # Join xs slash"
    using assms(1,2) by (auto simp: Clean_def IsAbs_def Let_def xs_def split: if_splits)
  have "list_all plain_part (foldl (clean_step True) [] (Split p slash))"
    by (rule foldl_clean_step) (simp_all add: Split_parts)
  then have ok: "list_all plain_part xs" by (simp add: xs_def)
  have "xs \<noteq> []" using p assms(3) by auto
  then have "path_parts p = xs"
    using ok by (subst p) (simp add: path_parts_def TrimPrefix_def HasPrefix_step Split_Join list_all_iff plain_part_def)
  with ok show ?thesis by simp
qed

section \<open>Properties\<close>

text \<open>New inodes are numbered upwards.\<close>

definition unused_above :: "'z host_scheme \<Rightarrow> bool" where
  "unused_above w \<longleftrightarrow> (\<forall>k\<ge>next_ino w. nodes w k = None)"

lemma writing_evolved:
  assumes w': "writing ns d p i f es' w'" and fresh: "\<forall>k\<ge>i. ns k = None" and d: "ns d = Some (Directory p es)"
    and kept: "\<And>c. es' c = es c \<or> leaf ns (es c) \<and> (es' c = None \<or> es' c = Some i) \<and> entry_may_change P ns d c"
  shows "evolved P ns (nodes w') \<and> unused_above w' \<and> next_ino w' = Suc i"
proof (intro conjI)
  obtain ns' where ns': "aged ns ns'" "nodes w' = ns'(i \<mapsto> Reg f, d \<mapsto> Directory p es')" "i \<noteq> d" "next_ino w' = Suc i"
    using w' by (auto simp: writing_def)
  have new: "nodes w' i = Some (Reg f)" using ns' by simp
  have none: "ns i = None" using fresh by simp
  show "next_ino w' = Suc i" by (rule ns'(4))
  show "evolved P ns (nodes w')"
    unfolding evolved_def
  proof (intro conjI allI impI, goal_cases)
    case (1 k q fs)
    show ?case
    proof (cases "k = d")
      case True
      have "leaf (nodes w') (es' c)" if "es' c = None \<or> es' c = Some i" for c
        using that new by (auto simp: leaf_def)
      with True 1 d kept ns' show ?thesis by (intro exI [of _ es']) auto
    next
      case False
      then have "nodes w' k = Some (Directory q fs)"
        using 1 ns' none aged_Directory [OF ns'(1), of k q fs] by auto
      then show ?thesis by blast
    qed
  next
    case (2 k n)
    then show ?case using d ns' none by (auto simp: aged_def crash_nodes_def)
  next
    case (3 k n)
    then show ?case using d ns' by (auto simp: aged_def crash_nodes_def split: if_splits)
  qed
  have "k \<noteq> d" if "k \<ge> i" for k using that fresh d by auto
  then show "unused_above w'"
    using ns' fresh aged_None [OF ns'(1)] by (auto simp: unused_above_def)
qed

text \<open>What one publication leaves behind, whatever happens.\<close>

definition publication ::
  "string \<Rightarrow> stored_file \<Rightarrow> 'z host_scheme \<Rightarrow> err + unit \<Rightarrow> 'z host_scheme \<Rightarrow> bool" where
  "publication path f w x w' \<longleftrightarrow>
     evolved {path} (nodes w) (nodes w') \<and> unused_above w' \<and> next_ino w \<le> next_ino w' \<and>
     (\<not> temporary (leaf_name path) \<longrightarrow>
        dest (nodes w') path = dest (nodes w) path \<and> x \<noteq> Inr () \<or>
        dest (nodes w') path = Some (next_ino w) \<and> nodes w' (next_ino w) = Some (Reg f))"

lemma entries_crash:
  "(case crash_nodes ns d of Some (Directory p es) \<Rightarrow> f es | _ \<Rightarrow> None) =
   (case ns d of Some (Directory p es) \<Rightarrow> f es | _ \<Rightarrow> None)"
proof (cases "ns d")
  case (Some n)
  then show ?thesis by (cases n) (simp_all add: crash_nodes_def)
qed (simp add: crash_nodes_def)

lemma dest_aged:
  assumes "aged ns ns'"
  shows "dest ns' path = dest ns path"
proof -
  have "parent ns' path = parent ns path"
    by (rule evolved_parent) (rule evolved_aged [OF assms, where P = "{}"])
  with assms show ?thesis
    unfolding aged_def by (elim disjE; cases "parent ns path") (simp_all add: dest_parent entries_crash)
qed

lemma publication_none:
  "unused_above w \<Longrightarrow> aged (nodes w) (nodes w') \<Longrightarrow> next_ino w' = next_ino w \<Longrightarrow> publication path f w (Inl e) w'"
  by (auto simp: publication_def evolved_aged dest_aged unused_above_def aged_None)

lemma publication_write:
  assumes w: "unused_above w" "nodes w1 = nodes w" "next_ino w1 = next_ino w"
    and par: "parent (nodes w) path = Some d" and d: "nodes w d = Some (Directory p es)"
    and base: "leaf (nodes w) (es (leaf_name path))"
  shows "wpre (write_via_temp E d (leaf_name path) data m uid gid)
           (publication path (published (new_file E) data m uid gid) w) w1"
  unfolding write_via_temp_def wpre_andthen
proof (rule wpre_create_temp [where p = p and es = es], goal_cases)
  case (3 k w2)
  let ?temp = "temp_name E k" and ?base = "leaf_name path" and ?i = "next_ino w" and ?ns = "nodes w"
  let ?new = "published (new_file E) data m uid gid"
  have w2: "writing ?ns d p ?i (new_file E) (es(?temp \<mapsto> ?i)) w2" using 3(2) w by simp
  have fresh: "\<forall>k\<ge>?i. ?ns k = None" using w(1) by (simp add: unused_above_def)
  have may: "entry_may_change {path} ?ns d c" if "c = ?base \<or> c = ?temp" for c
    using that par by (auto simp: entry_may_change_def)
  have temp: "leaf ?ns (es ?temp)" using 3(1) by (simp add: leaf_def)
  have seen: "dest (nodes w') path = es' ?base" "nodes w' ?i = Some (Reg f)"
    if w': "writing ?ns d p ?i f es' w'" and ev: "evolved {path} ?ns (nodes w')" for f es' w'
    using w' evolved_parent [OF ev, of path] par by (auto simp: dest_parent writing_def)
  have failed: "publication path ?new w x w'"
    if w': "writing ?ns d p ?i f es' w'" and es': "es' = es(?temp \<mapsto> ?i) \<or> es' = es" and x: "x \<noteq> Inr ()"
    for x f es' w'
  proof -
    have ev: "evolved {path} ?ns (nodes w') \<and> unused_above w' \<and> next_ino w' = Suc ?i"
      using es' may temp by (intro writing_evolved [OF w' fresh d]) (auto split: if_splits)
    have "es' ?base = es ?base" if "\<not> temporary ?base"
      using that es' by auto
    moreover have "dest ?ns path = es ?base" using par d by (simp add: dest_parent)
    ultimately show ?thesis using ev x seen(1) [OF w'] by (auto simp: publication_def)
  qed
  have stored: "publication path ?new w x w'"
    if w': "writing ?ns d p ?i ?new es' w'" and es': "es' = es(?base \<mapsto> ?i) \<or> temporary ?base \<and> es' = es" for x es' w'
  proof -
    have ev: "evolved {path} ?ns (nodes w') \<and> unused_above w' \<and> next_ino w' = Suc ?i"
      using es' may base by (intro writing_evolved [OF w' fresh d]) (auto split: if_splits)
    then show ?thesis using seen [OF w'] es' by (auto simp: publication_def)
  qed
  have "wpre (fill_temp d ?temp ?i ?base data m uid gid)
      (\<lambda>r. wpre (unlink_at d ?temp) (\<lambda>_. publication path ?new w r)) w2"
  proof (rule wpre_fill_temp [OF w2], goal_cases)
    case (1 e f' w')
    show ?case
      by (rule wpre_unlink_op [OF 1]) (use 3(1) in \<open>auto intro!: failed simp: fun_upd_idem\<close>)
  next
    case (2 x w')
    have es: "es(?temp := None, ?base \<mapsto> ?i) = es(?base \<mapsto> ?i)"
      using 3(1) by (simp add: fun_upd_idem)
    show ?case
    proof (rule wpre_unlink_op [OF 2], goal_cases)
      case (1 w'' y f'' es'')
      have f'': "f'' = ?new" using 1(2) by (simp add: published_def)
      have "es'' = es(?base \<mapsto> ?i) \<or> temporary ?base \<and> es'' = es"
        using 1(3) es 3(1) temp_name_temporary [of E k] by (cases "?temp = ?base") (auto simp: fun_upd_idem fun_upd_twist)
      then show ?case using 1(1) unfolding f'' by (intro stored)
    qed
  qed
  then show ?case using w(3) by (simp add: wp)
qed (use w d in \<open>simp_all add: unused_above_def publication_none [unfolded unused_above_def]\<close>)

lemma AtomicWrite_publication:
  assumes w: "unused_above w"
  shows "wpre (AtomicWrite E path data m uid gid)
           (publication path (published (new_file E) data m uid gid) w) w"
    (is "wpre _ ?Q w")
proof -
  let ?base = "leaf_name path"
  have in_dir: "wpre (publish_in E d ?base data m uid gid) ?Q w1"
    if w1: "nodes w1 = nodes w" "next_ino w1 = next_ino w" and par: "parent (nodes w) path = Some d" for d w1
    unfolding publish_in_def wpre_andthen wpre_attempt
  proof (rule wpre_stat_at, goal_cases)
    case (1 w2)
    have same: "nodes w2 = nodes w" "next_ino w2 = next_ino w" using 1 w1 by simp_all
    have bad: "?Q (Inl e) w2" for e by (rule publication_none [OF w]) (simp_all add: same)
    show ?case
    proof (cases "\<exists>p es. nodes w d = Some (Directory p es)")
      case True
      then obtain p es where d: "nodes w d = Some (Directory p es)" by blast
      have go: "wpre (write_via_temp E d ?base data m uid gid) ?Q w2" if "leaf (nodes w) (es ?base)"
        by (rule publication_write [OF w same par d that])
      show ?thesis
      proof (cases "leaf (nodes w) (es ?base)")
        case True
        with go d w1 show ?thesis
          by (auto simp: child_def entries_def leaf_def wp split: option.split)
      next
        case False
        with bad d w1 show ?thesis
          by (auto simp: child_def entries_def leaf_def wp)
      qed
    next
      case False
      then have "entries w1 d = None" using w1 by (auto simp: entries_def split: option.split node.split)
      then show ?thesis using bad by (simp add: child_def wp ENOTDIR_def ENOENT_def)
    qed
  next
    case (2 e w2)
    then show ?case using w w1 by (simp add: wp publication_none)
  qed
  show ?thesis
  proof (cases "\<not> IsAbs path \<or> Clean path \<noteq> path \<or> path = ''/''")
    case True
    show ?thesis
      unfolding AtomicWrite_def if_P [OF True] wpre_throw by (rule publication_none [OF w]) simp_all
  next
    case False
    show ?thesis
      unfolding AtomicWrite_def if_not_P [OF False] Let_def path_parts_def [symmetric] leaf_name_def [symmetric] wpre_andthen
    proof (rule wpre_sys_read, goal_cases)
      case (1 w1)
      have "wpre (open_parents 0 (butlast (path_parts path)))
          (\<lambda>r s. case r of Inl e \<Rightarrow> ?Q (Inl e) s | Inr d \<Rightarrow> wpre (publish_in E d ?base data m uid gid) ?Q s) w1"
        by (rule wpre_open_parents) (use 1 in \<open>simp_all add: in_dir parent_def publication_none [OF w]\<close>)
      then show ?case by (simp add: ret_def wp)
    qed (simp_all add: ret_def publication_none [OF w])
  qed
qed

text \<open>C40: Publishing a file is atomic: whatever operation fails and wherever the machine
  crashes, the path holds either what it held before, or the complete new content with its
  owner and mode, already synced; a successful return means the latter. No symbolic link is
  followed, no other file changes, and no directory entry other than the published one
  and the agent's own temporary files.\<close>

theorem AtomicWrite_atomic:
  assumes "unused_above w" and "\<not> temporary (leaf_name path)"
  shows "wpre (AtomicWrite E path data m uid gid) (\<lambda>x w'.
    (dest (nodes w') path = dest (nodes w) path \<and> x \<noteq> Inr () \<or>
     dest (nodes w') path = Some (next_ino w) \<and>
       nodes w' (next_ino w) = Some (Reg (published (new_file E) data m uid gid))) \<and>
    evolved {path} (nodes w) (nodes w')) w"
  using AtomicWrite_publication [OF assms(1)]
  by (rule wpre_mono) (use assms(2) in \<open>auto simp: publication_def\<close>)

lemma demo_host_unused: "unused_above (demo_host os)"
  by (simp add: unused_above_def demo_host_def demo_nodes_def)

lemma demo_parts: "path_parts ''/run/key'' = [''run'', ''key'']"
  by (simp add: path_parts_def TrimPrefix_def HasPrefix_def)

lemma AtomicWrite_atomic_witness:
  "wpre (AtomicWrite demo_host_env ''/run/key'' (Bytes ''new'') 416 (- 1) (- 1)) (\<lambda>x w'.
     dest (nodes w') ''/run/key'' = Some 2 \<and> nodes w' 2 = demo_nodes 2 \<or>
     dest (nodes w') ''/run/key'' = Some 4 \<and>
       nodes w' 4 = Some (Reg (published (new_file demo_host_env) (Bytes ''new'') 416 (- 1) (- 1))))
   (demo_host [Done, Done, Done, Done, Done, Crashes])"
proof -
  let ?w = "demo_host [Done, Done, Done, Done, Done, Crashes]"
  have "unused_above ?w" "\<not> temporary (leaf_name ''/run/key'')"
    by (simp_all add: demo_host_unused leaf_name_def demo_parts temporary_def HasPrefix_def)
  from AtomicWrite_atomic [OF this, of demo_host_env "Bytes ''new''" 416 "- 1" "- 1"] show ?thesis
  proof (rule wpre_mono, goal_cases)
    case (1 x w')
    have "dest (nodes ?w) ''/run/key'' = Some 2" and "next_ino ?w = 4"
      by (simp_all add: dest_def demo_parts demo_host_def demo_nodes_def demo_dir_def)
    moreover have "nodes w' 2 = demo_nodes 2"
    proof -
      have "nodes ?w 2 = Some (Reg \<lparr>f_data = Bytes ''old'', f_mode = 384, f_uid = 0, f_gid = 0, f_synced = True\<rparr>)"
        by (simp add: demo_host_def demo_nodes_def)
      moreover from this have "case nodes ?w 2 of None \<Rightarrow> (case nodes w' 2 of None \<Rightarrow> True | Some n \<Rightarrow> is_reg n)
          | Some n \<Rightarrow> nodes w' 2 = Some n \<or> nodes w' 2 = Some (crash_node n)"
        using 1 by (intro evolved_other) auto
      ultimately show ?thesis by (simp add: demo_nodes_def)
    qed
    ultimately show ?case using 1 by (simp only:) blast
  qed
qed

lemma AtomicWrite_run:
  assumes calm: "\<not> crashed w" "outcomes w = []"
    and path: "IsAbs path" "Clean path = path" "path \<noteq> ''/''"
    and walk: "walk (nodes w) 0 (butlast (path_parts path)) = Some d"
    and d: "nodes w d = Some (Directory p es)"
    and leaf: "case es (last (path_parts path)) of None \<Rightarrow> True
      | Some j \<Rightarrow> (case nodes w j of Some (Reg f) \<Rightarrow> True | _ \<Rightarrow> False)"
    and free: "nodes w (next_ino w) = None" "es (temp_name E (drawn w)) = None"
    and base: "\<not> HasPrefix (last (path_parts path)) ''.ssm-''"
  shows "AtomicWrite E path data m uid gid w =
    (Inr (), w\<lparr>nodes := (nodes w)(next_ino w \<mapsto> Reg (published (new_file E) data m uid gid),
        d \<mapsto> Directory p (es(last (path_parts path) \<mapsto> next_ino w))),
      next_ino := Suc (next_ino w), drawn := Suc (drawn w)\<rparr>)"
proof -
  let ?parts = "path_parts path" and ?i = "next_ino w" and ?temp = "temp_name E (drawn w)"
  let ?base = "last ?parts"
  have "HasPrefix ?temp ''.ssm-''" by (simp add: temp_name_def HasPrefix_def)
  then have ne: "?temp \<noteq> ?base" using base by auto
  have i: "?i \<noteq> d" using d free(1) by auto
  have parents: "open_parents a cs w = (Inr b, w)" if "walk (nodes w) a cs = Some b" for a b cs
    using that calm
    by (induction cs arbitrary: a)
       (auto simp: ret_def andthen_def on_error_def open_dir_def sys_def child_def entries_def
          split: option.splits node.splits)
  let ?w1 = "\<lambda>es f. w\<lparr>nodes := (nodes w)(?i \<mapsto> Reg f, d \<mapsto> Directory p es), next_ino := Suc ?i,
      drawn := Suc (drawn w)\<rparr>"
  have create: "create_temp E d 10 w = (Inr (?temp, ?i), ?w1 (es(?temp \<mapsto> ?i)) (new_file E))"
    using calm d free i
    by (simp add: eval_nat_numeral andthen_def fresh_name_def attempt_def create_excl_def sys_def child_def entries_def
        Let_def set_entries_def new_file_def ret_def)
  have fill: "fill_temp d ?temp ?i ?base data m uid gid (?w1 (es(?temp \<mapsto> ?i)) (new_file E)) =
      (Inr (), ?w1 (es(?temp := None, ?base \<mapsto> ?i)) (published (new_file E) data m uid gid))"
  proof -
    define W where "W = ?w1"
    have file_op: "sys (modify (set_file ?i g)) (W e f) = (Inr (), W e (g f))" for g e f
      using calm i by (simp add: W_def sys_def modify_def set_file_def fun_upd_twist)
    have idle: "sys (ret ()) (W e f) = (Inr (), W e f)" "\<not> crashed (W e f)" for e f
      using calm by (simp_all add: W_def sys_def ret_def)
    have torn: "set_file ?i g (W e f) = W e (g f)" for g e f
      using i by (simp add: W_def set_file_def fun_upd_twist)
    have move: "rename_at d ?temp ?base (W (es(?temp \<mapsto> ?i)) f) = (Inr (), W (es(?temp := None, ?base \<mapsto> ?i)) f)" for f
      using calm leaf ne i d
      by (auto simp: W_def rename_at_def sys_def child_def entries_def set_entries_def fun_upd_twist
          split: option.splits node.splits)
    have pure: "ret () (W e f) = (Inr (), W e f)" "modify g (W e f) = (Inr (), g (W e f))" for g e f
      by (simp_all add: ret_def modify_def)
    have "fill_temp d ?temp ?i ?base data m uid gid (W (es(?temp \<mapsto> ?i)) (new_file E)) =
        (Inr (), W (es(?temp := None, ?base \<mapsto> ?i)) (published (new_file E) data m uid gid))"
      by (cases "uid = - 1"; cases "gid = - 1")
         (auto simp: fill_temp_def write_file_def chown_file_def chmod_file_def sync_file_def andthen_def
            file_op idle torn move pure published_def new_file_def own_id_def cong: if_cong)
    then show ?thesis by (simp add: W_def)
  qed
  have unlink: "snd (unlink_at d ?temp (?w1 (es(?temp := None, ?base \<mapsto> ?i)) f)) =
      ?w1 (es(?temp := None, ?base \<mapsto> ?i)) f" for f
    using calm ne by (simp add: unlink_at_def sys_def child_def entries_def)
  have "write_via_temp E d ?base data m uid gid w =
      (Inr (), ?w1 (es(?base \<mapsto> ?i)) (published (new_file E) data m uid gid))"
    using free(2) unlink by (simp add: write_via_temp_def andthen_def create deferring_def fill fun_upd_idem)
  then have "publish_in E d ?base data m uid gid w =
      (Inr (), ?w1 (es(?base \<mapsto> ?i)) (published (new_file E) data m uid gid))"
    using leaf calm d
    by (auto simp: publish_in_def stat_at_def andthen_def attempt_def sys_def child_def entries_def
        split: option.splits node.splits)
  then show ?thesis
    using path calm parents [OF walk]
    by (simp add: AtomicWrite_def path_parts_def Let_def andthen_def sys_def ret_def)
qed

text \<open>Without faults the write succeeds and does exactly this: for a clean absolute path
  whose parents are directories and whose own entry is missing or a regular file, the entry
  points to a new synced file with the content, owner and mode asked for, and nothing else
  changes.\<close>

theorem AtomicWrite_writes:
  assumes calm: "\<not> crashed w" "outcomes w = []"
    and path: "IsAbs path" "Clean path = path" "path \<noteq> ''/''"
    and walk: "walk (nodes w) 0 (butlast (path_parts path)) = Some d"
    and d: "nodes w d = Some (Directory p es)"
    and leaf: "case es (last (path_parts path)) of None \<Rightarrow> True
      | Some j \<Rightarrow> (case nodes w j of Some (Reg f) \<Rightarrow> True | _ \<Rightarrow> False)"
    and free: "nodes w (next_ino w) = None" "es (temp_name E (drawn w)) = None"
    and base: "\<not> HasPrefix (last (path_parts path)) ''.ssm-''"
  shows "AtomicWrite E path data m uid gid w =
    (Inr (), w\<lparr>nodes := (nodes w)(next_ino w \<mapsto> Reg (published (new_file E) data m uid gid),
        d \<mapsto> Directory p (es(last (path_parts path) \<mapsto> next_ino w))),
      next_ino := Suc (next_ino w), drawn := Suc (drawn w)\<rparr>)"
  by (rule AtomicWrite_run [OF assms])

lemma AtomicWrite_writes_witness:
  "fst (AtomicWrite demo_host_env ''/run/key'' (Bytes ''new'') 416 (- 1) (- 1) (demo_host [])) = Inr ()"
proof -
  have clean: "Clean ''/run/key'' = ''/run/key''" by code_simp
  have "AtomicWrite demo_host_env ''/run/key'' (Bytes ''new'') 416 (- 1) (- 1) (demo_host []) =
    (Inr (), (demo_host [])\<lparr>nodes := (nodes (demo_host []))(next_ino (demo_host []) \<mapsto>
         Reg (published (new_file demo_host_env) (Bytes ''new'') 416 (- 1) (- 1)),
        1 \<mapsto> Directory \<lparr>d_parent = 0, d_mode = 448\<rparr> ((map_of [(''key'', 2), (''link'', 3)])
          (last (path_parts ''/run/key'') \<mapsto> next_ino (demo_host [])))),
      next_ino := Suc (next_ino (demo_host [])), drawn := Suc (drawn (demo_host []))\<rparr>)"
    by (rule AtomicWrite_writes)
       (simp_all add: demo_host_def demo_nodes_def demo_dir_def demo_parts clean IsAbs_def HasPrefix_def temp_name_def)
  then show ?thesis by simp
qed

text \<open>A mode is read exactly: the empty string is 0600, any other string is accepted just
  if it consists of octal digits whose value is at most 0777, and the value is that number.\<close>

theorem parseMode_exact:
  "parseMode s = Inr m \<longleftrightarrow>
     (if s = [] then m = 384
      else list_all is_octal s \<and> m = foldl (\<lambda>n c. 8 * n + digit_value c) 0 s \<and> m \<le> 511)"
  by (auto simp: parseMode_def parse_octal_value Let_def)

end
