(* ===== verification/Times.thy ===== *)
theory Times
  imports GoStrings
begin

text \<open>
  Times as the service prints them. A time is a number of nanoseconds after the start of the
  year 1; \<open>RFC3339Nano\<close> is \<open>t.UTC().Format(time.RFC3339Nano)\<close>, whose fraction drops
  trailing zeros, and \<open>compact_stamp\<close> the layout of the download's file name.
\<close>

function decimal :: "int \<Rightarrow> string" where
  "decimal n = (if n < 10 then [char_of (48 + n)] else decimal (n div 10) @ [char_of (48 + n mod 10)])"
  by pat_completeness auto
termination
  by (relation "measure nat") auto

declare decimal.simps [simp del]

definition padded :: "nat \<Rightarrow> int \<Rightarrow> string" where
  "padded width n = (let s = decimal n in replicate (width - length s) CHR ''0'' @ s)"

text \<open>The proleptic Gregorian calendar, from the number of days since 1 January of year 1.\<close>

definition leap :: "int \<Rightarrow> bool" where
  "leap y \<longleftrightarrow> y mod 4 = 0 \<and> (y mod 100 \<noteq> 0 \<or> y mod 400 = 0)"

definition month_days :: "int \<Rightarrow> int list" where
  "month_days y = [31, if leap y then 29 else 28, 31, 30, 31, 30, 31, 31, 30, 31, 30, 31]"

fun month_of :: "int list \<Rightarrow> int \<Rightarrow> int \<Rightarrow> int \<times> int" where
  "month_of [] m d = (m, d + 1)"
| "month_of (n # ns) m d = (if d < n then (m, d + 1) else month_of ns (m + 1) (d - n))"

definition civil :: "int \<Rightarrow> int \<times> int \<times> int" where
  "civil days =
     (let d400 = days mod 146097;
          n100 = min 3 (d400 div 36524);
          d100 = d400 - n100 * 36524;
          d4 = d100 mod 1461;
          n1 = min 3 (d4 div 365);
          y = 400 * (days div 146097) + 100 * n100 + 4 * (d100 div 1461) + n1 + 1;
          (m, d) = month_of (month_days y) 1 (d4 - n1 * 365)
      in (y, m, d))"

definition second_ns :: int where
  "second_ns = 1000000000"

definition clock_of :: "int \<Rightarrow> int \<times> int \<times> int" where
  "clock_of t = (let s = t div second_ns mod 86400 in (s div 3600, s div 60 mod 60, s mod 60))"

definition drop_zeros :: "string \<Rightarrow> string" where
  "drop_zeros s = rev (dropWhile (\<lambda>c. c = CHR ''0'') (rev s))"

definition fraction_text :: "int \<Rightarrow> string" where
  "fraction_text t =
     (case drop_zeros (padded 9 (t mod second_ns)) of [] \<Rightarrow> [] | f \<Rightarrow> CHR ''.'' # f)"

definition RFC3339Nano :: "int \<Rightarrow> string" where
  "RFC3339Nano t =
     (case (civil (t div (86400 * second_ns)), clock_of t) of
        ((y, mo, d), (h, mi, s)) \<Rightarrow>
          padded 4 y @ ''-'' @ padded 2 mo @ ''-'' @ padded 2 d @ ''T'' @
          padded 2 h @ '':'' @ padded 2 mi @ '':'' @ padded 2 s @ fraction_text t @ ''Z'')"

definition compact_stamp :: "int \<Rightarrow> string" where
  "compact_stamp t =
     (case (civil (t div (86400 * second_ns)), clock_of t) of
        ((y, mo, d), (h, mi, s)) \<Rightarrow>
          padded 4 y @ padded 2 mo @ padded 2 d @ ''T'' @ padded 2 h @ padded 2 mi @ padded 2 s @ ''Z'')"

end
