(* ===== verification/Agent.thy ===== *)
theory Agent
  imports Files Encode Times
begin

text \<open>
  The agent (internal/agent/agent.go): configuration, start-up from its private state
  directory, enrollment, and the reconciliation of locally defined files with the values the
  server holds. Everything the agent does happens on one world: the machine of theory Host,
  the agent's memory, and what the server, the hooks and the cancellation of its context
  will do next.
\<close>

section \<open>Data\<close>

record config =
  cf_Server :: string
  cf_CAFile :: string
  cf_EnrollmentToken :: string
  cf_PollInterval :: string
  cf_StateDir :: string
  cf_TemplatesDir :: string
  cf_SecretsDir :: string
  cf_LogLevel :: string

text \<open>A definition; a command that is absent is not the same as an empty one.\<close>

record secret_definition =
  de_Path :: string
  de_Template :: string
  de_Destination :: string
  de_Owner :: string
  de_Group :: string
  de_Mode :: string
  de_Command :: "string list option"
  de_CommandTimeout :: string

definition argv :: "secret_definition \<Rightarrow> string list" where
  "argv d = (case de_Command d of None \<Rightarrow> [] | Some xs \<Rightarrow> xs)"

record url =
  u_Scheme :: string
  u_Host :: string
  u_User :: "string option"
  u_Path :: string
  u_RawQuery :: string
  u_Fragment :: string

definition zero_credentials :: agent_credentials where
  "zero_credentials = \<lparr>cr_ID = [], cr_Token = []\<rparr>"

definition zero_applied :: applied where
  "zero_applied = \<lparr>ap_Revision = 0, ap_Fingerprint = [], ap_OutputHash = [], ap_Pending = False\<rparr>"

text \<open>
  The libraries the agent calls: \<open>time.ParseDuration\<close> (in nanoseconds), the strict YAML decoder
  for both of its documents, \<open>url.Parse\<close>, the PEM reader, \<open>text/template\<close> with
  \<open>missingkey=error\<close>, and the order in which a \<open>range\<close> visits a map, which may differ from
  poll to poll.
\<close>

record agent_env = host_env +
  ParseDuration :: "string \<Rightarrow> int option"
  yaml_config :: "config \<Rightarrow> string \<Rightarrow> config option"
  yaml_definition :: "string \<Rightarrow> secret_definition option"
  parse_url :: "string \<Rightarrow> url option"
  pem_ok :: "string \<Rightarrow> bool"
  template_ok :: "string \<Rightarrow> bool"
  template_output :: "string \<Rightarrow> string \<times> string \<times> int64 \<Rightarrow> string option"
  range_order :: "nat \<Rightarrow> (string \<times> secret_definition) list \<Rightarrow> (string \<times> secret_definition) list"

section \<open>The world of the agent\<close>

text \<open>
  What the HTTP client gets for a call: no usable answer (the connection, TLS, a redirect, the
  timeout, the cancellation), or a status and a body. What becomes of a hook: it does not
  start, it fails or is killed, or it succeeds.
\<close>

datatype server_reply = NoReply | Answer int string

datatype hook = HookNotStarted | HookFailed | HookDone

record hook_run =
  hr_Args :: "string list"
  hr_Timeout :: int
  hr_Succeeded :: bool

record api_call =
  ac_Method :: string
  ac_Url :: string
  ac_Bearer :: "string option"
  ac_Body :: string

text \<open>
  \<open>replies\<close> and \<open>hooks\<close> are what is still to come (nothing more: no answer, success);
  \<open>sent\<close> and \<open>ran\<close> are what has happened, newest first: the calls to the server, and the hooks
  that were started, each with its outcome. What a hook itself does to the files is not part of
  the world. The context is found cancelled after \<open>cancel_in\<close> more looks at it, or never.
\<close>

record agent_world = host +
  Cfg :: config
  Credentials :: agent_credentials
  applied_state :: "string \<rightharpoonup> applied"
  replies :: "server_reply list"
  sent :: "api_call list"
  hooks :: "hook list"
  ran :: "hook_run list"
  cancel_in :: "nat option"
  polls :: nat

definition ctx_done :: "('z agent_world_scheme, bool) proc" where
  "ctx_done = (\<lambda>w. case cancel_in w of
       None \<Rightarrow> (Inr False, w)
     | Some 0 \<Rightarrow> (Inr True, w)
     | Some (Suc n) \<Rightarrow> (Inr False, w\<lparr>cancel_in := Some n\<rparr>))"

definition exchange :: "api_call \<Rightarrow> ('z agent_world_scheme, int \<times> string) proc" where
  "exchange call = sys (\<lambda>w.
     let w = w\<lparr>sent := call # sent w\<rparr> in
     case replies w of
       [] \<Rightarrow> (Inl EIO, w)
     | NoReply # rs \<Rightarrow> (Inl EIO, w\<lparr>replies := rs\<rparr>)
     | Answer code b # rs \<Rightarrow> (Inr (code, b), w\<lparr>replies := rs\<rparr>))"

definition hook_ended :: "string list \<Rightarrow> int \<Rightarrow> bool \<Rightarrow> 'z agent_world_scheme \<Rightarrow> 'z agent_world_scheme" where
  "hook_ended args timeout ok w =
     w\<lparr>ran := \<lparr>hr_Args = args, hr_Timeout = timeout, hr_Succeeded = ok\<rparr> # ran w\<rparr>"

declare hook_ended_def [simp]

definition run_hook :: "string list \<Rightarrow> int \<Rightarrow> ('z agent_world_scheme, unit) proc" where
  "run_hook args timeout = sys (\<lambda>w.
     case hooks w of
       [] \<Rightarrow> (Inr (), hook_ended args timeout True w)
     | h # hs \<Rightarrow>
         let w = w\<lparr>hooks := hs\<rparr> in
         (case h of
            HookNotStarted \<Rightarrow> (Inl EIO, w)
          | HookFailed \<Rightarrow> (Inl EIO, hook_ended args timeout False w)
          | HookDone \<Rightarrow> (Inr (), hook_ended args timeout True w)))"

section \<open>Decoding\<close>

text \<open>A plain decoder, unlike the request decoder of the server, skips members it does not know.\<close>

definition skip_field :: "string \<Rightarrow> json \<Rightarrow> 't \<Rightarrow> 't option" where
  "skip_field key v x = Some x"

definition credentials_fields :: "string \<Rightarrow> json \<Rightarrow> agent_credentials \<Rightarrow> agent_credentials option" where
  "credentials_fields =
     field ''id'' set_string cr_ID (\<lambda>s c. c\<lparr>cr_ID := s\<rparr>)
    (field ''token'' set_string cr_Token (\<lambda>s c. c\<lparr>cr_Token := s\<rparr>) skip_field)"

definition applied_fields :: "string \<Rightarrow> json \<Rightarrow> applied \<Rightarrow> applied option" where
  "applied_fields =
     field ''revision'' set_int ap_Revision (\<lambda>n a. a\<lparr>ap_Revision := n\<rparr>)
    (field ''fingerprint'' set_string ap_Fingerprint (\<lambda>s a. a\<lparr>ap_Fingerprint := s\<rparr>)
    (field ''output_hash'' set_string ap_OutputHash (\<lambda>s a. a\<lparr>ap_OutputHash := s\<rparr>)
    (field ''pending_command'' set_bool ap_Pending (\<lambda>b a. a\<lparr>ap_Pending := b\<rparr>) skip_field)))"

text \<open>\<open>json.Unmarshal\<close> of a whole document.\<close>

definition unmarshal :: "string \<Rightarrow> json option" where
  "unmarshal b =
     (case json_next b of
        JValue v rest \<Rightarrow> (case json_next rest of JEnd \<Rightarrow> Some v | _ \<Rightarrow> None)
      | _ \<Rightarrow> None)"

definition read_credentials :: "content \<Rightarrow> agent_credentials option" where
  "read_credentials c =
     (case c of
        CredentialsFile cr \<Rightarrow> Some cr
      | Bytes b \<Rightarrow> Option.bind (unmarshal b) (\<lambda>v. into_struct credentials_fields v zero_credentials)
      | _ \<Rightarrow> None)"

text \<open>A map of JSON: every value is decoded into a fresh one; null gives an empty map.\<close>

fun into_map :: "(json \<Rightarrow> 'a option) \<Rightarrow> (string \<times> json) list \<Rightarrow> (string \<rightharpoonup> 'a) \<Rightarrow> (string \<rightharpoonup> 'a) option" where
  "into_map dec [] m = Some m"
| "into_map dec ((k, v) # kvs) m =
     (case dec v of None \<Rightarrow> None | Some x \<Rightarrow> into_map dec kvs (m(k \<mapsto> x)))"

definition read_revisions :: "content \<Rightarrow> (string \<rightharpoonup> applied) option" where
  "read_revisions c =
     (case c of
        RevisionsFile m \<Rightarrow> Some m
      | Bytes b \<Rightarrow>
          (case unmarshal b of
             Some JNull \<Rightarrow> Some Map.empty
           | Some (JObject kvs) \<Rightarrow> into_map (\<lambda>v. into_struct applied_fields v zero_applied) kvs Map.empty
           | _ \<Rightarrow> None)
      | _ \<Rightarrow> None)"

text \<open>Files the agent has not written itself hold bytes.\<close>

definition file_bytes :: "content \<Rightarrow> err + string" where
  "file_bytes c = (case c of Bytes b \<Rightarrow> Inr b | _ \<Rightarrow> Inl EIO)"

definition ReadBytes :: "'e agent_env_scheme \<Rightarrow> string \<Rightarrow> ('z host_scheme, string) proc" where
  "ReadBytes E path = andthen (ReadFile E path) (\<lambda>c. lift (file_bytes c))"

section \<open>Configuration and start-up\<close>

definition default_config :: config where
  "default_config = \<lparr>cf_Server = [], cf_CAFile = [], cf_EnrollmentToken = [], cf_PollInterval = ''30s'',
     cf_StateDir = ''/var/lib/ssm-agent'', cf_TemplatesDir = ''/etc/ssm-agent/templates'',
     cf_SecretsDir = ''/etc/ssm-agent/secrets'', cf_LogLevel = ''info''\<rparr>"

definition LoadConfig :: "'e agent_env_scheme \<Rightarrow> string \<Rightarrow> ('z host_scheme, config) proc" where
  "LoadConfig E path =
     andthen (ReadBytes E path) (\<lambda>b.
     case yaml_config E default_config b of
       None \<Rightarrow> throw (ErrText ''yaml'')
     | Some c \<Rightarrow> ret c)"

text \<open>The client itself always verifies TLS and refuses redirects; only its creation can fail.\<close>

definition HTTPClient :: "'e agent_env_scheme \<Rightarrow> string \<Rightarrow> ('z host_scheme, unit) proc" where
  "HTTPClient E caFile =
     (if caFile \<noteq> [] then
        andthen (ReadBytes E caFile) (\<lambda>b.
        if \<not> pem_ok E b then throw (ErrText ''CA file contains no certificates'') else ret ())
      else ret ())"

definition privateRead :: "'e host_env_scheme \<Rightarrow> string \<Rightarrow> ('z host_scheme, content) proc" where
  "privateRead E path =
     andthen (Lstat E path) (\<lambda>st. case st of
       Reg f \<Rightarrow>
         if f_mode f mod 64 \<noteq> 0 then throw (ErrText ''state file must be regular with mode 0600'')
         else ReadFile E path
     | _ \<Rightarrow> throw (ErrText ''state file must be regular with mode 0600''))"

definition https_origin :: "url \<Rightarrow> bool" where
  "https_origin u \<longleftrightarrow> u_Scheme u = ''https'' \<and> u_Host u \<noteq> [] \<and> u_User u = None \<and> u_RawQuery u = [] \<and>
     u_Fragment u = [] \<and> (u_Path u = [] \<or> u_Path u = ''/'')"

fun private_dir :: "node \<Rightarrow> bool" where
  "private_dir (Directory p es) = (d_mode p mod 64 = 0)"
| "private_dir _ = False"

definition state_file :: "config \<Rightarrow> string \<Rightarrow> string" where
  "state_file c name = FilepathJoin (cf_StateDir c) name"

definition load_credentials :: "'e agent_env_scheme \<Rightarrow> config \<Rightarrow> ('z agent_world_scheme, unit) proc" where
  "load_credentials E c =
     andthen (attempt (privateRead E (state_file c ''credentials.json''))) (\<lambda>r. case r of
       Inl e \<Rightarrow> if e \<noteq> ENOENT then throw e else ret ()
     | Inr b \<Rightarrow>
         (case read_credentials b of
            None \<Rightarrow> throw (ErrText ''invalid credentials state'')
          | Some cr \<Rightarrow>
              if cr_ID cr = [] \<or> cr_Token cr = [] then throw (ErrText ''empty credentials state'')
              else modify (\<lambda>w. w\<lparr>Credentials := cr\<rparr>)))"

definition load_revisions :: "'e agent_env_scheme \<Rightarrow> config \<Rightarrow> ('z agent_world_scheme, unit) proc" where
  "load_revisions E c =
     andthen (attempt (privateRead E (state_file c ''revisions.json''))) (\<lambda>r. case r of
       Inl e \<Rightarrow> if e \<noteq> ENOENT then throw e else ret ()
     | Inr b \<Rightarrow>
         (case read_revisions b of
            None \<Rightarrow> throw (ErrText ''invalid revision state'')
          | Some m \<Rightarrow> modify (\<lambda>w. w\<lparr>applied_state := m\<rparr>)))"

text \<open>The new agent is the world's; the poll interval is returned.\<close>

definition New :: "'e agent_env_scheme \<Rightarrow> config \<Rightarrow> ('z agent_world_scheme, int) proc" where
  "New E c =
     (case parse_url E (cf_Server c) of
        None \<Rightarrow> throw (ErrText ''server must be an HTTPS origin'')
      | Some u \<Rightarrow>
          if \<not> https_origin u then throw (ErrText ''server must be an HTTPS origin'')
          else let c = c\<lparr>cf_Server := strip_slashes (cf_Server c)\<rparr> in
          (case ParseDuration E (cf_PollInterval c) of
             None \<Rightarrow> throw (ErrText ''poll_interval must be at least 1s'')
           | Some interval \<Rightarrow>
               if interval < 10 ^ 9 then throw (ErrText ''poll_interval must be at least 1s'')
               else
                 andthen (HTTPClient E (cf_CAFile c)) (\<lambda>_.
                 if \<not> IsAbs (cf_StateDir c) then throw (ErrText ''state_dir must be absolute'')
                 else
                   andthen (MkdirAll E (cf_StateDir c) 448) (\<lambda>_.
                   andthen (Lstat E (cf_StateDir c)) (\<lambda>st.
                   if \<not> private_dir st
                   then throw (ErrText ''state directory must be a real directory with mode 0700'')
                   else
                     andthen (modify (\<lambda>w. w\<lparr>Cfg := c, Credentials := zero_credentials, applied_state := Map.empty\<rparr>)) (\<lambda>_.
                     andthen (load_credentials E c) (\<lambda>_.
                     andthen (load_revisions E c) (\<lambda>_.
                     ret interval))))))))"

section \<open>Calls to the server\<close>

definition decode_answer :: "string \<Rightarrow> (string \<Rightarrow> json \<Rightarrow> 't \<Rightarrow> 't option) \<Rightarrow> 't \<Rightarrow> err + 't" where
  "decode_answer b fld zero =
     (case json_next (take (3 * 1024 * 1024) b) of
        JValue v rest \<Rightarrow> (case into_struct fld v zero of None \<Rightarrow> Inl json_error | Some x \<Rightarrow> Inr x)
      | _ \<Rightarrow> Inl json_error)"

definition api_url :: "config \<Rightarrow> string \<Rightarrow> string" where
  "api_url c path = cf_Server c @ ''/api/v1/'' @ path"

definition agent_request ::
  "string \<Rightarrow> string \<Rightarrow> string \<Rightarrow> (string \<Rightarrow> json \<Rightarrow> 't \<Rightarrow> 't option) \<Rightarrow> 't \<Rightarrow> ('z agent_world_scheme, 't) proc" where
  "agent_request path method payload fld zero =
     andthen (gets (\<lambda>w. \<lparr>ac_Method = method, ac_Url = api_url (Cfg w) path,
       ac_Bearer = (if cr_Token (Credentials w) \<noteq> [] then Some (cr_Token (Credentials w)) else None),
       ac_Body = payload\<rparr>)) (\<lambda>call.
     andthen (on_error (exchange call) (\<lambda>_. ErrText ''server connection failed'')) (\<lambda>(code, b).
     if code \<noteq> 200 then throw (ErrText (''server returned HTTP '' @ decimal code))
     else lift (decode_answer b fld zero)))"

definition Enroll :: "'e agent_env_scheme \<Rightarrow> ('z agent_world_scheme, unit) proc" where
  "Enroll E =
     andthen (gets Credentials) (\<lambda>cr.
     andthen (gets Cfg) (\<lambda>cfg.
     if cr_Token cr \<noteq> [] then modify (\<lambda>w. w\<lparr>Cfg := (Cfg w)\<lparr>cf_EnrollmentToken := []\<rparr>\<rparr>)
     else if cf_EnrollmentToken cfg = [] then throw (ErrText ''enrollment token required'')
     else
       andthen (agent_request ''enroll'' ''POST''
         (marshal_object [(''token'', marshal_string (cf_EnrollmentToken cfg))]) credentials_fields zero_credentials) (\<lambda>c.
       if cr_ID c = [] \<or> cr_Token c = [] then throw (ErrText ''invalid enrollment response'')
       else
         andthen (on_error (AtomicWrite E (state_file cfg ''credentials.json'') (CredentialsFile c) 384 (- 1) (- 1))
           (\<lambda>_. ErrText ''could not persist runtime credential; create a new agent enrollment'')) (\<lambda>_.
         modify (\<lambda>w. w\<lparr>Credentials := c, Cfg := (Cfg w)\<lparr>cf_EnrollmentToken := []\<rparr>\<rparr>)))))"

section \<open>Definitions\<close>

definition id_of :: "'e host_env_scheme \<Rightarrow> string \<Rightarrow> bool \<Rightarrow> err + int" where
  "id_of E s grp =
     (if s = [] then Inr (- 1)
      else (case Atoi s of
          Some n \<Rightarrow> if n < 0 then Inl (ErrText ''owner/group must be nonnegative'') else Inr n
        | None \<Rightarrow>
            (case (if grp then lookup_group E s else lookup_user E s) of
               None \<Rightarrow> Inl (ErrText (if grp then ''unknown group'' else ''unknown owner''))
             | Some n \<Rightarrow> (case Atoi n of None \<Rightarrow> Inl (ErrText ''strconv.Atoi'') | Some i \<Rightarrow> Inr i))))"

definition overlaps :: "string \<Rightarrow> string \<Rightarrow> bool" where
  "overlaps destination dir = (destination = Clean dir \<or> HasPrefix destination (Clean dir @ ''/''))"

definition own_dirs :: "config \<Rightarrow> string list" where
  "own_dirs c = [cf_StateDir c, cf_TemplatesDir c, cf_SecretsDir c, ''/etc/ssm-agent'']"

text \<open>The checks on one definition, in their order; \<open>earlier\<close> are the destinations so far.\<close>

definition check_definition ::
  "'e agent_env_scheme \<Rightarrow> config \<Rightarrow> string list \<Rightarrow> secret_definition \<Rightarrow> err + unit" where
  "check_definition E cfg earlier d =
     (case Normalize (de_Path d) of
        Inl e \<Rightarrow> Inl e
      | Inr _ \<Rightarrow>
          if \<not> IsAbs (de_Destination d) \<or> Clean (de_Destination d) \<noteq> de_Destination d \<or> de_Destination d = ''/''
          then Inl (ErrText ''destination must be a clean absolute path'')
          else if de_Destination d \<in> set earlier then Inl (ErrText ''duplicate destination'')
          else if list_ex (overlaps (de_Destination d)) (own_dirs cfg)
          then Inl (ErrText ''destination overlaps agent configuration or state'')
          else if de_Template d \<noteq> [] \<and>
            (Base (de_Template d) \<noteq> de_Template d \<or> \<not> HasSuffix (de_Template d) ''.templ'')
          then Inl (ErrText ''template must be a .templ basename'')
          else if argv d \<noteq> [] \<and> \<not> IsAbs (hd (argv d)) then Inl (ErrText ''command executable must be absolute'')
          else if de_CommandTimeout d \<noteq> [] \<and>
            (case ParseDuration E (de_CommandTimeout d) of None \<Rightarrow> True | Some t \<Rightarrow> t \<le> 0)
          then Inl (ErrText ''invalid command timeout'')
          else (case parseMode (de_Mode d) of Inl e \<Rightarrow> Inl e | Inr _ \<Rightarrow> Inr ()))"

text \<open>Directories and other names are passed over before anything is read.\<close>

definition passed_over :: "string \<times> node \<Rightarrow> bool" where
  "passed_over entry \<longleftrightarrow>
     (case snd entry of Directory p es \<Rightarrow> True | _ \<Rightarrow> False) \<or> \<not> HasSuffix (fst entry) ''.yaml''"

fun read_definitions ::
  "'e agent_env_scheme \<Rightarrow> config \<Rightarrow> (string \<times> node) list \<Rightarrow> (string \<times> secret_definition) list
   \<Rightarrow> ('z host_scheme, (string \<times> secret_definition) list) proc" where
  "read_definitions E cfg [] out = ret out"
| "read_definitions E cfg (entry # rest) out =
     (if passed_over entry then read_definitions E cfg rest out
      else if (case snd entry of Link t \<Rightarrow> True | _ \<Rightarrow> False)
      then throw (ErrText ''definition symlinks are forbidden'')
      else
        andthen (ReadBytes E (FilepathJoin (cf_SecretsDir cfg) (fst entry))) (\<lambda>b.
        case yaml_definition E b of
          None \<Rightarrow> throw (ErrText ''invalid secret definition'')
        | Some d \<Rightarrow>
            andthen (lift (check_definition E cfg (map (\<lambda>(n, d). de_Destination d) out) d)) (\<lambda>_.
            read_definitions E cfg rest (out @ [(fst entry, d)]))))"

definition definitions ::
  "'e agent_env_scheme \<Rightarrow> ('z agent_world_scheme, (string \<times> secret_definition) list) proc" where
  "definitions E =
     andthen (gets Cfg) (\<lambda>cfg.
     andthen (ReadDir E (cf_SecretsDir cfg)) (\<lambda>es.
     read_definitions E cfg es []))"

section \<open>One definition\<close>

definition Render :: "'e agent_env_scheme \<Rightarrow> string \<Rightarrow> string \<Rightarrow> string \<Rightarrow> int64 \<Rightarrow> err + string" where
  "Render E source value path revision =
     (if \<not> template_ok E source then Inl (ErrText ''invalid template'')
      else (case template_output E source (value, path, revision) of
          None \<Rightarrow> Inl (ErrText ''template rendering failed'')
        | Some b \<Rightarrow> Inr b))"

definition marshal_definition :: "secret_definition \<Rightarrow> string" where
  "marshal_definition d =
     marshal_object
       [(''Path'', marshal_string (de_Path d)), (''Template'', marshal_string (de_Template d)),
        (''Destination'', marshal_string (de_Destination d)), (''Owner'', marshal_string (de_Owner d)),
        (''Group'', marshal_string (de_Group d)), (''Mode'', marshal_string (de_Mode d)),
        (''Command'', marshal_strings (de_Command d)), (''CommandTimeout'', marshal_string (de_CommandTimeout d))]"

definition fingerprint :: "'e env_scheme \<Rightarrow> secret_definition \<Rightarrow> string \<Rightarrow> string" where
  "fingerprint E d source = Hash E (marshal_definition d @ [CHR 0x00] @ source)"

definition template_source :: "'e agent_env_scheme \<Rightarrow> secret_definition \<Rightarrow> ('z agent_world_scheme, string) proc" where
  "template_source E d =
     (if de_Template d = [] then ret []
      else
        andthen (gets (\<lambda>w. FilepathJoin (cf_TemplatesDir (Cfg w)) (de_Template d))) (\<lambda>p.
        andthen (on_error (Lstat E p) (\<lambda>_. ErrText ''template unavailable'')) (\<lambda>st.
        if \<not> is_reg st then throw (ErrText ''template must be a regular file'')
        else on_error (ReadBytes E p) (\<lambda>_. ErrText ''template unavailable''))))"

definition revision_field :: "string \<Rightarrow> json \<Rightarrow> int64 \<Rightarrow> int64 option" where
  "revision_field = field ''revision'' set_int (\<lambda>n. n) (\<lambda>n _. n) skip_field"

text \<open>The answer \<open>data.value\<close> with its revision.\<close>

definition data_fields :: "string \<Rightarrow> json \<Rightarrow> string \<Rightarrow> string option" where
  "data_fields = field ''value'' set_string (\<lambda>s. s) (\<lambda>s _. s) skip_field"

definition value_fields :: "string \<Rightarrow> json \<Rightarrow> string \<times> int64 \<Rightarrow> (string \<times> int64) option" where
  "value_fields =
     field ''data'' (\<lambda>old v. into_struct data_fields v old) fst (\<lambda>s (_, n). (s, n))
    (field ''revision'' set_int snd (\<lambda>n (s, _). (s, n)) skip_field)"

definition recorded :: "string \<Rightarrow> 'z agent_world_scheme \<Rightarrow> applied" where
  "recorded name w = (case applied_state w name of None \<Rightarrow> zero_applied | Some a \<Rightarrow> a)"

definition set_recorded :: "string \<Rightarrow> applied \<Rightarrow> ('z agent_world_scheme, unit) proc" where
  "set_recorded name a = modify (\<lambda>w. w\<lparr>applied_state := (applied_state w)(name \<mapsto> a)\<rparr>)"

definition save :: "'e agent_env_scheme \<Rightarrow> ('z agent_world_scheme, unit) proc" where
  "save E =
     andthen (gets (\<lambda>w. (state_file (Cfg w) ''revisions.json'', applied_state w))) (\<lambda>(p, m).
     AtomicWrite E p (RevisionsFile m) 384 (- 1) (- 1))"

text \<open>Is the file at the destination the one last deployed, with the right mode and owner?\<close>

definition as_deployed :: "'e env_scheme \<Rightarrow> applied \<Rightarrow> nat \<Rightarrow> int \<Rightarrow> int \<Rightarrow> stored_file \<Rightarrow> content \<Rightarrow> bool" where
  "as_deployed E old m uid gid f current \<longleftrightarrow>
     (case current of Bytes b \<Rightarrow> Hash E b = ap_OutputHash old | _ \<Rightarrow> False) \<and>
     f_mode f mod 512 = m \<and> (uid = - 1 \<or> f_uid f = uid) \<and> (gid = - 1 \<or> f_gid f = gid)"

definition deployed ::
  "'e agent_env_scheme \<Rightarrow> secret_definition \<Rightarrow> applied \<Rightarrow> nat \<Rightarrow> int \<Rightarrow> int \<Rightarrow> ('z host_scheme, bool) proc" where
  "deployed E d old m uid gid =
     andthen (attempt (Lstat E (de_Destination d))) (\<lambda>st. case st of
       Inr (Reg f) \<Rightarrow>
         andthen (attempt (ReadFile E (de_Destination d))) (\<lambda>cur. case cur of
           Inl e \<Rightarrow> ret False
         | Inr c \<Rightarrow> ret (as_deployed E old m uid gid f c))
     | _ \<Rightarrow> ret False)"

definition command_timeout :: "'e agent_env_scheme \<Rightarrow> secret_definition \<Rightarrow> int" where
  "command_timeout E d =
     (if de_CommandTimeout d = [] then 30 * 10 ^ 9
      else (case ParseDuration E (de_CommandTimeout d) of None \<Rightarrow> 0 | Some t \<Rightarrow> t))"

definition runCommand :: "'e agent_env_scheme \<Rightarrow> string \<Rightarrow> secret_definition \<Rightarrow> ('z agent_world_scheme, unit) proc" where
  "runCommand E name d =
     (if argv d = [] then ret ()
      else
        andthen (on_error (run_hook (argv d) (command_timeout E d)) (\<lambda>_. ErrText ''post-change command failed'')) (\<lambda>_.
        andthen (gets (recorded name)) (\<lambda>v.
        andthen (set_recorded name (v\<lparr>ap_Pending := False\<rparr>)) (\<lambda>_.
        andthen (attempt (save E)) (\<lambda>r. case r of
          Inr _ \<Rightarrow> ret ()
        | Inl e \<Rightarrow>
            andthen (set_recorded name (v\<lparr>ap_Pending := True\<rparr>)) (\<lambda>_.
            throw (ErrText ''could not persist command completion'')))))))"

text \<open>From the fetched value to the published file, its record, and the hook.\<close>

definition publish_value ::
  "'e agent_env_scheme \<Rightarrow> string \<Rightarrow> secret_definition \<Rightarrow> string \<Rightarrow> nat \<Rightarrow> int \<Rightarrow> int \<Rightarrow> applied \<Rightarrow> string \<Rightarrow> int64
   \<Rightarrow> ('z agent_world_scheme, unit) proc" where
  "publish_value E name d fp m uid gid old data revision =
     andthen ctx_done (\<lambda>cancelled.
     if cancelled then throw (ErrText ''context canceled'')
     else
       andthen (on_error (AtomicWrite E (de_Destination d) (Bytes data) m uid gid)
         (\<lambda>_. ErrText ''atomic destination write failed'')) (\<lambda>_.
       andthen (set_recorded name \<lparr>ap_Revision = revision, ap_Fingerprint = fp, ap_OutputHash = Hash E data,
         ap_Pending = (argv d \<noteq> [])\<rparr>) (\<lambda>_.
       andthen (attempt (save E)) (\<lambda>r. case r of
         Inl e \<Rightarrow>
           andthen (set_recorded name old) (\<lambda>_.
           throw (ErrText ''could not persist revision''))
       | Inr _ \<Rightarrow> if argv d \<noteq> [] then runCommand E name d else ret ()))))"

definition syncOne :: "'e agent_env_scheme \<Rightarrow> string \<Rightarrow> secret_definition \<Rightarrow> ('z agent_world_scheme, unit) proc" where
  "syncOne E name d =
     andthen (template_source E d) (\<lambda>source.
     let fp = fingerprint E d source; path = escape_path (de_Path d) in
     andthen (agent_request (''metadata/'' @ path) ''GET'' [] revision_field 0) (\<lambda>rev.
     if sint rev < 1 then throw (ErrText ''invalid server revision'')
     else
       andthen (lift (parseMode (de_Mode d))) (\<lambda>m.
       andthen (lift (id_of E (de_Owner d) False)) (\<lambda>uid.
       andthen (lift (id_of E (de_Group d) True)) (\<lambda>gid.
       andthen (gets (recorded name)) (\<lambda>old.
       andthen (deployed E d old m uid gid) (\<lambda>current.
       if ap_Revision old = rev \<and> ap_Fingerprint old = fp \<and> current
       then (if ap_Pending old then runCommand E name d else ret ())
       else
         andthen (agent_request (''secrets/'' @ path) ''GET'' [] value_fields ([], 0)) (\<lambda>(value, revision).
         if sint revision < 1 then throw (ErrText ''invalid value revision'')
         else
           andthen (if de_Template d \<noteq> [] then lift (Render E source value (de_Path d) revision) else ret value) (\<lambda>data.
           publish_value E name d fp m uid gid old data revision)))))))))"

section \<open>Polling\<close>

definition definition_failed :: "string \<Rightarrow> string" where
  "definition_failed name = ''definition '' @ name @ '' failed''"

fun sync_each ::
  "'e agent_env_scheme \<Rightarrow> (string \<times> secret_definition) list \<Rightarrow> string list \<Rightarrow> ('z agent_world_scheme, unit) proc" where
  "sync_each E [] failures =
     (if failures = [] then ret () else throw (ErrText (Join failures CHR 0x0A)))"
| "sync_each E ((name, d) # rest) failures =
     andthen ctx_done (\<lambda>cancelled.
     if cancelled then throw (ErrText ''context canceled'')
     else
       andthen (attempt (syncOne E name d)) (\<lambda>r. case r of
         Inl e \<Rightarrow> sync_each E rest (failures @ [definition_failed name])
       | Inr _ \<Rightarrow> sync_each E rest failures))"

definition next_order ::
  "'e agent_env_scheme \<Rightarrow> (string \<times> secret_definition) list
   \<Rightarrow> ('z agent_world_scheme, (string \<times> secret_definition) list) proc" where
  "next_order E defs = (\<lambda>w. (Inr (range_order E (polls w) defs), w\<lparr>polls := Suc (polls w)\<rparr>))"

definition Sync :: "'e agent_env_scheme \<Rightarrow> ('z agent_world_scheme, unit) proc" where
  "Sync E =
     andthen (Enroll E) (\<lambda>_.
     andthen (definitions E) (\<lambda>defs.
     andthen (next_order E defs) (\<lambda>order.
     sync_each E order [])))"

text \<open>
  One round of \<open>Run\<close>: synchronise, look at the context to decide on a warning, then wait for
  the next poll or the cancellation. The result says whether to go on.
\<close>

definition poll_round :: "'e agent_env_scheme \<Rightarrow> 'z agent_world_scheme \<Rightarrow> bool \<times> 'z agent_world_scheme" where
  "poll_round E w =
     (case Sync E w of
        (r, w1) \<Rightarrow>
          let w2 = (case r of Inl e \<Rightarrow> snd (ctx_done w1) | Inr _ \<Rightarrow> w1) in
          (case ctx_done w2 of (x, w3) \<Rightarrow> (x \<noteq> Inr True, w3)))"

text \<open>\<open>None\<close> stands for a loop that never ends.\<close>

partial_function (option) Run :: "'e agent_env_scheme \<Rightarrow> 'z agent_world_scheme \<Rightarrow> 'z agent_world_scheme option" where
  "Run E w = (case poll_round E w of (go_on, w') \<Rightarrow> if go_on then Run E w' else Some w')"

section \<open>A concrete agent for the witnesses\<close>

definition demo_definition :: secret_definition where
  "demo_definition = \<lparr>de_Path = ''app/key'', de_Template = [], de_Destination = ''/run/key'', de_Owner = [],
     de_Group = [], de_Mode = [], de_Command = Some [''/bin/true''], de_CommandTimeout = []\<rparr>"

definition demo_config :: config where
  "demo_config = \<lparr>cf_Server = ''https://ssm'', cf_CAFile = [], cf_EnrollmentToken = [], cf_PollInterval = ''30s'',
     cf_StateDir = ''/st'', cf_TemplatesDir = ''/tp'', cf_SecretsDir = ''/sd'', cf_LogLevel = ''info''\<rparr>"

definition demo_agent_env :: agent_env where
  "demo_agent_env = host_env.extend demo_host_env
     \<lparr>ParseDuration = (\<lambda>s. if s = ''30s'' then Some (30 * 10 ^ 9) else None), yaml_config = (\<lambda>_ _. Some demo_config),
      yaml_definition = (\<lambda>b. if b = ''d'' then Some demo_definition else None),
      parse_url = (\<lambda>s. if s = ''https://ssm'' then Some \<lparr>u_Scheme = ''https'', u_Host = ''ssm'', u_User = None,
        u_Path = [], u_RawQuery = [], u_Fragment = []\<rparr> else None), pem_ok = (\<lambda>_. False), template_ok = (\<lambda>_. True),
      template_output = (\<lambda>_ _. None), range_order = (\<lambda>_ xs. xs)\<rparr>"

definition demo_agent_nodes :: "nat \<rightharpoonup> node" where
  "demo_agent_nodes = map_of
     [(0, demo_dir [(''run'', 1), (''st'', 2), (''sd'', 3)]),
      (1, demo_dir [(''key'', 4)]), (2, demo_dir []), (3, demo_dir [(''a.yaml'', 5)]),
      (4, Reg \<lparr>f_data = Bytes ''old'', f_mode = 384, f_uid = 0, f_gid = 0, f_synced = True\<rparr>),
      (5, Reg \<lparr>f_data = Bytes ''d'', f_mode = 384, f_uid = 0, f_gid = 0, f_synced = True\<rparr>)]"

definition demo_agent_world :: "server_reply list \<Rightarrow> outcome list \<Rightarrow> agent_world" where
  "demo_agent_world rs os = \<lparr>nodes = demo_agent_nodes, next_ino = 6, outcomes = os, crashed = False, drawn = 0,
     Cfg = demo_config, Credentials = \<lparr>cr_ID = ''agent'', cr_Token = ''token''\<rparr>, applied_state = Map.empty,
     replies = rs, sent = [], hooks = [], ran = [], cancel_in = None, polls = 0\<rparr>"

text \<open>What the server says about the secret, and its value.\<close>

definition demo_answers :: "server_reply list" where
  "demo_answers =
     [Answer 200 (marshal_object [(''revision'', ''1'')]),
      Answer 200 (marshal_object [(''data'', marshal_object [(''value'', marshal_string ''new'')]), (''revision'', ''1'')])]"

lemma demo_agent_unused: "unused_above (demo_agent_world rs os)"
  by (simp add: unused_above_def demo_agent_world_def demo_agent_nodes_def)

end
