(* ===== verification/Confine.thy ===== *)
theory Confine
  imports Agent "HOL-Library.Multiset"
begin

text \<open>
  What the agent may touch on its machine: besides its two state files only destinations
  outside its own directories, and its temporary files. The contract of the machine's
  operations is a locale; the agent's procedures follow from it by \<open>intro steps\<close>.
\<close>

section \<open>Relations the machine respects\<close>

locale host_relation = step_relation R for R :: "'z host_scheme \<Rightarrow> 'z host_scheme \<Rightarrow> bool" +
  assumes R_outcomes: "R w (w\<lparr>outcomes := os\<rparr>)"
    and R_crash: "R w (crash w)"
begin

lemma steps_sys:
  assumes "steps R m"
  shows "steps R (sys m)"
proof (rule stepsI, rule wpre_sys, goal_cases)
  case (2 w os)
  show ?case
    using steps_wpre [OF assms, of "w\<lparr>outcomes := os\<rparr>"]
    by (rule wpre_mono) (rule R_trans [OF R_outcomes])
qed (rule R_refl R_outcomes R_trans [OF R_outcomes R_crash])+

lemma steps_read: "(\<And>w. snd (m w) = w) \<Longrightarrow> steps R (sys m)"
  by (rule steps_sys) (simp add: steps_def wpre_def R_refl)

lemma steps_Lstat: "steps R (Lstat E path)"
  unfolding Lstat_def by (rule steps_read) simp

lemma steps_Stat: "steps R (Stat E path)"
  unfolding Stat_def by (rule steps_read) simp

lemma steps_ReadFile: "steps R (ReadFile E path)"
  unfolding ReadFile_def by (rule steps_read) simp

lemma steps_ReadDir: "steps R (ReadDir E path)"
  unfolding ReadDir_def by (rule steps_read) simp

lemma steps_ReadBytes: "steps R (ReadBytes E path)"
  unfolding ReadBytes_def by (rule steps_andthen steps_ReadFile steps_lift)+

lemmas steps_reads = steps_Lstat steps_Stat steps_ReadFile steps_ReadDir steps_ReadBytes

end

text \<open>A successful read leaves the machine as it is and returns what is there.\<close>

lemma node_at_nodes: "nodes w' = nodes w \<Longrightarrow> node_at E w' p b = node_at E w p b"
  by (simp add: node_at_def locate_def cong: sum.case_cong)

lemma sys_read_Inr:
  assumes "sys (\<lambda>w. (f w, w)) w = (Inr v, w')"
  obtains os where "\<not> crashed w'" and "nodes w' = nodes w" and "f (w\<lparr>outcomes := os\<rparr>) = Inr v"
proof (cases "outcomes w")
  case Nil
  have "f w = Inr v" "\<not> crashed w'" "nodes w' = nodes w"
    using assms Nil by (auto simp: sys_def split: if_splits)
  then show ?thesis by (intro that [of "outcomes w"]) simp_all
next
  case (Cons x xs)
  have "f (w\<lparr>outcomes := xs\<rparr>) = Inr v" "\<not> crashed w'" "nodes w' = nodes w"
    using assms Cons by (auto simp: sys_def Let_def split: if_splits outcome.splits)
  then show ?thesis by (intro that)
qed

lemma node_at_outcomes [simp]: "node_at E (w\<lparr>outcomes := os\<rparr>) p b = node_at E w p b"
  by (rule node_at_nodes) simp

lemma Lstat_Inr: "Lstat E p w = (Inr n, w') \<Longrightarrow> \<not> crashed w' \<and> nodes w' = nodes w \<and> node_at E w p False = Inr n"
  unfolding Lstat_def by (erule sys_read_Inr) simp

lemma ReadFile_Inr:
  "ReadFile E p w = (Inr c, w') \<Longrightarrow>
     \<not> crashed w' \<and> nodes w' = nodes w \<and> (\<exists>g. node_at E w p True = Inr (Reg g) \<and> f_data g = c)"
  unfolding ReadFile_def by (erule sys_read_Inr) (auto split: sum.splits node.splits)

lemma ReadDir_Inr: "ReadDir E p w = (Inr es, w') \<Longrightarrow> nodes w' = nodes w"
  unfolding ReadDir_def by (erule sys_read_Inr) simp

text \<open>The machine's operations leave the rest of the world as it is.\<close>

interpretation rest: host_relation "\<lambda>w w'. host.more w' = host.more w"
  by unfold_locales (simp_all add: crash_def)

lemma rest_set_file [simp]: "host.more (set_file i f w) = host.more w"
  by (simp add: set_file_def split: option.split node.split)

lemma rest_set_entries [simp]: "host.more (set_entries d f w) = host.more w"
  by (simp add: set_entries_def split: option.split node.split)

lemma rest_modify: "(\<And>w. host.more (f w) = host.more w) \<Longrightarrow> steps (\<lambda>w w'. host.more w' = host.more w) (modify f)"
  by (rule same.steps_modify)

lemma rest_unlink: "steps (\<lambda>w w'. host.more w' = host.more w) (unlink_at d name)"
  unfolding unlink_at_def by (rule rest.steps_sys) (auto simp: steps_def wpre_def split: sum.split)

lemma rest_fill_temp: "steps (\<lambda>w w'. host.more w' = host.more w) (fill_temp d temp i base data m uid gid)"
  unfolding fill_temp_def write_file_def chown_file_def chmod_file_def sync_file_def rename_at_def
  by (intro steps_if same.steps_andthen rest.steps_sys rest_modify same.steps_ret)
     (auto simp: steps_def wpre_def split: sum.split option.split node.split)

lemma rest_create_temp: "steps (\<lambda>w w'. host.more w' = host.more w) (create_temp E d n)"
proof (induction n)
  case (Suc n)
  have "steps (\<lambda>w w'. host.more w' = host.more w) (create_excl E d temp)" for temp
    unfolding create_excl_def
    by (rule rest.steps_sys) (auto simp: steps_def wpre_def Let_def split: sum.split)
  moreover have "steps (\<lambda>w w'. host.more w' = host.more w) (fresh_name E)"
    by (simp add: steps_def wpre_def fresh_name_def)
  ultimately show ?case
    by (auto intro!: same.steps_andthen same.steps_attempt steps_sum same.steps_ret same.steps_throw Suc)
qed (simp add: same.steps_throw)

lemma rest_open_parents: "steps (\<lambda>w w'. host.more w' = host.more w) (open_parents d parts)"
proof (induction parts arbitrary: d)
  case (Cons p ps)
  have "steps (\<lambda>w w'. host.more w' = host.more w) (open_dir d p)"
    unfolding open_dir_def by (rule rest.steps_read) simp
  then show ?case by (auto intro!: same.steps_andthen same.steps_on_error Cons)
qed (simp add: same.steps_ret)

lemma rest_AtomicWrite: "steps (\<lambda>w w'. host.more w' = host.more w) (AtomicWrite E path data m uid gid)"
proof -
  have via: "steps (\<lambda>w w'. host.more w' = host.more w) (write_via_temp E d base data m uid gid)" for d base
    unfolding write_via_temp_def
  proof (intro same.steps_andthen rest_create_temp, unfold split_beta, rule stepsI)
    fix w v
    show "wpre (deferring (fill_temp d (fst v) (snd v) base data m uid gid) (unlink_at d (fst v)))
        (\<lambda>_ w'. host.more w' = host.more w) w"
      unfolding wpre_deferring
    proof (rule wpre_mono [OF steps_wpre [OF rest_fill_temp]])
      fix w1 assume "host.more w1 = host.more w"
      then show "wpre (unlink_at d (fst v)) (\<lambda>_ w'. host.more w' = host.more w) w1"
        using steps_wpre [OF rest_unlink [of d "fst v"], of w1] by simp
    qed
  qed
  have stat: "steps (\<lambda>w w'. host.more w' = host.more w) (stat_at d base)" for d base
    unfolding stat_at_def by (rule rest.steps_read) simp
  show ?thesis
    unfolding AtomicWrite_def publish_in_def Let_def
    by (intro steps_if steps_sum same.steps_andthen same.steps_attempt same.steps_throw rest.steps_sys same.steps_ret
        rest_open_parents via stat)
qed

lemma rest_world:
  assumes "host.more w' = host.more w"
  shows "Cfg w' = Cfg w" "Credentials w' = Credentials w" "applied_state w' = applied_state w"
    "sent w' = sent w" "ran w' = ran w" "cancel_in w' = cancel_in w" "polls w' = polls w"
    "replies w' = replies w" "hooks w' = hooks w"
  using assms by (cases w; cases w'; simp)+

section \<open>What the agent may change\<close>

text \<open>The only setting a running agent changes is the enrollment token it has used.\<close>

definition same_dirs :: "config \<Rightarrow> config \<Rightarrow> bool" where
  "same_dirs c c' \<longleftrightarrow> c'\<lparr>cf_EnrollmentToken := []\<rparr> = c\<lparr>cf_EnrollmentToken := []\<rparr>"

text \<open>A clean absolute path outside the agent's own directories.\<close>

definition outside_own :: "config \<Rightarrow> string \<Rightarrow> bool" where
  "outside_own c p \<longleftrightarrow> IsAbs p \<and> Clean p = p \<and> p \<noteq> ''/'' \<and> \<not> list_ex (overlaps p) (own_dirs c)"

definition targets :: "config \<Rightarrow> string set \<Rightarrow> string set" where
  "targets c D = {state_file c ''credentials.json'', state_file c ''revisions.json''} \<union> D"

text \<open>Between two worlds of an agent with the directories \<open>c\<close> nothing changed but those files and \<open>D\<close>.\<close>

definition confined_in :: "config \<Rightarrow> string set \<Rightarrow> 'z agent_world_scheme \<Rightarrow> 'z agent_world_scheme \<Rightarrow> bool" where
  "confined_in c D w w' \<longleftrightarrow>
     (same_dirs c (Cfg w) \<longrightarrow> same_dirs c (Cfg w') \<and>
        (unused_above w \<longrightarrow> unused_above w' \<and> evolved (targets c D) (nodes w) (nodes w')))"

lemma same_dirs_refl [simp]: "same_dirs c c"
  by (simp add: same_dirs_def)

lemma same_dirs_state_file: "same_dirs c c' \<Longrightarrow> state_file c' name = state_file c name"
  by (cases c; cases c') (simp add: same_dirs_def state_file_def)

lemma same_dirs_trans: "same_dirs c c' \<Longrightarrow> same_dirs c' c'' \<Longrightarrow> same_dirs c c''"
  by (simp add: same_dirs_def)

lemma crash_confined:
  "unused_above (crash w) = unused_above w" "evolved P (nodes w) (crash_nodes (nodes w))"
  by (simp_all add: unused_above_def aged_None [OF aged_crash [OF aged_refl]] evolved_aged)

interpretation conf: host_relation "confined_in c D" for c D
proof (unfold_locales, goal_cases)
  case (1 w)
  then show ?case by (simp add: confined_in_def evolved_aged)
next
  case (2 w w1 w2)
  then show ?case by (auto simp: confined_in_def intro: evolved_trans)
next
  case (3 w os)
  then show ?case by (simp add: confined_in_def evolved_aged unused_above_def)
next
  case (4 w)
  then show ?case by (simp add: confined_in_def crash_confined) (simp add: crash_def)
qed

lemmas conf_steps = conf.steps_pure conf.steps_combine conf.steps_reads steps_if steps_option steps_sum steps_prod

lemma conf_AtomicWrite:
  assumes "p \<in> targets c D"
  shows "steps (confined_in c D) (AtomicWrite E p data m uid gid :: ('z agent_world_scheme, unit) proc)"
proof (rule stepsI)
  fix w :: "'z agent_world_scheme"
  show "wpre (AtomicWrite E p data m uid gid) (\<lambda>_ w'. confined_in c D w w') w"
  proof (cases "unused_above w")
    case True
    show ?thesis
    proof (rule wpre_mono [OF wpre_conj [OF AtomicWrite_publication [OF True] steps_wpre [OF rest_AtomicWrite]]])
      fix x w'
      assume *: "publication p (published (new_file E) data m uid gid) w x w' \<and> host.more w' = host.more w"
      then have "evolved (targets c D) (nodes w) (nodes w')"
        unfolding publication_def using assms by (blast intro: evolved_mono)
      moreover have "Cfg w' = Cfg w" using * by (blast intro: rest_world(1))
      ultimately show "confined_in c D w w'" using * by (simp add: confined_in_def publication_def)
    qed
  next
    case False
    show ?thesis
    proof (rule wpre_mono [OF steps_wpre [OF rest_AtomicWrite]])
      fix w' assume "host.more w' = host.more w"
      then have "Cfg w' = Cfg w" by (rule rest_world(1))
      with False show "confined_in c D w w'" by (simp add: confined_in_def)
    qed
  qed
qed

text \<open>A step that depends on what it reads from the world, which has the directories \<open>c\<close>.\<close>

lemma conf_gets:
  assumes "\<And>w. same_dirs c (Cfg w) \<Longrightarrow> steps (confined_in c D) (m (g w))"
  shows "steps (confined_in c D) (andthen (gets g) m)"
proof (rule stepsI)
  fix w
  show "wpre (andthen (gets g) m) (\<lambda>_ w'. confined_in c D w w') w"
  proof (cases "same_dirs c (Cfg w)")
    case True
    then show ?thesis using steps_wpre [OF assms] by (simp add: wp)
  next
    case False
    then show ?thesis by (simp add: wpre_def confined_in_def)
  qed
qed

lemma conf_modify:
  "(\<And>w. nodes (f w) = nodes w \<and> next_ino (f w) = next_ino w \<and> same_dirs (Cfg w) (Cfg (f w))) \<Longrightarrow>
     steps (confined_in c D) (modify f)"
proof (rule conf.steps_modify)
  assume *: "\<And>w. nodes (f w) = nodes w \<and> next_ino (f w) = next_ino w \<and> same_dirs (Cfg w) (Cfg (f w))"
  show "confined_in c D w (f w)" for w
    using * [of w] by (auto simp: confined_in_def unused_above_def evolved_aged intro: same_dirs_trans)
qed

lemma conf_ctx_done: "steps (confined_in c D) ctx_done"
  by (rule stepsI)
     (auto simp: wpre_def ctx_done_def confined_in_def unused_above_def evolved_aged split: option.split nat.split)

lemma conf_exchange: "steps (confined_in c D) (exchange call)"
  unfolding exchange_def
  by (rule conf.steps_sys, rule stepsI)
     (auto simp: wpre_def Let_def confined_in_def unused_above_def evolved_aged split: list.split server_reply.split)

lemma conf_run_hook: "steps (confined_in c D) (run_hook args timeout)"
  unfolding run_hook_def
  by (rule conf.steps_sys, rule stepsI)
     (auto simp: wpre_def Let_def confined_in_def unused_above_def evolved_aged split: list.split hook.split)

lemma conf_agent_request: "steps (confined_in c D) (agent_request path method payload fld zero)"
  unfolding agent_request_def by (intro conf_steps conf_exchange)

lemma conf_set_recorded: "steps (confined_in c D) (set_recorded name a)"
  unfolding set_recorded_def by (rule conf_modify) simp

lemma conf_save: "steps (confined_in c D) (save E)"
  unfolding save_def
  by (rule conf_gets) (simp add: conf_AtomicWrite targets_def same_dirs_state_file)

lemma conf_Enroll: "steps (confined_in c D) (Enroll E)"
proof -
  have own: "state_file cfg ''credentials.json'' \<in> targets c D" if "same_dirs c cfg" for cfg
    using that by (simp add: targets_def same_dirs_state_file)
  show ?thesis
    unfolding Enroll_def
  proof (rule conf_gets, rule conf_gets)
    fix w w' assume "same_dirs c (Cfg w')"
    then show "steps (confined_in c D) (if cr_Token (Credentials w) \<noteq> [] then modify (\<lambda>w. w\<lparr>Cfg := (Cfg w)\<lparr>cf_EnrollmentToken := []\<rparr>\<rparr>)
       else if cf_EnrollmentToken (Cfg w') = [] then throw (ErrText ''enrollment token required'')
       else andthen (agent_request ''enroll'' ''POST''
         (marshal_object [(''token'', marshal_string (cf_EnrollmentToken (Cfg w')))]) credentials_fields zero_credentials) (\<lambda>cr.
       if cr_ID cr = [] \<or> cr_Token cr = [] then throw (ErrText ''invalid enrollment response'')
       else andthen (on_error (AtomicWrite E (state_file (Cfg w') ''credentials.json'') (CredentialsFile cr) 384 (- 1) (- 1))
           (\<lambda>_. ErrText ''could not persist runtime credential; create a new agent enrollment'')) (\<lambda>_.
         modify (\<lambda>w. w\<lparr>Credentials := cr, Cfg := (Cfg w)\<lparr>cf_EnrollmentToken := []\<rparr>\<rparr>))))"
      by (intro conf_steps conf_agent_request conf_AtomicWrite own conf_modify) (simp_all add: same_dirs_def)
  qed
qed

lemma conf_runCommand: "steps (confined_in c D) (runCommand E name d)"
  unfolding runCommand_def by (intro conf_steps conf_run_hook conf_set_recorded conf_save)

lemma conf_syncOne:
  assumes "de_Destination d \<in> targets c D"
  shows "steps (confined_in c D) (syncOne E name d)"
proof -
  have "steps (confined_in c D) (template_source E d)"
    unfolding template_source_def by (intro conf_steps)
  moreover have "steps (confined_in c D) (deployed E d old m uid gid)" for old m uid gid
    unfolding deployed_def by (intro conf_steps steps_sum) (auto intro!: conf_steps split: node.split)
  moreover have "steps (confined_in c D) (publish_value E name d fp m uid gid old data rev)" for fp m uid gid old data rev
    unfolding publish_value_def
    by (intro conf_steps conf_ctx_done conf_AtomicWrite assms conf_set_recorded conf_save conf_runCommand)
  ultimately show ?thesis
    unfolding syncOne_def Let_def
    by (intro conf_steps conf_agent_request conf_runCommand)
qed

section \<open>Accepted definitions\<close>

text \<open>What every accepted definition satisfies.\<close>

definition sound_definition :: "'e agent_env_scheme \<Rightarrow> config \<Rightarrow> secret_definition \<Rightarrow> bool" where
  "sound_definition E cfg d \<longleftrightarrow>
     Normalize (de_Path d) = Inr (de_Path d) \<and> outside_own cfg (de_Destination d) \<and>
     (de_Template d = [] \<or> Base (de_Template d) = de_Template d \<and> HasSuffix (de_Template d) ''.templ'') \<and>
     (argv d = [] \<or> IsAbs (hd (argv d))) \<and> 0 < command_timeout E d \<and>
     (\<exists>m\<le>511. parseMode (de_Mode d) = Inr m)"

lemma Normalize_self: "Normalize p = Inr q \<Longrightarrow> q = p"
  by (auto simp: Normalize_def split: if_splits)

lemma parseMode_bound: "parseMode s = Inr m \<Longrightarrow> m \<le> 511"
  by (auto simp: parseMode_def split: if_splits option.splits)

lemma check_definition_Inr:
  assumes "check_definition E cfg earlier d = Inr u"
  shows "sound_definition E cfg d" and "de_Destination d \<notin> set earlier"
proof -
  have step: "(if c then Inl e else r) = Inr u \<longleftrightarrow> \<not> c \<and> r = Inr u" for c and e :: err and r :: "err + unit"
    by simp
  obtain q where q: "Normalize (de_Path d) = Inr q"
    using assms by (cases "Normalize (de_Path d)") (simp_all add: check_definition_def)
  note checks = assms [unfolded check_definition_def q sum.case step]
  from checks show "de_Destination d \<notin> set earlier" by simp
  have "0 < command_timeout E d"
    using checks by (auto simp: command_timeout_def split: option.splits)
  moreover have "\<exists>m\<le>511. parseMode (de_Mode d) = Inr m"
    using checks parseMode_bound by (auto split: sum.splits)
  ultimately show "sound_definition E cfg d"
    using checks q Normalize_self [OF q] by (auto simp: sound_definition_def outside_own_def)
qed

definition all_sound :: "'e agent_env_scheme \<Rightarrow> config \<Rightarrow> (string \<times> secret_definition) list \<Rightarrow> bool" where
  "all_sound E cfg defs \<longleftrightarrow>
     distinct (map (\<lambda>(n, d). de_Destination d) defs) \<and>
     (\<forall>(n, d)\<in>set defs. HasSuffix n ''.yaml'' \<and> sound_definition E cfg d)"

lemma read_definitions_sound:
  "all_sound E cfg out \<Longrightarrow> answers (all_sound E cfg) (read_definitions E cfg listing out)"
proof (induction listing arbitrary: out)
  case (Cons entry rest)
  show ?case
  proof (cases "passed_over entry \<or> (case snd entry of Link t \<Rightarrow> True | _ \<Rightarrow> False)")
    case True
    then show ?thesis using Cons by (auto intro: answers_throw)
  next
    case False
    then have next_entry: "read_definitions E cfg (entry # rest) out =
        andthen (ReadBytes E (FilepathJoin (cf_SecretsDir cfg) (fst entry))) (\<lambda>b.
        case yaml_definition E b of
          None \<Rightarrow> throw (ErrText ''invalid secret definition'')
        | Some d \<Rightarrow>
            andthen (lift (check_definition E cfg (map (\<lambda>(n, d). de_Destination d) out) d)) (\<lambda>_.
            read_definitions E cfg rest (out @ [(fst entry, d)])))"
      by simp
    have checked: "answers (\<lambda>_. check_definition E cfg earlier d = Inr ()) (lift (check_definition E cfg earlier d))"
      for earlier d by (simp add: answers_def lift_def)
    show ?thesis
      unfolding next_entry
    proof (rule answers_andthen, rule answers_option, rule answers_throw, rule answers_through [OF checked], goal_cases)
      case (1 b d u)
      have "all_sound E cfg (out @ [(fst entry, d)])"
        using check_definition_Inr [OF 1(2)] Cons.prems False by (auto simp: all_sound_def passed_over_def)
      then show ?case by (rule Cons.IH)
    qed
  qed
qed (simp add: answers_ret)

text \<open>Overlap is a matter of whole path components.\<close>

lemma overlaps_Split: "overlaps p dir \<longleftrightarrow> prefix (Split (Clean dir) slash) (Split p slash)"
proof -
  define q where "q = Clean dir"
  have "HasPrefix p (q @ ''/'') \<longleftrightarrow> (\<exists>rest. rest \<noteq> [] \<and> Split p slash = Split q slash @ rest)"
    unfolding HasPrefix_def by (rule prefix_sep_iff_Split)
  moreover have "p = q \<longleftrightarrow> Split p slash = Split q slash @ []"
    by (simp add: Split_inject)
  ultimately show ?thesis
    unfolding overlaps_def q_def [symmetric] prefix_def by metis
qed

text \<open>The agent accepts only sound definitions: the secret's path is canonical, the
  destination is a clean absolute path that shares no directory with the agent's state,
  templates, definitions or configuration (none of these is, component by component, a prefix
  of it), templates are plain \<open>.templ\<close> names, commands are absolute and their timeouts
  positive, modes are permissions; and no two definitions have the same destination.\<close>

theorem definitions_sound:
  assumes "definitions E w = (Inr defs, w')"
  shows "distinct (map (\<lambda>(n, d). de_Destination d) defs) \<and>
    (\<forall>(n, d)\<in>set defs. HasSuffix n ''.yaml'' \<and> sound_definition E (Cfg w) d \<and>
      (\<forall>dir\<in>set (own_dirs (Cfg w)). \<not> prefix (Split (Clean dir) slash) (Split (de_Destination d) slash)))"
proof -
  have "answers (all_sound E (Cfg w)) (andthen (ReadDir E (cf_SecretsDir (Cfg w))) (\<lambda>es. read_definitions E (Cfg w) es []))"
    by (intro answers_andthen read_definitions_sound) (simp add: all_sound_def)
  moreover have "definitions E w = andthen (ReadDir E (cf_SecretsDir (Cfg w))) (\<lambda>es. read_definitions E (Cfg w) es []) w"
    by (simp add: definitions_def andthen_def gets_def)
  ultimately have "all_sound E (Cfg w) defs"
    using assms by (metis answersD)
  then show ?thesis
    by (auto simp: all_sound_def sound_definition_def outside_own_def list_ex_iff overlaps_Split)
qed

lemma demo_listing:
  "ReadDir demo_agent_env ''/sd'' (demo_agent_world rs []) =
     (Inr [(''a.yaml'', the (demo_agent_nodes 5))], demo_agent_world rs [])"
proof -
  have "node_at demo_agent_env (demo_agent_world rs []) ''/sd'' True = Inr (demo_dir [(''a.yaml'', 5)])"
    by (simp add: node_at_def locate_def demo_agent_world_def demo_agent_nodes_def demo_dir_def IsAbs_def HasPrefix_def)
  then show ?thesis
    by (simp add: ReadDir_def sys_def demo_dir_def) (simp add: demo_agent_world_def demo_agent_nodes_def)
qed

lemma demo_defined: "definitions demo_agent_env (demo_agent_world rs []) = (Inr [(''a.yaml'', demo_definition)], demo_agent_world rs [])"
proof -
  have check: "check_definition demo_agent_env demo_config [] demo_definition = Inr ()" by code_simp
  have suffix: "HasSuffix ''a.yaml'' ''.yaml''" by code_simp
  have path: "FilepathJoin ''/sd'' ''a.yaml'' = ''/sd/a.yaml''" by code_simp
  have content: "ReadBytes demo_agent_env ''/sd/a.yaml'' (demo_agent_world rs []) = (Inr ''d'', demo_agent_world rs [])"
    by (simp add: ReadBytes_def ReadFile_def sys_def andthen_def lift_def file_bytes_def node_at_def locate_def
        demo_agent_world_def demo_agent_nodes_def demo_dir_def IsAbs_def HasPrefix_def)
  have cfg: "Cfg (demo_agent_world rs []) = demo_config" "cf_SecretsDir demo_config = ''/sd''"
    by (simp_all add: demo_agent_world_def demo_config_def)
  have yaml: "yaml_definition demo_agent_env ''d'' = Some demo_definition"
    by (simp add: demo_agent_env_def host_env.defs)
  have node: "the (demo_agent_nodes 5) = Reg \<lparr>f_data = Bytes ''d'', f_mode = 384, f_uid = 0, f_gid = 0, f_synced = True\<rparr>"
    by (simp add: demo_agent_nodes_def)
  show ?thesis
    by (simp add: definitions_def andthen_def gets_def cfg demo_listing passed_over_def suffix node path content yaml
        check lift_def ret_def)
qed

section \<open>A whole poll\<close>

text \<open>
  The definitions a poll works on: those it reads, once it is enrolled, from its definitions
  directory. Each was accepted, and is what the decoder makes of a file \<open>*.yaml\<close> there.
\<close>

definition polled :: "'e agent_env_scheme \<Rightarrow> 'z agent_world_scheme \<Rightarrow> (string \<times> secret_definition) list" where
  "polled E w =
     (case Enroll E w of
        (Inl e, w1) \<Rightarrow> []
      | (Inr u, w1) \<Rightarrow> (case definitions E w1 of (Inl e, w2) \<Rightarrow> [] | (Inr defs, w2) \<Rightarrow> defs))"

definition defined_in :: "'e agent_env_scheme \<Rightarrow> config \<Rightarrow> 'z host_scheme \<Rightarrow> string \<Rightarrow> secret_definition \<Rightarrow> bool" where
  "defined_in E c w n d \<longleftrightarrow>
     (\<exists>f b. node_at E w (FilepathJoin (cf_SecretsDir c) n) True = Inr (Reg f) \<and> f_data f = Bytes b \<and>
        yaml_definition E b = Some d)"

definition local_definition ::
  "'e agent_env_scheme \<Rightarrow> config \<Rightarrow> 'z host_scheme \<Rightarrow> string \<Rightarrow> secret_definition \<Rightarrow> bool" where
  "local_definition E c w n d \<longleftrightarrow>
     HasSuffix n ''.yaml'' \<and> defined_in E c w n d \<and> sound_definition E c d"

lemma sound_same_dirs: "same_dirs c c' \<Longrightarrow> sound_definition E c' d = sound_definition E c d"
  by (cases c; cases c') (simp add: same_dirs_def sound_definition_def outside_own_def own_dirs_def)

lemma read_definitions_read:
  assumes "read_definitions E c listing out w1 = (Inr defs, w2)" and "nodes w1 = nodes w"
    and "\<And>n d. (n, d) \<in> set out \<Longrightarrow> defined_in E c w n d" and "(n, d) \<in> set defs"
  shows "defined_in E c w n d"
  using assms
proof (induction listing arbitrary: out w1)
  case (Cons entry rest)
  show ?case
  proof (cases "passed_over entry")
    case True
    then show ?thesis using Cons by auto
  next
    case False
    obtain c0 b s d0 where r: "ReadFile E (FilepathJoin (cf_SecretsDir c) (fst entry)) w1 = (Inr c0, s)"
        "file_bytes c0 = Inr b" "yaml_definition E b = Some d0"
        "read_definitions E c rest (out @ [(fst entry, d0)]) s = (Inr defs, w2)"
      using Cons.prems(1) False by (auto simp: did ReadBytes_def split: if_splits option.splits)
    obtain g where g: "nodes s = nodes w" "node_at E w (FilepathJoin (cf_SecretsDir c) (fst entry)) True = Inr (Reg g)" "f_data g = c0"
      using ReadFile_Inr [OF r(1)] Cons.prems(2) by (auto simp: node_at_nodes [of w1 w])
    have "defined_in E c w (fst entry) d0"
      using g(2,3) r(2,3) by (auto simp: defined_in_def file_bytes_def split: content.splits)
    then show ?thesis
      by (intro Cons.IH [OF r(4) g(1)] Cons.prems(4)) (auto intro: Cons.prems(3))
  qed
qed (simp add: did)

lemma Enroll_dirs: "same_dirs (Cfg w) (Cfg (snd (Enroll E w)))"
proof -
  have "confined_in (Cfg w) {} w (snd (Enroll E w))"
    by (rule stepsD [OF conf_Enroll prod.collapse [symmetric]])
  then show ?thesis by (simp add: confined_in_def)
qed

lemma polled_local:
  assumes "(n, d) \<in> set (polled E w)"
  shows "local_definition E (Cfg w) (snd (Enroll E w)) n d"
proof -
  obtain u w1 defs w2 where e: "Enroll E w = (Inr u, w1)" and r: "definitions E w1 = (Inr defs, w2)" and n: "(n, d) \<in> set defs"
    using assms unfolding polled_def
    by (cases "Enroll E w", cases "definitions E (snd (Enroll E w))") (auto split: sum.splits)
  have dirs: "same_dirs (Cfg w) (Cfg w1)" using Enroll_dirs [of w E] e by simp
  then have sd: "cf_SecretsDir (Cfg w1) = cf_SecretsDir (Cfg w)"
    by (cases "Cfg w"; cases "Cfg w1") (simp add: same_dirs_def)
  obtain es s where es: "ReadDir E (cf_SecretsDir (Cfg w1)) w1 = (Inr es, s)"
      and defs: "read_definitions E (Cfg w1) es [] s = (Inr defs, w2)"
    using r by (auto simp: definitions_def did)
  have "nodes s = nodes w1" by (rule ReadDir_Inr [OF es])
  then have "defined_in E (Cfg w1) w1 n d" by (rule read_definitions_read [OF defs _ _ n]) simp
  moreover have "HasSuffix n ''.yaml''" "sound_definition E (Cfg w) d"
    using definitions_sound [OF r] n by (auto simp: sound_same_dirs [OF dirs])
  ultimately show ?thesis using e by (simp add: local_definition_def defined_in_def sd)
qed

text \<open>A poll respects a relation that enrolling, reading the definitions and synchronising those
  it has read respect.\<close>

lemma Sync_respects:
  assumes R: "step_relation R" and enroll: "steps R (Enroll E)" and defs: "steps R (definitions E)"
    and order: "\<And>defs. steps R (next_order E defs)"
    and each: "\<And>k. steps R (sync_each E (range_order E k (polled E w)) [])"
    and run: "Sync E w = (r, w')"
  shows "R w w'"
proof (cases "Enroll E w")
  case e: (Pair r1 w1)
  have 1: "R w w1" by (rule stepsD [OF enroll e])
  note trans = step_relation.R_trans [OF R]
  show ?thesis
  proof (cases r1)
    case Inl
    then show ?thesis using run e 1 by (simp add: Sync_def andthen_def)
  next
    case u: (Inr u)
    show ?thesis
    proof (cases "definitions E w1")
      case d: (Pair r2 w2)
      have 2: "R w w2" by (rule trans [OF 1 stepsD [OF defs d]])
      show ?thesis
      proof (cases r2)
        case Inl
        then show ?thesis using run e u d 2 by (simp add: Sync_def andthen_def)
      next
        case ds: (Inr ds)
        have p: "polled E w = ds" using e u d ds by (simp add: polled_def)
        define w3 where "w3 = snd (next_order E ds w2)"
        have "R w2 w3" unfolding w3_def by (rule stepsD [OF order prod.collapse [symmetric]])
        moreover have "sync_each E (range_order E (polls w2) (polled E w)) [] w3 = (r, w')"
          using run e u d ds by (simp add: p Sync_def andthen_def next_order_def w3_def)
        ultimately show ?thesis using trans [OF 2 trans [OF _ stepsD [OF each]]] by blast
      qed
    qed
  qed
qed

lemma conf_sync_each:
  "(\<And>n d. (n, d) \<in> set defs \<Longrightarrow> de_Destination d \<in> targets c D) \<Longrightarrow> steps (confined_in c D) (sync_each E defs failures)"
proof (induction defs arbitrary: failures)
  case (Cons x defs)
  then show ?case
    by (cases x) (auto intro!: conf_steps conf_ctx_done conf_syncOne)
qed (auto intro: conf_steps)

text \<open>A range visits nothing but the map's own entries.\<close>

definition range_law :: "'e agent_env_scheme \<Rightarrow> bool" where
  "range_law E \<longleftrightarrow> (\<forall>k xs. mset (range_order E k xs) = mset xs)"

lemma range_set: "range_law E \<Longrightarrow> set (range_order E k xs) = set xs"
  by (auto simp: range_law_def dest: mset_eq_setD)

lemma conf_definitions: "steps (confined_in c D) (definitions E)"
proof -
  have "steps (confined_in c D) (read_definitions E cfg listing out)" for cfg listing out
  proof (induction listing arbitrary: out)
    case (Cons entry rest)
    then show ?case by (auto intro!: conf_steps)
  qed (simp add: conf_steps)
  then show ?thesis unfolding definitions_def by (intro conf_steps)
qed

lemma conf_next_order: "steps (confined_in c D) (next_order E defs)"
  by (rule stepsI) (simp add: wpre_def next_order_def confined_in_def unused_above_def evolved_aged)

text \<open>The destinations of the definitions a poll has read.\<close>

definition destinations :: "'e agent_env_scheme \<Rightarrow> 'z agent_world_scheme \<Rightarrow> string set" where
  "destinations E w = {de_Destination d |n d. (n, d) \<in> set (polled E w)}"

lemma conf_Sync:
  assumes "range_law E" and "Sync E w = (r, w')"
  shows "confined_in c (destinations E w) w w'"
proof (rule Sync_respects [OF _ conf_Enroll conf_definitions conf_next_order _ assms(2)])
  show "step_relation (confined_in c (destinations E w))" by unfold_locales
  show "steps (confined_in c (destinations E w)) (sync_each E (range_order E k (polled E w)) [])" for k
    by (rule conf_sync_each) (auto simp: range_set [OF assms(1)] destinations_def targets_def)
qed

text \<open>C23: Whatever the server answers, whatever fails and wherever the machine crashes, a poll
  itself publishes nowhere but where its administrator said: on the whole machine it replaces
  only the agent's two state files and the destinations of the definitions it has just read,
  and each of these is what the decoder made of a regular file \<open>*.yaml\<close> of the definitions
  directory and was accepted: its destination is a clean absolute path outside the agent's own
  directories. No file that existed changes its content (a target gets a new file, put in
  place by one rename), no directory or symbolic link is touched, and apart from the targets
  and the agent's temporary names every directory entry stays as it is. What the hooks that a
  poll runs do to files is their own affair and outside the model.\<close>

theorem Sync_confined:
  assumes "range_law E" and "unused_above w" and "Sync E w = (r, w')"
  shows "evolved ({state_file (Cfg w) ''credentials.json'', state_file (Cfg w) ''revisions.json''} \<union>
      {de_Destination d |n d. (n, d) \<in> set (polled E w)}) (nodes w) (nodes w') \<and>
    same_dirs (Cfg w) (Cfg w') \<and>
    (\<forall>(n, d)\<in>set (polled E w). HasSuffix n ''.yaml'' \<and> outside_own (Cfg w) (de_Destination d) \<and>
       (\<exists>f b. node_at E (snd (Enroll E w)) (FilepathJoin (cf_SecretsDir (Cfg w)) n) True = Inr (Reg f) \<and>
          f_data f = Bytes b \<and> yaml_definition E b = Some d))"
proof -
  have "confined_in (Cfg w) (destinations E w) w w'" by (rule conf_Sync [OF assms(1,3)])
  moreover have "local_definition E (Cfg w) (snd (Enroll E w)) n d" if "(n, d) \<in> set (polled E w)" for n d
    using that by (rule polled_local)
  ultimately show ?thesis
    using assms(2)
    by (fastforce simp: confined_in_def targets_def destinations_def local_definition_def defined_in_def sound_definition_def)
qed

lemma demo_range: "range_law demo_agent_env"
  by (simp add: range_law_def demo_agent_env_def host_env.defs)

lemma demo_polled: "polled demo_agent_env (demo_agent_world rs []) = [(''a.yaml'', demo_definition)]"
proof -
  let ?w = "demo_agent_world rs []"
  let ?w1 = "?w\<lparr>Cfg := (Cfg ?w)\<lparr>cf_EnrollmentToken := []\<rparr>\<rparr>"
  have same: "?w1 = ?w" by (simp add: demo_agent_world_def demo_config_def)
  have "Enroll demo_agent_env ?w = (Inr (), ?w1)"
    by (simp add: Enroll_def andthen_def gets_def modify_def) (simp add: demo_agent_world_def)
  then show ?thesis by (simp add: polled_def same demo_defined)
qed

lemma demo_world: "Cfg (demo_agent_world rs os) = demo_config" "nodes (demo_agent_world rs os) = demo_agent_nodes"
    "de_Destination demo_definition = ''/run/key''"
  by (simp_all add: demo_agent_world_def demo_definition_def)

lemma Sync_confined_witness:
  "evolved {state_file demo_config ''credentials.json'', state_file demo_config ''revisions.json'', ''/run/key''}
     demo_agent_nodes (nodes (snd (Sync demo_agent_env (demo_agent_world demo_answers []))))"
  using Sync_confined [OF demo_range demo_agent_unused prod.collapse [symmetric], of demo_answers "[]"]
  by (simp add: demo_polled demo_world insert_commute)

end
