(* ===== verification/Journal.thy ===== *)
theory Journal
  imports Confine
begin

text \<open>
  What the agent has on disk: the revision journal, and a file at a destination, both as a
  crash would leave them; how a publication changes one and leaves the other alone.
\<close>

section \<open>Directories form a tree\<close>

definition tree :: "(nat \<rightharpoonup> node) \<Rightarrow> bool" where
  "tree ns \<longleftrightarrow> (\<forall>p q k. walk ns 0 p = Some k \<longrightarrow> walk ns 0 q = Some k \<longrightarrow> p = q)"

lemma tree_evolved: "evolved P ns ns' \<Longrightarrow> tree ns' = tree ns"
  by (simp add: tree_def evolved_walk)

lemma path_parts_not_Nil [simp]: "path_parts p \<noteq> []"
  by (simp add: path_parts_def)

text \<open>Different paths are different entries.\<close>

definition apart :: "(nat \<rightharpoonup> node) \<Rightarrow> string \<Rightarrow> string \<Rightarrow> bool" where
  "apart ns p q \<longleftrightarrow> (\<forall>k. parent ns p = Some k \<longrightarrow> parent ns q = Some k \<longrightarrow> leaf_name p \<noteq> leaf_name q)"

lemma tree_apart:
  assumes "tree ns" and "path_parts p \<noteq> path_parts q"
  shows "apart ns p q"
  unfolding apart_def
proof (intro allI impI notI)
  fix k assume "parent ns p = Some k" "parent ns q = Some k" "leaf_name p = leaf_name q"
  then have "butlast (path_parts p) = butlast (path_parts q)" and "last (path_parts p) = last (path_parts q)"
    using assms(1) by (auto simp: tree_def parent_def leaf_name_def)
  then show False
    using assms(2) append_butlast_last_id [of "path_parts p"] append_butlast_last_id [of "path_parts q"] by simp
qed

lemma apart_sym: "apart ns p q \<Longrightarrow> apart ns q p"
  by (auto simp: apart_def)

lemma apart_evolved: "evolved P ns ns' \<Longrightarrow> apart ns' p q = apart ns p q"
  by (simp add: apart_def evolved_parent)

section \<open>State files\<close>

lemma foldl_clean_step_last:
  "plain_part b \<Longrightarrow> hd (foldl (clean_step True) out (parts @ [b])) = b \<and> foldl (clean_step True) out (parts @ [b]) \<noteq> []"
  by (auto simp: clean_step_def plain_part_def)

text \<open>Joining an absolute directory and a plain name gives a clean path to that name.\<close>

lemma FilepathJoin_plain:
  assumes "IsAbs a" and "plain_part b"
  shows "leaf_name (FilepathJoin a b) = b" and "list_all plain_part (path_parts (FilepathJoin a b))"
    and "FilepathJoin a b = slash # Join (path_parts (FilepathJoin a b)) slash"
proof -
  define xs where "xs = rev (foldl (clean_step True) [] (Split (a @ ''/'' @ b) slash))"
  have ne: "a \<noteq> []" using assms(1) by (auto simp: IsAbs_def HasPrefix_def)
  have abs: "HasPrefix (a @ ''/'' @ b) ''/''"
    using assms(1) ne by (cases a) (auto simp: IsAbs_def HasPrefix_step)
  have join: "FilepathJoin a b = slash # Join xs slash"
    unfolding FilepathJoin_def Clean_def xs_def using ne abs by (simp add: Let_def)
  have ok: "list_all plain_part xs"
    unfolding xs_def list_all_rev by (rule foldl_clean_step) (simp_all add: Split_parts)
  have "Split (a @ ''/'' @ b) slash = Split a slash @ [b]"
    using assms(2) by (simp add: Split_append Split_no_sep plain_part_def)
  then have last: "xs \<noteq> []" "last xs = b"
    unfolding xs_def using foldl_clean_step_last [OF assms(2), of "[]" "Split a slash"]
    by (simp_all add: last_rev)
  have parts: "path_parts (FilepathJoin a b) = xs"
    using ok last(1)
    by (simp add: path_parts_def join TrimPrefix_def HasPrefix_step Split_Join list_all_iff plain_part_def)
  show "leaf_name (FilepathJoin a b) = b" by (simp add: leaf_name_def parts last)
  show "list_all plain_part (path_parts (FilepathJoin a b))" by (simp add: parts ok)
  show "FilepathJoin a b = slash # Join (path_parts (FilepathJoin a b)) slash"
    unfolding parts by (rule join)
qed

section \<open>What survives\<close>

text \<open>A synced file at a path.\<close>

definition synced_at :: "(nat \<rightharpoonup> node) \<Rightarrow> string \<Rightarrow> stored_file \<Rightarrow> bool" where
  "synced_at ns p f \<longleftrightarrow> (\<exists>i. dest ns p = Some i \<and> ns i = Some (Reg f) \<and> f_synced f)"

text \<open>The revisions a restarted agent would read from a path; none yet if there is no file.\<close>

definition journal :: "(nat \<rightharpoonup> node) \<Rightarrow> string \<Rightarrow> (string \<rightharpoonup> applied) option" where
  "journal ns p =
     (case dest ns p of
        None \<Rightarrow> Some Map.empty
      | Some i \<Rightarrow>
          (case ns i of
             Some (Reg f) \<Rightarrow> if f_synced f then read_revisions (f_data f) else None
           | _ \<Rightarrow> None))"

lemma evolved_dest:
  assumes ev: "evolved P ns ns'" and other: "\<And>q. q \<in> P \<Longrightarrow> apart ns p q" and "\<not> temporary (leaf_name p)"
  shows "dest ns' p = dest ns p"
proof (cases "parent ns p")
  case None
  then show ?thesis by (simp add: dest_parent evolved_parent [OF ev])
next
  case (Some k)
  have fixed: "\<not> entry_may_change P ns k (leaf_name p)"
    using assms(3) other Some by (auto simp: entry_may_change_def apart_def)
  show ?thesis
  proof (cases "\<exists>q es. ns k = Some (Directory q es)")
    case True
    then obtain q es where k: "ns k = Some (Directory q es)" by blast
    obtain es' where "ns' k = Some (Directory q es')" and "es' (leaf_name p) = es (leaf_name p)"
      using evolved_directory [OF ev k] fixed by metis
    with Some k show ?thesis by (simp add: dest_parent evolved_parent [OF ev])
  next
    case False
    then have "ns' k \<noteq> Some (Directory q es)" for q es
      using evolved_not_Directory [OF ev, of k] by blast
    with False Some show ?thesis
      by (auto simp: dest_parent evolved_parent [OF ev] split: option.split node.split)
  qed
qed

lemma evolved_reg:
  assumes "evolved P ns ns'" and "ns i = Some (Reg f)" and "f_synced f"
  shows "ns' i = Some (Reg f)"
proof -
  have "ns' i = Some (Reg f) \<or> ns' i = Some (crash_node (Reg f))"
    using evolved_other [OF assms(1), of i] assms(2) by simp
  with assms(3) show ?thesis by simp
qed

lemma evolved_synced:
  "evolved P ns ns' \<Longrightarrow> dest ns' p = dest ns p \<Longrightarrow> synced_at ns p f \<Longrightarrow> synced_at ns' p f"
  by (auto simp: synced_at_def dest: evolved_reg)

lemma evolved_journal:
  "evolved P ns ns' \<Longrightarrow> dest ns' p = dest ns p \<Longrightarrow> journal ns p = Some m \<Longrightarrow> journal ns' p = Some m"
  by (auto simp: journal_def dest: evolved_reg split: option.splits node.splits if_splits)

lemma synced_journal: "synced_at ns p f \<Longrightarrow> f_data f = RevisionsFile m \<Longrightarrow> journal ns p = Some m"
  by (auto simp: synced_at_def journal_def read_revisions_def)

lemma synced_unique: "synced_at ns p f \<Longrightarrow> synced_at ns p g \<Longrightarrow> g = f"
  by (auto simp: synced_at_def)

lemma wpre_publish:
  assumes "unused_above w" and "\<not> temporary (leaf_name p)"
    and "\<And>x w'. host.more w' = host.more w \<Longrightarrow> unused_above w' \<Longrightarrow> evolved {p} (nodes w) (nodes w') \<Longrightarrow>
       x \<noteq> Inr () \<and> dest (nodes w') p = dest (nodes w) p \<or>
         synced_at (nodes w') p (published (new_file E) data m uid gid) \<Longrightarrow> Q x w'"
  shows "wpre (AtomicWrite E p data m uid gid) Q w"
proof (rule wpre_mono [OF wpre_conj [OF AtomicWrite_publication [OF assms(1)] steps_wpre [OF rest_AtomicWrite]]])
  fix x w'
  assume *: "publication p (published (new_file E) data m uid gid) w x w' \<and> host.more w' = host.more w"
  then have "x \<noteq> Inr () \<and> dest (nodes w') p = dest (nodes w) p \<or>
      synced_at (nodes w') p (published (new_file E) data m uid gid)"
    using assms(2) by (auto simp: publication_def synced_at_def published_def)
  with * show "Q x w'" by (intro assms(3)) (auto simp: publication_def)
qed

section \<open>Steps that publish nothing\<close>

definition quiet :: "'z agent_world_scheme \<Rightarrow> 'z agent_world_scheme \<Rightarrow> bool" where
  "quiet w w' \<longleftrightarrow> aged (nodes w) (nodes w') \<and> (crashed w \<longrightarrow> crashed w') \<and>
     (\<not> crashed w' \<longrightarrow> nodes w' = nodes w) \<and> next_ino w' = next_ino w \<and> Cfg w' = Cfg w \<and>
     applied_state w' = applied_state w \<and> ran w' = ran w"

lemma aged_trans: "aged a b \<Longrightarrow> aged b c \<Longrightarrow> aged a c"
  by (auto simp: aged_def)

interpretation calm: host_relation quiet
proof (unfold_locales, goal_cases)
  case (2 w w1 w2)
  then show ?case by (auto simp: quiet_def intro: aged_trans)
qed (simp_all add: quiet_def crash_def)

lemmas quiet_steps = calm.steps_pure calm.steps_combine calm.steps_reads steps_if steps_option steps_sum steps_prod

lemma quiet_ctx_done: "steps quiet ctx_done"
  by (rule stepsI) (auto simp: wpre_def ctx_done_def quiet_def split: option.split nat.split)

lemma quiet_agent_request: "steps quiet (agent_request path method payload fld zero)"
proof -
  have "steps quiet (exchange call)" for call
    unfolding exchange_def
    by (rule calm.steps_sys, rule stepsI)
       (auto simp: wpre_def Let_def quiet_def split: list.split server_reply.split)
  then show ?thesis unfolding agent_request_def by (intro quiet_steps)
qed

lemma quiet_template_source: "steps quiet (template_source E d)"
  unfolding template_source_def by (intro quiet_steps)

lemma quiet_deployed: "steps quiet (deployed E d old m uid gid)"
  unfolding deployed_def by (intro quiet_steps) (auto intro!: quiet_steps split: node.split)

lemma unused_above_aged: "aged (nodes w) (nodes w') \<Longrightarrow> next_ino w' = next_ino w \<Longrightarrow> unused_above w' = unused_above w"
  by (simp add: unused_above_def aged_None)

section \<open>The agent between two steps\<close>

text \<open>The machine in order, the state directory absolute, and memory agreeing with the journal.\<close>

definition revisions_file :: "config \<Rightarrow> string" where
  "revisions_file c = state_file c ''revisions.json''"

definition in_step :: "config \<Rightarrow> 'z agent_world_scheme \<Rightarrow> bool" where
  "in_step c w \<longleftrightarrow> unused_above w \<and> tree (nodes w) \<and> same_dirs c (Cfg w) \<and> IsAbs (cf_StateDir c) \<and>
     journal (nodes w) (revisions_file c) = Some (applied_state w)"

lemma revisions_leaf:
  assumes "IsAbs (cf_StateDir c)"
  shows "leaf_name (revisions_file c) = ''revisions.json''" "\<not> temporary (leaf_name (revisions_file c))"
proof -
  have "leaf_name (revisions_file c) = ''revisions.json''"
    unfolding revisions_file_def state_file_def
    by (rule FilepathJoin_plain [OF assms]) (simp add: plain_part_def)
  then show "leaf_name (revisions_file c) = ''revisions.json''" "\<not> temporary (leaf_name (revisions_file c))"
    by (simp_all add: temporary_def HasPrefix_def)
qed

lemma in_step_quiet:
  assumes "quiet w w'" and "in_step c w"
  shows "in_step c w'"
proof -
  have aged: "aged (nodes w) (nodes w')" "next_ino w' = next_ino w" using assms(1) by (simp_all add: quiet_def)
  have "journal (nodes w') (revisions_file c) = Some (applied_state w)"
    using assms(2) by (intro evolved_journal [OF evolved_aged [OF aged(1)] dest_aged [OF aged(1)]]) (simp add: in_step_def)
  with assms show ?thesis
    by (simp add: in_step_def quiet_def unused_above_aged [OF aged] tree_evolved [OF evolved_aged [OF aged(1)]])
qed

lemma wpre_save:
  assumes "unused_above w" and c: "same_dirs c (Cfg w)" "IsAbs (cf_StateDir c)"
    and m0: "journal (nodes w) (revisions_file c) = Some m0"
    and "\<And>x w'. host.more w' = host.more w \<Longrightarrow> unused_above w' \<Longrightarrow> evolved {revisions_file c} (nodes w) (nodes w') \<Longrightarrow>
       x \<noteq> Inr () \<and> journal (nodes w') (revisions_file c) = Some m0 \<or>
         journal (nodes w') (revisions_file c) = Some (applied_state w) \<Longrightarrow> Q x w'"
  shows "wpre (save E) Q w"
proof -
  have path: "state_file (Cfg w) ''revisions.json'' = revisions_file c"
    unfolding revisions_file_def by (rule same_dirs_state_file [OF c(1)])
  have "wpre (AtomicWrite E (revisions_file c) (RevisionsFile (applied_state w)) 384 (- 1) (- 1)) Q w"
  proof (rule wpre_publish [OF assms(1) revisions_leaf(2) [OF c(2)]], rule assms(5), goal_cases)
    case (4 x w')
    then show ?case
      using m0 by (auto intro: evolved_journal synced_journal simp: published_def)
  qed
  then show ?thesis by (simp add: save_def wp path)
qed

end
