(* ===== verification/Reconcile.thy ===== *)
theory Reconcile
  imports Journal
begin

text \<open>
  One definition from the server to the disk: in which order the agent publishes a file,
  records it and runs its hook, what a failure or a crash can leave at any point, and what a
  successful synchronisation means.
\<close>

section \<open>The hook\<close>

text \<open>The entry of the log for the hook of a definition, with its outcome.\<close>

definition hook_call :: "'e agent_env_scheme \<Rightarrow> secret_definition \<Rightarrow> bool \<Rightarrow> hook_run" where
  "hook_call E d ok = \<lparr>hr_Args = argv d, hr_Timeout = command_timeout E d, hr_Succeeded = ok\<rparr>"

text \<open>
  The three ways a hook ends: it did not succeed and nothing is recorded; it succeeded but its
  record may not have reached the disk; or all is done.
\<close>

definition hook_unfinished ::
  "'e agent_env_scheme \<Rightarrow> config \<Rightarrow> secret_definition \<Rightarrow> 'z agent_world_scheme \<Rightarrow> 'z agent_world_scheme \<Rightarrow> bool" where
  "hook_unfinished E c d w w' \<longleftrightarrow>
     applied_state w' = applied_state w \<and> journal (nodes w') (revisions_file c) = Some (applied_state w) \<and>
     (ran w' = ran w \<or> ran w' = hook_call E d False # ran w)"

definition cleared :: "string \<Rightarrow> 'z agent_world_scheme \<Rightarrow> string \<rightharpoonup> applied" where
  "cleared name w = (applied_state w)(name \<mapsto> (recorded name w)\<lparr>ap_Pending := False\<rparr>)"

definition hook_unrecorded ::
  "'e agent_env_scheme \<Rightarrow> config \<Rightarrow> string \<Rightarrow> secret_definition \<Rightarrow> 'z agent_world_scheme \<Rightarrow> 'z agent_world_scheme \<Rightarrow> bool" where
  "hook_unrecorded E c name d w w' \<longleftrightarrow>
     applied_state w' = (applied_state w)(name \<mapsto> (recorded name w)\<lparr>ap_Pending := True\<rparr>) \<and>
     journal (nodes w') (revisions_file c) \<in> {Some (applied_state w), Some (cleared name w)} \<and>
     ran w' = hook_call E d True # ran w"

definition hook_finished ::
  "'e agent_env_scheme \<Rightarrow> config \<Rightarrow> string \<Rightarrow> secret_definition \<Rightarrow> 'z agent_world_scheme \<Rightarrow> 'z agent_world_scheme \<Rightarrow> bool" where
  "hook_finished E c name d w w' \<longleftrightarrow>
     applied_state w' = cleared name w \<and> journal (nodes w') (revisions_file c) = Some (cleared name w) \<and>
     ran w' = hook_call E d True # ran w"

lemmas hook_defs = hook_unfinished_def hook_unrecorded_def hook_finished_def

lemma wpre_run_hook:
  assumes "\<And>w'. nodes w' = nodes w \<Longrightarrow> next_ino w' = next_ino w \<Longrightarrow> Cfg w' = Cfg w \<Longrightarrow>
       applied_state w' = applied_state w \<Longrightarrow> ran w' = \<lparr>hr_Args = args, hr_Timeout = timeout, hr_Succeeded = True\<rparr> # ran w \<Longrightarrow> Q (Inr ()) w'"
    and "\<And>e w'. aged (nodes w) (nodes w') \<Longrightarrow> next_ino w' = next_ino w \<Longrightarrow> Cfg w' = Cfg w \<Longrightarrow>
       applied_state w' = applied_state w \<Longrightarrow> ran w' = ran w \<or>
       ran w' = \<lparr>hr_Args = args, hr_Timeout = timeout, hr_Succeeded = False\<rparr> # ran w \<Longrightarrow> Q (Inl e) w'"
  shows "wpre (run_hook args timeout) Q w"
  unfolding run_hook_def
proof (rule wpre_sys, goal_cases)
  case (2 os)
  show ?case
    by (auto simp: wpre_def Let_def intro!: assms split: list.split hook.split)
qed (auto intro!: assms simp: crash_def)

lemma wpre_runCommand:
  assumes step: "in_step c w" and cmd: "argv d \<noteq> []"
    and Q: "\<And>x w'. unused_above w' \<Longrightarrow> evolved {revisions_file c} (nodes w) (nodes w') \<Longrightarrow> Cfg w' = Cfg w \<Longrightarrow>
       (case x of Inl e \<Rightarrow> hook_unfinished E c d w w' \<or> hook_unrecorded E c name d w w'
        | Inr u \<Rightarrow> hook_finished E c name d w w') \<Longrightarrow> Q x w'"
  shows "wpre (runCommand E name d) Q w"
proof -
  let ?rv = "revisions_file c"
  have m0: "journal (nodes w) ?rv = Some (applied_state w)" using step by (simp add: in_step_def)
  have fin: "wpre (save E) (\<lambda>r s. case r of
        Inl e \<Rightarrow> Q (Inl (ErrText ''could not persist command completion''))
          (s\<lparr>applied_state := (applied_state s)(name \<mapsto> (recorded name w1)\<lparr>ap_Pending := True\<rparr>)\<rparr>)
      | Inr u \<Rightarrow> Q (Inr ()) s) (w1\<lparr>applied_state := (applied_state w1)(name \<mapsto> (recorded name w1)\<lparr>ap_Pending := False\<rparr>)\<rparr>)"
    if w1: "nodes w1 = nodes w" "next_ino w1 = next_ino w" "Cfg w1 = Cfg w"
      "applied_state w1 = applied_state w" "ran w1 = hook_call E d True # ran w" for w1
  proof (rule wpre_save [where c = c and ?m0.0 = "applied_state w"], goal_cases)
    case (5 x w')
    let ?v = "w1\<lparr>applied_state := (applied_state w1)(name \<mapsto> (recorded name w1)\<lparr>ap_Pending := False\<rparr>)\<rparr>"
    have same: "Cfg w' = Cfg ?v" "applied_state w' = applied_state ?v" "ran w' = ran ?v"
      by (rule rest_world [OF 5(1)])+
    have rec: "recorded name w1 = recorded name w" using w1(4) by (simp add: recorded_def)
    have ev: "evolved {?rv} (nodes w) (nodes w')" using 5(3) w1(1) by simp
    show ?case
    proof (cases x)
      case (Inl e)
      have "hook_unrecorded E c name d w (w'\<lparr>applied_state := (applied_state w')(name \<mapsto> (recorded name w1)\<lparr>ap_Pending := True\<rparr>)\<rparr>)"
        using 5(4) same w1 by (auto simp: hook_unrecorded_def cleared_def rec)
      then show ?thesis
        using 5(2) ev same w1 unfolding Inl by (simp, intro Q) (simp_all add: unused_above_def)
    next
      case (Inr u)
      have "hook_finished E c name d w w'"
        using 5(4) same w1 Inr by (simp add: hook_finished_def cleared_def rec)
      then show ?thesis
        using 5(2) ev same w1 unfolding Inr by (simp, intro Q) simp_all
    qed
  qed (use step w1 in \<open>simp_all add: in_step_def unused_above_def m0\<close>)
  have failed: "Q (Inl e) w1"
    if w1: "aged (nodes w) (nodes w1)" "next_ino w1 = next_ino w" "Cfg w1 = Cfg w"
      "applied_state w1 = applied_state w" "ran w1 = ran w \<or> ran w1 = hook_call E d False # ran w" for e w1
  proof (rule Q)
    show "unused_above w1" using step w1 by (simp add: in_step_def unused_above_aged)
    show "case Inl e of Inl e \<Rightarrow> hook_unfinished E c d w w1 \<or> hook_unrecorded E c name d w w1
        | Inr u \<Rightarrow> hook_finished E c name d w w1"
      using w1 evolved_journal [OF evolved_aged [OF w1(1)] dest_aged [OF w1(1)] m0]
      by (simp add: hook_unfinished_def)
  qed (use w1 in \<open>simp_all add: evolved_aged\<close>)
  show ?thesis
    unfolding runCommand_def if_not_P [OF cmd] wpre_andthen wpre_on_error
  proof (rule wpre_run_hook, goal_cases)
    case (1 w1)
    then have w1: "ran w1 = hook_call E d True # ran w" by (simp add: hook_call_def)
    show ?case
      unfolding sum.case wpre_andthen wpre_gets set_recorded_def wpre_modify wpre_attempt
      by (rule wpre_mono [OF fin [OF 1(1-4) w1]]) (auto simp: wp split: sum.splits)
  next
    case (2 e w1)
    then show ?case by (simp add: failed hook_call_def)
  qed
qed

section \<open>Publication, record, hook\<close>

text \<open>
  What the agent remembers about the definition \<open>name\<close>: after a success the new record with
  nothing pending; after a failure the old record, or the new one with its hook still pending.
\<close>

definition remembers ::
  "string \<Rightarrow> secret_definition \<Rightarrow> applied \<Rightarrow> 'z agent_world_scheme \<Rightarrow> err + unit \<Rightarrow> 'z agent_world_scheme \<Rightarrow> bool" where
  "remembers name d v w x w' \<longleftrightarrow>
     (\<forall>k. k \<noteq> name \<longrightarrow> applied_state w' k = applied_state w k) \<and>
     (case x of
        Inr u \<Rightarrow> applied_state w' name = Some (v\<lparr>ap_Pending := False\<rparr>)
      | Inl e \<Rightarrow> recorded name w' = recorded name w \<or> argv d \<noteq> [] \<and> recorded name w' = v)"

text \<open>
  What is on disk: the old journal, with the old destination or the new file; or the file and then its record; or the file, a finished
  hook and the record of both.
\<close>

definition on_disk ::
  "'e agent_env_scheme \<Rightarrow> config \<Rightarrow> string \<Rightarrow> secret_definition \<Rightarrow> applied \<Rightarrow> stored_file
   \<Rightarrow> 'z agent_world_scheme \<Rightarrow> err + unit \<Rightarrow> 'z agent_world_scheme \<Rightarrow> bool" where
  "on_disk E c name d v f w x w' \<longleftrightarrow>
     x \<noteq> Inr () \<and> journal (nodes w') (revisions_file c) = Some (applied_state w) \<and> ran w' = ran w \<and>
       (dest (nodes w') (de_Destination d) = dest (nodes w) (de_Destination d) \<or>
        synced_at (nodes w') (de_Destination d) f) \<or>
     synced_at (nodes w') (de_Destination d) f \<and>
       (x \<noteq> Inr () \<and> argv d \<noteq> [] \<and>
          journal (nodes w') (revisions_file c) = Some ((applied_state w)(name \<mapsto> v)) \<and>
          (ran w' = ran w \<or> (\<exists>ok. ran w' = hook_call E d ok # ran w)) \<or>
        journal (nodes w') (revisions_file c) = Some ((applied_state w)(name \<mapsto> v\<lparr>ap_Pending := False\<rparr>)) \<and>
          ran w' = (if argv d = [] then ran w else hook_call E d True # ran w))"

definition new_record :: "'e agent_env_scheme \<Rightarrow> secret_definition \<Rightarrow> string \<Rightarrow> string \<Rightarrow> int64 \<Rightarrow> applied" where
  "new_record E d fp data revision =
     \<lparr>ap_Revision = revision, ap_Fingerprint = fp, ap_OutputHash = Hash E data, ap_Pending = (argv d \<noteq> [])\<rparr>"

text \<open>The destination is an entry of its own, next to the journal and the temporary files.\<close>

definition separate :: "config \<Rightarrow> secret_definition \<Rightarrow> 'z agent_world_scheme \<Rightarrow> bool" where
  "separate c d w \<longleftrightarrow> \<not> temporary (leaf_name (de_Destination d)) \<and>
     apart (nodes w) (de_Destination d) (revisions_file c)"

lemma separate_evolved: "evolved P (nodes w) (nodes w') \<Longrightarrow> separate c d w' = separate c d w"
  by (simp add: separate_def apart_evolved)

lemma destination_kept:
  assumes "separate c d w" and "evolved {revisions_file c} (nodes w) (nodes w')"
    and "synced_at (nodes w) (de_Destination d) f"
  shows "synced_at (nodes w') (de_Destination d) f"
  using assms by (intro evolved_synced [OF assms(2) evolved_dest [OF assms(2)]]) (auto simp: separate_def)

lemma journal_kept:
  assumes "separate c d w" and "IsAbs (cf_StateDir c)" and "evolved {de_Destination d} (nodes w) (nodes w')"
    and "journal (nodes w) (revisions_file c) = Some m"
  shows "journal (nodes w') (revisions_file c) = Some m"
  using assms revisions_leaf(2) [OF assms(2)]
  by (intro evolved_journal [OF assms(3) evolved_dest [OF assms(3)] assms(4)]) (auto simp: separate_def apart_sym)

text \<open>After the file is published: the record, and the hook.\<close>

lemma wpre_record:
  assumes w: "unused_above w" "tree (nodes w)" "same_dirs c (Cfg w)" "IsAbs (cf_StateDir c)" "separate c d w"
    and m0: "journal (nodes w) (revisions_file c) = Some (applied_state w0)"
    and f: "synced_at (nodes w) (de_Destination d) f"
    and w0: "applied_state w = applied_state w0" "ran w = ran w0"
    and v: "ap_Pending v = (argv d \<noteq> [])"
    and Q: "\<And>x w'. unused_above w' \<Longrightarrow> evolved {revisions_file c} (nodes w) (nodes w') \<Longrightarrow> Cfg w' = Cfg w \<Longrightarrow>
       remembers name d v w0 x w' \<Longrightarrow> on_disk E c name d v f w0 x w' \<Longrightarrow> Q x w'"
  shows "wpre (andthen (set_recorded name v) (\<lambda>_.
       andthen (attempt (save E)) (\<lambda>r. case r of
         Inl e \<Rightarrow>
           andthen (set_recorded name (recorded name w0)) (\<lambda>_.
           throw (ErrText ''could not persist revision''))
       | Inr _ \<Rightarrow> if argv d \<noteq> [] then runCommand E name d else ret ()))) Q w"
proof -
  let ?rv = "revisions_file c" and ?w1 = "w\<lparr>applied_state := (applied_state w)(name \<mapsto> v)\<rparr>"
  have plain: "v\<lparr>ap_Pending := False\<rparr> = v" if "argv d = []" using v that by (cases v) simp
  have pend: "v\<lparr>ap_Pending := True\<rparr> = v" if "argv d \<noteq> []" using v that by (cases v) simp
  have "wpre (save E) (\<lambda>r s. case r of
        Inl e \<Rightarrow> Q (Inl (ErrText ''could not persist revision''))
          (s\<lparr>applied_state := (applied_state s)(name \<mapsto> recorded name w0)\<rparr>)
      | Inr u \<Rightarrow> wpre (if argv d \<noteq> [] then runCommand E name d else ret ()) Q s) ?w1"
  proof (rule wpre_save [where c = c and ?m0.0 = "applied_state w0"], goal_cases)
    case (5 x s)
    have same: "Cfg s = Cfg w" "applied_state s = (applied_state w0)(name \<mapsto> v)" "ran s = ran w0"
      using rest_world(1,3,5) [OF 5(1)] w0 by simp_all
    have ev: "evolved {?rv} (nodes w) (nodes s)" using 5(3) by simp
    have kept: "synced_at (nodes s) (de_Destination d) f" by (rule destination_kept [OF w(5) ev f])
    show ?case
    proof (cases x)
      case (Inl e)
      let ?s = "s\<lparr>applied_state := (applied_state s)(name \<mapsto> recorded name w0)\<rparr>"
      have "remembers name d v w0 (Inl (ErrText ''could not persist revision'')) ?s"
        using same by (simp add: remembers_def recorded_def)
      moreover have "on_disk E c name d v f w0 (Inl (ErrText ''could not persist revision'')) ?s"
        using 5(4) same kept plain w0 by (auto simp: on_disk_def)
      ultimately show ?thesis
        using 5(2) ev same unfolding Inl by (simp, intro Q) (simp_all add: unused_above_def)
    next
      case (Inr u)
      then have j: "journal (nodes s) ?rv = Some (applied_state s)" using 5(4) same w0 by simp
      show ?thesis
      proof (cases "argv d = []")
        case True
        have "remembers name d v w0 (Inr ()) s" using same plain [OF True] by (simp add: remembers_def)
        moreover have "on_disk E c name d v f w0 (Inr ()) s"
          using j same kept True plain [OF True] by (simp add: on_disk_def)
        ultimately show ?thesis using 5(2) ev same True Inr by (simp add: wp Q)
      next
        case False
        have s: "in_step c s" "separate c d s"
          using w j 5(2) same ev separate_evolved [OF ev] by (simp_all add: in_step_def tree_evolved [OF ev])
        have rec: "recorded name s = v" using same by (simp add: recorded_def)
        have "wpre (runCommand E name d) Q s"
        proof (rule wpre_runCommand [OF s(1) False], goal_cases)
          case (1 y w')
          have ev': "evolved {?rv} (nodes w) (nodes w')" using ev 1(2) by (rule evolved_trans)
          have kept': "synced_at (nodes w') (de_Destination d) f"
            by (rule destination_kept [OF s(2) 1(2) kept])
          show ?case
          proof (rule Q [OF 1(1) ev'])
            show "Cfg w' = Cfg w" using 1(3) same by simp
            show "remembers name d v w0 y w'"
              using 1(4) False pend [OF False]
              by (auto simp: remembers_def hook_defs cleared_def same rec recorded_def split: sum.splits)
            show "on_disk E c name d v f w0 y w'"
              using 1(4) False kept'
              by (auto simp: on_disk_def hook_defs cleared_def same rec split: sum.splits)
          qed
        qed
        with False show ?thesis by (simp add: Inr)
      qed
    qed
  qed (use w m0 in \<open>simp_all add: unused_above_def\<close>)
  then show ?thesis
    unfolding wpre_andthen set_recorded_def wpre_modify sum.case wpre_attempt
    by (rule wpre_mono) (auto simp: wp split: sum.splits)
qed

lemma wpre_ctx_done:
  assumes "\<And>b w'. quiet w w' \<Longrightarrow> Q (Inr b) w'"
  shows "wpre ctx_done Q w"
proof (rule wpreI, goal_cases)
  case (1 r s')
  have "quiet w s'" by (rule stepsD [OF quiet_ctx_done 1])
  moreover have "\<exists>b. r = Inr b" using 1 by (auto simp: ctx_done_def split: option.splits nat.splits)
  ultimately show ?case using assms by blast
qed

lemma quiet_on_disk:
  assumes "quiet w w'" and "in_step c w"
  shows "on_disk E c name d v f w (Inl e) w'" and "remembers name d v w (Inl e) w'"
proof -
  have "journal (nodes w') (revisions_file c) = Some (applied_state w)"
    using in_step_quiet [OF assms] assms(1) by (simp add: in_step_def quiet_def)
  then show "on_disk E c name d v f w (Inl e) w'"
    using assms(1) dest_aged [of "nodes w" "nodes w'"] by (simp add: on_disk_def quiet_def)
  show "remembers name d v w (Inl e) w'"
    using assms(1) by (simp add: remembers_def quiet_def recorded_def)
qed

lemma wpre_publish_value:
  fixes data :: string
  assumes step: "in_step c w" and sep: "separate c d w"
    and Q: "\<And>x w'. unused_above w' \<Longrightarrow> evolved {de_Destination d, revisions_file c} (nodes w) (nodes w') \<Longrightarrow>
       Cfg w' = Cfg w \<Longrightarrow> remembers name d (new_record E d fp data revision) w x w' \<Longrightarrow>
       on_disk E c name d (new_record E d fp data revision) (published (new_file E) (Bytes data) m uid gid) w x w' \<Longrightarrow> Q x w'"
  shows "wpre (publish_value E name d fp m uid gid (recorded name w) data revision) Q w"
proof -
  let ?v = "new_record E d fp data revision" and ?f = "published (new_file E) (Bytes data) m uid gid"
  let ?D = "de_Destination d" and ?rv = "revisions_file c"
  have publish: "wpre (AtomicWrite E ?D (Bytes data) m uid gid) (\<lambda>r s. case r of
        Inl e \<Rightarrow> Q (Inl (ErrText ''atomic destination write failed'')) s
      | Inr u \<Rightarrow> wpre (andthen (set_recorded name ?v) (\<lambda>_.
          andthen (attempt (save E)) (\<lambda>r. case r of
            Inl e \<Rightarrow> andthen (set_recorded name (recorded name w)) (\<lambda>_. throw (ErrText ''could not persist revision''))
          | Inr _ \<Rightarrow> if argv d \<noteq> [] then runCommand E name d else ret ()))) Q s) w1"
    if w1: "quiet w w1" for w1
  proof (rule wpre_publish, goal_cases)
    case (3 x s)
    have step1: "in_step c w1" by (rule in_step_quiet [OF w1 step])
    have ev1: "evolved {?D} (nodes w) (nodes s)"
      by (rule evolved_trans [OF evolved_aged 3(3)]) (use w1 in \<open>simp add: quiet_def\<close>)
    have sep1: "separate c d w1" "separate c d s"
      using w1 sep separate_evolved [OF evolved_aged, of w w1 c d] separate_evolved [OF ev1, of c d]
      by (simp_all add: quiet_def)
    have same: "Cfg s = Cfg w" "applied_state s = applied_state w" "ran s = ran w"
      using rest_world(1,3,5) [OF 3(1)] w1 by (simp_all add: quiet_def)
    have dirs: "IsAbs (cf_StateDir c)" "same_dirs c (Cfg s)" using step same by (simp_all add: in_step_def)
    have j: "journal (nodes s) ?rv = Some (applied_state w)"
      by (rule journal_kept [OF sep dirs(1) ev1]) (use step in \<open>simp add: in_step_def\<close>)
    have both: "evolved {?D, ?rv} (nodes w) (nodes s)" by (rule evolved_mono [OF ev1]) simp
    show ?case
    proof (cases x)
      case (Inl e)
      have "dest (nodes w1) ?D = dest (nodes w) ?D"
        using w1 by (simp add: quiet_def dest_aged)
      then have "dest (nodes s) ?D = dest (nodes w) ?D \<or> synced_at (nodes s) ?D ?f"
        using 3(4) by metis
      then have "Q (Inl (ErrText ''atomic destination write failed'')) s"
        using 3(2) both same j
        by (intro Q) (simp_all add: remembers_def on_disk_def recorded_def)
      then show ?thesis by (simp add: Inl)
    next
      case (Inr u)
      then have f: "synced_at (nodes s) ?D ?f" using 3(4) by simp
      show ?thesis
        unfolding Inr sum.case
      proof (rule wpre_record [OF 3(2) _ dirs(2,1) sep1(2) j f], goal_cases)
        case 1
        show ?case using step tree_evolved [OF ev1] by (simp add: in_step_def)
      next
        case (5 y w')
        have "evolved {?D, ?rv} (nodes w) (nodes w')"
          by (rule evolved_trans [OF both]) (rule evolved_mono [OF 5(2)], simp)
        then show ?case using 5 same by (intro Q) simp_all
      qed (use same in \<open>simp_all add: new_record_def\<close>)
    qed
  qed (use sep in_step_quiet [OF w1 step] in \<open>simp_all add: separate_def in_step_def\<close>)
  show ?thesis
    unfolding publish_value_def wpre_andthen new_record_def [symmetric]
  proof (rule wpre_ctx_done, goal_cases)
    case (1 b w1)
    have none: "Q (Inl (ErrText ''context canceled'')) w1"
      using 1 in_step_quiet [OF 1 step] quiet_on_disk [OF 1 step]
      by (intro Q) (simp_all add: quiet_def in_step_def evolved_aged)
    show ?case
    proof (cases b)
      case False
      show ?thesis
        unfolding sum.case if_not_P [OF False] wpre_andthen [of "on_error _ _"] wpre_on_error
        by (rule wpre_mono [OF publish [OF 1]]) (auto split: sum.splits)
    qed (simp add: none wp)
  qed
qed

section \<open>A whole definition\<close>

text \<open>The file at the destination passes the agent's check against its record.\<close>

definition verified ::
  "'e agent_env_scheme \<Rightarrow> secret_definition \<Rightarrow> applied \<Rightarrow> nat \<Rightarrow> int \<Rightarrow> int \<Rightarrow> 'z host_scheme \<Rightarrow> bool" where
  "verified E d old m uid gid w \<longleftrightarrow>
     (\<exists>f g. node_at E w (de_Destination d) False = Inr (Reg f) \<and> node_at E w (de_Destination d) True = Inr (Reg g) \<and>
        as_deployed E old m uid gid f (f_data g))"

lemma verified_nodes: "nodes w' = nodes w \<Longrightarrow> verified E d old m uid gid w' = verified E d old m uid gid w"
  by (simp add: verified_def node_at_nodes [of w' w])

lemma rest_reads:
  "steps (\<lambda>w w'. host.more w' = host.more w) (template_source E d)"
  "steps (\<lambda>w w'. host.more w' = host.more w) (deployed E d old m uid gid)"
  unfolding template_source_def deployed_def
  by (intro steps rest.steps_reads; (auto intro!: steps rest.steps_reads split: node.split)?)+

lemma wpre_deployed:
  assumes "\<And>w'. quiet w w' \<Longrightarrow> replies w' = replies w \<Longrightarrow> \<not> crashed w' \<Longrightarrow> verified E d old m uid gid w \<Longrightarrow>
       Q (Inr True) w'"
    and "\<And>w'. quiet w w' \<Longrightarrow> replies w' = replies w \<Longrightarrow> Q (Inr False) w'"
  shows "wpre (deployed E d old m uid gid) Q w"
proof (rule wpreI, goal_cases)
  case (1 r w')
  have quiet: "quiet w w'" by (rule stepsD [OF quiet_deployed 1])
  have rep: "replies w' = replies w" by (rule rest_world(8)) (rule stepsD [OF rest_reads(2) 1])
  obtain st w1 where st: "Lstat E (de_Destination d) w = (st, w1)" by (cases "Lstat E (de_Destination d) w")
  show ?case
  proof (cases "r = Inr True")
    case True
    obtain f where f: "st = Inr (Reg f)"
      using 1 st True by (auto simp: deployed_def andthen_def attempt_def ret_def split: sum.splits node.splits)
    obtain cur w2 where cur: "ReadFile E (de_Destination d) w1 = (cur, w2)" by (cases "ReadFile E (de_Destination d) w1")
    have w2: "w' = w2" and "\<exists>x. cur = Inr x \<and> as_deployed E old m uid gid f x"
      using 1 st f cur True by (auto simp: deployed_def andthen_def attempt_def ret_def split: sum.splits)
    then obtain x where x: "cur = Inr x" "as_deployed E old m uid gid f x" by blast
    have a: "\<not> crashed w1 \<and> nodes w1 = nodes w \<and> node_at E w (de_Destination d) False = Inr (Reg f)"
      using Lstat_Inr st f by blast
    have b: "\<not> crashed w2 \<and> nodes w2 = nodes w1 \<and> (\<exists>g. node_at E w1 (de_Destination d) True = Inr (Reg g) \<and> f_data g = x)"
      using ReadFile_Inr cur x(1) by blast
    have "verified E d old m uid gid w"
      using a b x(2) by (auto simp: verified_def node_at_nodes [of w1 w])
    then show ?thesis using assms(1) [OF quiet rep] b w2 True by simp
  next
    case False
    then have "r = Inr False"
      using 1 by (auto simp: deployed_def andthen_def attempt_def ret_def split: prod.splits sum.splits node.splits)
    then show ?thesis using assms(2) [OF quiet rep] by simp
  qed
qed

text \<open>
  The three ways \<open>syncOne\<close> ends: a failure before anything is published; the file is as
  recorded, and at most a pending hook remains; or a publication.
\<close>

definition template_read :: "'e agent_env_scheme \<Rightarrow> secret_definition \<Rightarrow> string \<Rightarrow> 'z agent_world_scheme \<Rightarrow> bool" where
  "template_read E d source w \<longleftrightarrow>
     (if de_Template d = [] then source = []
      else (\<exists>g. node_at E w (FilepathJoin (cf_TemplatesDir (Cfg w)) (de_Template d)) True = Inr (Reg g) \<and>
              f_data g = Bytes source))"

text \<open>The next answer of the server: the revision of the record; or a revision, then a value.\<close>

definition up_to_date ::
  "'e agent_env_scheme \<Rightarrow> string \<Rightarrow> secret_definition \<Rightarrow> nat \<Rightarrow> int \<Rightarrow> int \<Rightarrow> 'z agent_world_scheme \<Rightarrow> bool" where
  "up_to_date E name d m uid gid w \<longleftrightarrow>
     (\<exists>b rs source. replies w = Answer 200 b # rs \<and> template_read E d source w \<and>
        decode_answer b revision_field 0 = Inr (ap_Revision (recorded name w)) \<and>
        1 \<le> sint (ap_Revision (recorded name w)) \<and>
        ap_Fingerprint (recorded name w) = fingerprint E d source) \<and>
     verified E d (recorded name w) m uid gid w"

definition served ::
  "'e agent_env_scheme \<Rightarrow> secret_definition \<Rightarrow> 'z agent_world_scheme \<Rightarrow> string \<Rightarrow> string \<Rightarrow> int64 \<Rightarrow> bool" where
  "served E d w source data revision \<longleftrightarrow>
     template_read E d source w \<and> 1 \<le> sint revision \<and>
     (\<exists>a b rs s. replies w = a # Answer 200 b # rs \<and> decode_answer b value_fields ([], 0) = Inr (s, revision) \<and>
        (if de_Template d = [] then data = s else Render E source s (de_Path d) revision = Inr data))"

definition owners :: "'e agent_env_scheme \<Rightarrow> secret_definition \<Rightarrow> nat \<Rightarrow> int \<Rightarrow> int \<Rightarrow> bool" where
  "owners E d m uid gid \<longleftrightarrow>
     parseMode (de_Mode d) = Inr m \<and> id_of E (de_Owner d) False = Inr uid \<and> id_of E (de_Group d) True = Inr gid"

inductive sync_outcome ::
  "'e agent_env_scheme \<Rightarrow> config \<Rightarrow> string \<Rightarrow> secret_definition \<Rightarrow> 'z agent_world_scheme \<Rightarrow> err + unit \<Rightarrow> 'z agent_world_scheme \<Rightarrow> bool"
  for E c name d w where
  early: "quiet w w' \<Longrightarrow> sync_outcome E c name d w (Inl e) w'"
| nothing_to_do: "quiet w w' \<Longrightarrow> owners E d m uid gid \<Longrightarrow> up_to_date E name d m uid gid w \<Longrightarrow>
     ap_Pending (recorded name w) \<longrightarrow> argv d = [] \<Longrightarrow> sync_outcome E c name d w (Inr ()) w'"
| hook_due: "unused_above w' \<Longrightarrow> evolved {revisions_file c} (nodes w) (nodes w') \<Longrightarrow> owners E d m uid gid \<Longrightarrow>
     up_to_date E name d m uid gid w \<Longrightarrow> ap_Pending (recorded name w) \<Longrightarrow> argv d \<noteq> [] \<Longrightarrow>
     (case x of Inl e \<Rightarrow> hook_unfinished E c d w w' \<or> hook_unrecorded E c name d w w'
      | Inr u \<Rightarrow> hook_finished E c name d w w') \<Longrightarrow> sync_outcome E c name d w x w'"
| publishing: "unused_above w' \<Longrightarrow> evolved {de_Destination d, revisions_file c} (nodes w) (nodes w') \<Longrightarrow> owners E d m uid gid \<Longrightarrow>
     served E d w source data revision \<Longrightarrow>
     remembers name d (new_record E d (fingerprint E d source) data revision) w x w' \<Longrightarrow>
     on_disk E c name d (new_record E d (fingerprint E d source) data revision)
       (published (new_file E) (Bytes data) m uid gid) w x w' \<Longrightarrow> sync_outcome E c name d w x w'"

lemma quiet_rule:
  assumes "steps quiet m" and "\<And>v w'. quiet w w' \<Longrightarrow> Q (Inr v) w'" and "\<And>e w'. quiet w w' \<Longrightarrow> Q (Inl e) w'"
  shows "wpre m Q w"
proof (rule wpreI, goal_cases)
  case (1 r s')
  then show ?case using stepsD [OF assms(1) 1] assms(2,3) by (cases r) auto
qed

lemma quiet_same: "quiet w w' \<Longrightarrow> recorded name w' = recorded name w \<and> ran w' = ran w \<and> applied_state w' = applied_state w"
  by (simp add: quiet_def recorded_def)

lemma quiet_trans: "quiet w w1 \<Longrightarrow> quiet w1 w2 \<Longrightarrow> quiet w w2"
  by (rule calm.R_trans)

lemma quiet_evolved: "quiet w w' \<Longrightarrow> evolved P (nodes w) (nodes w')"
  by (simp add: quiet_def evolved_aged)

text \<open>The outcome only depends on what quiet steps keep.\<close>

lemma hook_quiet:
  assumes "quiet w w1"
  shows "hook_unfinished E c d w1 = hook_unfinished E c d w" "hook_unrecorded E c name d w1 = hook_unrecorded E c name d w"
    "hook_finished E c name d w1 = hook_finished E c name d w"
  by (rule ext, simp add: hook_defs cleared_def quiet_same [OF assms])+

lemma publishing_quiet:
  assumes "quiet w w1"
  shows "remembers name d v w1 = remembers name d v w" "on_disk E c name d v f w1 = on_disk E c name d v f w"
proof -
  have "dest (nodes w1) p = dest (nodes w) p" for p using assms by (simp add: quiet_def dest_aged)
  then show "remembers name d v w1 = remembers name d v w" "on_disk E c name d v f w1 = on_disk E c name d v f w"
    by (intro ext, simp add: remembers_def on_disk_def quiet_same [OF assms] split: sum.split)+
qed

lemma separate_quiet: "quiet w w' \<Longrightarrow> separate c d w' = separate c d w"
  by (rule separate_evolved) (rule quiet_evolved)

lemma sync_publishes:
  assumes w: "in_step c w" "separate c d w" and q: "quiet w w1" and own: "owners E d m uid gid" and rev: "served E d w source data revision"
  shows "wpre (publish_value E name d (fingerprint E d source) m uid gid (recorded name w) data revision)
           (sync_outcome E c name d w) w1"
proof -
  have rec: "recorded name w = recorded name w1" using quiet_same [OF q] by simp
  show ?thesis
    unfolding rec
  proof (rule wpre_publish_value [OF in_step_quiet [OF q w(1)]], goal_cases)
    case (2 x w')
    then show ?case
      using evolved_trans [OF quiet_evolved [OF q] 2(2)] own rev
      by (intro publishing) (simp_all add: publishing_quiet [OF q])
  qed (use w(2) separate_quiet [OF q] in simp)
qed

lemma sync_hook:
  assumes w: "in_step c w" and q: "quiet w w1" and own: "owners E d m uid gid"
    and up: "up_to_date E name d m uid gid w"
  shows "wpre (if ap_Pending (recorded name w) then runCommand E name d else ret ()) (sync_outcome E c name d w) w1"
proof (cases "ap_Pending (recorded name w) \<and> argv d \<noteq> []")
  case True
  have "wpre (runCommand E name d) (sync_outcome E c name d w) w1"
  proof (rule wpre_runCommand [OF in_step_quiet [OF q w]], goal_cases)
    case (2 x w')
    then show ?case
      using evolved_trans [OF quiet_evolved [OF q] 2(2)] own up True
      by (intro hook_due) (auto simp: hook_quiet [OF q] split: sum.splits)
  qed (use True in simp)
  with True show ?thesis by simp
next
  case False
  have "sync_outcome E c name d w (Inr ()) w1"
    by (rule nothing_to_do [OF q own up]) (use False in simp)
  with False show ?thesis by (simp add: runCommand_def wp)
qed

text \<open>What a successful step of \<open>syncOne\<close> has read.\<close>

lemma wpre_template_source:
  assumes "\<And>source w'. quiet w w' \<Longrightarrow> replies w' = replies w \<Longrightarrow>
       (\<not> crashed w' \<longrightarrow> template_read E d source w) \<Longrightarrow> Q (Inr source) w'"
    and "\<And>e w'. quiet w w' \<Longrightarrow> Q (Inl e) w'"
  shows "wpre (template_source E d) Q w"
proof (rule wpreI, goal_cases)
  case (1 r w')
  have q: "quiet w w'" by (rule stepsD [OF quiet_template_source 1])
  have "replies w' = replies w" by (rule rest_world(8)) (rule stepsD [OF rest_reads(1) 1])
  moreover have "template_read E d source w" if src: "r = Inr source" for source
  proof (cases "de_Template d = []")
    case True
    with 1 src show ?thesis by (simp add: template_source_def template_read_def ret_def)
  next
    case False
    let ?p = "FilepathJoin (cf_TemplatesDir (Cfg w)) (de_Template d)"
    obtain st w1 c where st: "Lstat E ?p w = (Inr st, w1)" and c: "ReadFile E ?p w1 = (Inr c, w')" "file_bytes c = Inr source"
      using 1 False unfolding src
      by (auto simp: template_source_def ReadBytes_def did split: if_splits)
    have "\<not> crashed w1 \<and> nodes w1 = nodes w \<and> node_at E w ?p False = Inr st" by (rule Lstat_Inr [OF st])
    moreover have "\<not> crashed w' \<and> nodes w' = nodes w1 \<and> (\<exists>g. node_at E w1 ?p True = Inr (Reg g) \<and> f_data g = c)"
      by (rule ReadFile_Inr [OF c(1)])
    ultimately have "\<exists>g. node_at E w ?p True = Inr (Reg g) \<and> f_data g = c"
      by (simp add: node_at_nodes [of w1 w])
    with False c(2) show ?thesis by (auto simp: template_read_def file_bytes_def split: content.splits)
  qed
  ultimately show ?case using assms q by (cases r) auto
qed

lemma wpre_agent_request:
  assumes "\<And>v b rs w'. quiet w w' \<Longrightarrow> \<not> crashed w' \<Longrightarrow> replies w = Answer 200 b # rs \<Longrightarrow> replies w' = rs \<Longrightarrow>
       decode_answer b fld zero = Inr v \<Longrightarrow> Q (Inr v) w'"
    and "\<And>e w'. quiet w w' \<Longrightarrow> Q (Inl e) w'"
  shows "wpre (agent_request path method payload fld zero) Q w"
proof (rule wpreI, goal_cases)
  case (1 r w')
  have q: "quiet w w'" by (rule stepsD [OF quiet_agent_request 1])
  show ?case
  proof (cases r)
    case (Inr v)
    have "\<not> crashed w' \<and> (\<exists>b rs. replies w = Answer 200 b # rs \<and> replies w' = rs \<and> decode_answer b fld zero = Inr v)"
      using 1 unfolding Inr
      by (auto simp: agent_request_def did exchange_def sys_def Let_def
          split: if_splits list.splits outcome.splits server_reply.splits)
    then show ?thesis using assms(1) [OF q] Inr by blast
  qed (simp add: assms(2) [OF q])
qed

lemma wpre_fetch:
  assumes w: "in_step c w" "separate c d w" and q: "quiet w w1" and own: "owners E d m uid gid"
    and src: "\<not> crashed w1 \<longrightarrow> template_read E d source w" and rep: "replies w = a # replies w1"
  shows "wpre (andthen (agent_request (''secrets/'' @ path) ''GET'' [] value_fields ([], 0)) (\<lambda>(value, revision).
         if sint revision < 1 then throw (ErrText ''invalid value revision'')
         else
           andthen (if de_Template d \<noteq> [] then lift (Render E source value (de_Path d) revision) else ret value) (\<lambda>data.
           publish_value E name d (fingerprint E d source) m uid gid (recorded name w) data revision)))
     (sync_outcome E c name d w) w1"
  unfolding wpre_andthen
proof (rule wpre_agent_request, goal_cases)
  case (1 v b rs w2)
  have q2: "quiet w w2" using q 1(1) by (rule quiet_trans)
  obtain s revision where v: "v = (s, revision)" by (cases v)
  have "\<not> crashed w1" using 1(1,2) by (auto simp: quiet_def)
  then have "served E d w source data revision"
    if "1 \<le> sint revision" "if de_Template d = [] then data = s else Render E source s (de_Path d) revision = Inr data" for data
    using that src rep 1(3,5) by (auto simp: served_def v)
  from sync_publishes [OF w q2 own this] show ?case
    unfolding v sum.case prod.case
    using early [OF q2] by (auto simp: wp not_less cong: if_cong split: sum.split)
next
  case (2 e w2)
  then show ?case using early [OF quiet_trans [OF q 2]] by simp
qed

lemma wpre_syncOne:
  assumes w: "in_step c w" "separate c d w"
  shows "wpre (syncOne E name d) (sync_outcome E c name d w) w"
proof -
  let ?Q = "sync_outcome E c name d w" and ?r = "recorded name w"
  have check: "wpre (andthen (deployed E d ?r m uid gid) (\<lambda>current.
       if ap_Revision ?r = rev \<and> ap_Fingerprint ?r = fingerprint E d source \<and> current
       then (if ap_Pending ?r then runCommand E name d else ret ())
       else
         andthen (agent_request (''secrets/'' @ path) ''GET'' [] value_fields ([], 0)) (\<lambda>(value, revision).
         if sint revision < 1 then throw (ErrText ''invalid value revision'')
         else
           andthen (if de_Template d \<noteq> [] then lift (Render E source value (de_Path d) revision) else ret value) (\<lambda>data.
           publish_value E name d (fingerprint E d source) m uid gid ?r data revision)))) ?Q w1"
    if q: "quiet w w1" "\<not> crashed w1" and own: "owners E d m uid gid" and rev: "1 \<le> sint rev"
      and src: "template_read E d source w" and rep: "replies w = Answer 200 b # replies w1"
        "decode_answer b revision_field 0 = Inr rev" for path source m uid gid rev b w1
    unfolding wpre_andthen [of "deployed E d ?r m uid gid"]
  proof (rule wpre_deployed, goal_cases)
    case (1 w2)
    have q2: "quiet w w2" using q(1) 1(1) by (rule quiet_trans)
    have "nodes w1 = nodes w" using q by (simp add: quiet_def)
    then have ver: "verified E d ?r m uid gid w" using 1(4) verified_nodes by metis
    have "wpre (if ap_Pending ?r then runCommand E name d else ret ()) ?Q w2"
      if "ap_Revision ?r = rev" "ap_Fingerprint ?r = fingerprint E d source"
      by (rule sync_hook [OF w(1) q2 own]) (use that rev ver src rep in \<open>auto simp: up_to_date_def\<close>)
    with wpre_fetch [OF w q2 own] src rep 1(2) show ?case by simp
  next
    case (2 w2)
    then show ?case using wpre_fetch [OF w quiet_trans [OF q(1) 2(1)] own] src rep by simp
  qed
  show ?thesis
    unfolding syncOne_def Let_def wpre_andthen [of "template_source E d"]
  proof (rule wpre_template_source, goal_cases)
    case (1 source w1)
    show ?case
      unfolding sum.case wpre_andthen [of "agent_request (''metadata/'' @ escape_path (de_Path d)) _ _ _ _"]
    proof (rule wpre_agent_request, goal_cases)
      case (1 rev b rs w2)
      note first = \<open>quiet w w1\<close> \<open>replies w1 = replies w\<close> \<open>\<not> crashed w1 \<longrightarrow> template_read E d source w\<close>
      have q: "quiet w w2" using first(1) 1(1) by (rule quiet_trans)
      have same: "recorded name w2 = ?r" using quiet_same [OF q] by simp
      have src: "template_read E d source w" using first(3) 1(1,2) by (auto simp: quiet_def)
      have rep: "replies w = Answer 200 b # replies w2" using first(2) 1(3,4) by simp
      show ?case
      proof (cases "sint rev < 1")
        case True
        then show ?thesis using early [OF q] by (simp add: wp)
      next
        case False
        then have rev: "1 \<le> sint rev" by simp
        show ?thesis
          unfolding sum.case if_not_P [OF False]
          using check [OF q 1(2) _ rev src rep 1(5)] early [OF q] same
          by (auto simp: wpre_andthen [of "lift _"] wpre_lift wpre_andthen [of "gets _"] wpre_gets owners_def split: sum.split)
      qed
    next
      case (2 e w2)
      then show ?case using early [OF quiet_trans [OF \<open>quiet w w1\<close> 2]] by simp
    qed
  next
    case (2 e w1)
    then show ?case using early by simp
  qed
qed

section \<open>Published files are found again\<close>

lemma resolve_walk:
  assumes "list_all plain_part cs" and "walk ns a cs = Some k" and "ns k = Some (Directory q es)"
    and "plain_part c" and "es c = Some i" and "ns i = Some (Reg f)"
  shows "resolve ns n a (cs @ [c]) b = Inr i"
  using assms(1,2)
proof (induction cs arbitrary: a)
  case Nil
  then show ?case using assms(3-6) by (simp add: plain_part_def)
next
  case (Cons x cs)
  then show ?case by (auto simp: plain_part_def split: option.splits node.splits)
qed

lemma Split_absolute: "IsAbs p \<Longrightarrow> Split p slash = [] # path_parts p"
  by (cases p) (auto simp: IsAbs_def HasPrefix_step path_parts_def TrimPrefix_def)

lemma synced_node_at:
  assumes p: "IsAbs p" "Clean p = p" "p \<noteq> ''/''" and f: "synced_at (nodes w) p f"
  shows "node_at E w p b = Inr (Reg f)"
proof -
  obtain i k q es where d: "walk (nodes w) 0 (butlast (path_parts p)) = Some k" "nodes w k = Some (Directory q es)"
      "es (last (path_parts p)) = Some i" "nodes w i = Some (Reg f)"
    using f by (auto simp: synced_at_def dest_def split: option.splits node.splits)
  have plain: "list_all plain_part (path_parts p)" by (rule clean_parts [OF p])
  have parts: "path_parts p = butlast (path_parts p) @ [last (path_parts p)]" by simp
  have ok: "list_all plain_part (butlast (path_parts p))" "plain_part (last (path_parts p))"
    using plain unfolding list_all_iff by (auto dest: in_set_butlastD)
  have "resolve (nodes w) 40 0 (path_parts p) b = Inr i"
    by (subst parts) (rule resolve_walk [OF ok(1) d(1,2) ok(2) d(3,4)])
  moreover have "\<exists>r rs. nodes w 0 = Some (Directory r rs)"
    using d(1,2) by (cases "butlast (path_parts p)") (auto split: option.splits node.splits)
  moreover have "p \<noteq> []" using p(1) by (auto simp: IsAbs_def HasPrefix_def)
  ultimately show ?thesis
    using p(1) d(4) by (auto simp: node_at_def locate_def Split_absolute)
qed

section \<open>Properties\<close>

lemma syncOne_done:
  assumes "in_step c w" and "separate c d w" and "syncOne E name d w = (Inr (), w')"
  shows "\<exists>v source m uid gid. applied_state w' = (applied_state w)(name \<mapsto> v) \<and>
    journal (nodes w') (revisions_file c) = Some (applied_state w') \<and> owners E d m uid gid \<and>
    template_read E d source w \<and> 1 \<le> sint (ap_Revision v) \<and> ap_Fingerprint v = fingerprint E d source \<and>
    (argv d \<noteq> [] \<longrightarrow> \<not> ap_Pending v) \<and>
    (up_to_date E name d m uid gid w \<and>
       ran w' = (if ap_Pending (recorded name w) \<and> argv d \<noteq> [] then hook_call E d True # ran w else ran w) \<or>
     (\<exists>data. served E d w source data (ap_Revision v) \<and> ap_OutputHash v = Hash E data \<and>
       synced_at (nodes w') (de_Destination d) (published (new_file E) (Bytes data) m uid gid) \<and>
       ran w' = (if argv d = [] then ran w else hook_call E d True # ran w)))"
proof -
  have some: "applied_state w = (applied_state w)(name \<mapsto> recorded name w)" if "1 \<le> sint (ap_Revision (recorded name w))"
    using that by (auto simp: recorded_def zero_applied_def fun_upd_idem split: option.splits)
  have "sync_outcome E c name d w (Inr ()) w'"
    using wpreD [OF wpre_syncOne [OF assms(1,2)] assms(3)] .
  then show ?thesis
  proof cases
    case (nothing_to_do m uid gid)
    obtain source where s: "template_read E d source w" "1 \<le> sint (ap_Revision (recorded name w))"
        "ap_Fingerprint (recorded name w) = fingerprint E d source"
      using nothing_to_do(3) by (auto simp: up_to_date_def)
    have j: "journal (nodes w') (revisions_file c) = Some (applied_state w')"
      using in_step_quiet [OF nothing_to_do(1) assms(1)] by (simp add: in_step_def)
    show ?thesis
      by (rule exI [of _ "recorded name w"], rule exI [of _ source], rule exI [of _ m],
          rule exI [of _ uid], rule exI [of _ gid])
         (use j s nothing_to_do some [OF s(2)] quiet_same [OF nothing_to_do(1)] in auto)
  next
    case (hook_due m uid gid)
    obtain source where s: "template_read E d source w" "1 \<le> sint (ap_Revision (recorded name w))"
        "ap_Fingerprint (recorded name w) = fingerprint E d source"
      using hook_due(4) by (auto simp: up_to_date_def)
    show ?thesis
      by (rule exI [of _ "(recorded name w)\<lparr>ap_Pending := False\<rparr>"], rule exI [of _ source], rule exI [of _ m],
          rule exI [of _ uid], rule exI [of _ gid])
         (use s hook_due in \<open>auto simp: hook_finished_def cleared_def\<close>)
  next
    case (publishing m uid gid source data revision)
    let ?v = "(new_record E d (fingerprint E d source) data revision)\<lparr>ap_Pending := False\<rparr>"
    have sv: "template_read E d source w" "1 \<le> sint revision"
      using publishing(4) by (simp_all add: served_def)
    have m: "applied_state w' = (applied_state w)(name \<mapsto> ?v)"
      using publishing(5) by (auto simp: remembers_def)
    show ?thesis
      by (rule exI [of _ ?v], rule exI [of _ source], rule exI [of _ m],
          rule exI [of _ uid], rule exI [of _ gid])
         (use m sv publishing in \<open>auto simp: on_disk_def new_record_def\<close>)
  qed
qed


lemma destination_stays:
  "separate c d w \<Longrightarrow> evolved {revisions_file c} (nodes w) (nodes w') \<Longrightarrow>
     dest (nodes w') (de_Destination d) = dest (nodes w) (de_Destination d)"
  by (rule evolved_dest) (auto simp: separate_def)

text \<open>C26: A failed synchronisation never loses anything: the records of the other definitions
  stay, the record of this one stays or is the new one with its hook still pending, so a
  revision counts as done only after its hook; and the destination is the file it was, or the
  complete new file with the value the server answered.\<close>

theorem syncOne_failure:
  assumes "in_step c w" and "separate c d w" and "syncOne E name d w = (Inl e, w')"
  shows "(\<forall>k. k \<noteq> name \<longrightarrow> applied_state w' k = applied_state w k) \<and>
    (recorded name w' = recorded name w \<or> argv d \<noteq> [] \<and> ap_Pending (recorded name w')) \<and>
    (dest (nodes w') (de_Destination d) = dest (nodes w) (de_Destination d) \<or>
     (\<exists>source data revision m uid gid. served E d w source data revision \<and> owners E d m uid gid \<and>
        synced_at (nodes w') (de_Destination d) (published (new_file E) (Bytes data) m uid gid)))"
proof -
  have "sync_outcome E c name d w (Inl e) w'"
    using wpreD [OF wpre_syncOne [OF assms(1,2)] assms(3)] .
  then show ?thesis
  proof cases
    case early
    have "dest (nodes w') (de_Destination d) = dest (nodes w) (de_Destination d)"
      by (rule dest_aged) (use early in \<open>simp add: quiet_def\<close>)
    then show ?thesis using quiet_same [OF early] by simp
  next
    case (hook_due m uid gid)
    have "(recorded name w)\<lparr>ap_Pending := True\<rparr> = recorded name w"
      using hook_due(5) by (cases "recorded name w") simp
    then show ?thesis
      using hook_due(7) destination_stays [OF assms(2) hook_due(2)]
      by (auto simp: hook_unfinished_def hook_unrecorded_def recorded_def)
  next
    case (publishing m uid gid source data revision)
    have "dest (nodes w') (de_Destination d) = dest (nodes w) (de_Destination d) \<or>
        synced_at (nodes w') (de_Destination d) (published (new_file E) (Bytes data) m uid gid)"
      using publishing(6) by (auto simp: on_disk_def)
    moreover have "recorded name w' = recorded name w \<or> argv d \<noteq> [] \<and> ap_Pending (recorded name w')"
      using publishing(5) by (auto simp: remembers_def new_record_def)
    moreover have "\<forall>k. k \<noteq> name \<longrightarrow> applied_state w' k = applied_state w k"
      using publishing(5) by (simp add: remembers_def)
    ultimately show ?thesis using publishing(3,4) by blast
  qed
qed

lemma journal_after_sync:
  assumes "in_step c w" and "separate c d w" and "syncOne E name d w = (x, w')"
  shows "\<exists>m. journal (nodes w') (revisions_file c) = Some m \<and>
    (m = applied_state w \<or>
     (\<exists>v. m = (applied_state w)(name \<mapsto> v) \<and>
        ((\<exists>f b. synced_at (nodes w') (de_Destination d) f \<and> f_data f = Bytes b \<and> Hash E b = ap_OutputHash v) \<or>
         v = (recorded name w)\<lparr>ap_Pending := False\<rparr> \<and>
           dest (nodes w') (de_Destination d) = dest (nodes w) (de_Destination d)) \<and>
        (argv d \<noteq> [] \<longrightarrow> ap_Pending v \<or> ran w' = hook_call E d True # ran w)))"
proof -
  have "sync_outcome E c name d w x w'"
    using wpreD [OF wpre_syncOne [OF assms(1,2)] assms(3)] .
  then show ?thesis
  proof cases
    case (early e)
    then show ?thesis
      using in_step_quiet [OF early(2) assms(1)] quiet_same [OF early(2)] by (auto simp: in_step_def)
  next
    case (nothing_to_do m uid gid)
    then show ?thesis
      using in_step_quiet [OF nothing_to_do(2) assms(1)] quiet_same [OF nothing_to_do(2)] by (auto simp: in_step_def)
  next
    case (hook_due m uid gid)
    then show ?thesis
      using destination_stays [OF assms(2) hook_due(2)]
      by (auto simp: hook_defs cleared_def split: sum.splits)
  next
    case (publishing m uid gid source data revision)
    let ?v = "new_record E d (fingerprint E d source) data revision"
    let ?f = "published (new_file E) (Bytes data) m uid gid"
    have f: "f_data ?f = Bytes data" "Hash E data = ap_OutputHash ?v" "ap_Pending ?v = (argv d \<noteq> [])"
      "Hash E data = ap_OutputHash (?v\<lparr>ap_Pending := False\<rparr>)"
      by (simp_all add: published_def new_record_def)
    consider "journal (nodes w') (revisions_file c) = Some (applied_state w)"
      | "synced_at (nodes w') (de_Destination d) ?f" "argv d \<noteq> []"
          "journal (nodes w') (revisions_file c) = Some ((applied_state w)(name \<mapsto> ?v))"
      | "synced_at (nodes w') (de_Destination d) ?f" "ran w' = (if argv d = [] then ran w else hook_call E d True # ran w)"
          "journal (nodes w') (revisions_file c) = Some ((applied_state w)(name \<mapsto> ?v\<lparr>ap_Pending := False\<rparr>))"
      using publishing(6) by (auto simp: on_disk_def)
    then show ?thesis using f by cases (metis, metis, metis)
  qed
qed


end
