(* ===== verification/Steady.thy ===== *)
theory Steady
  imports Reconcile
begin

text \<open>
  Synchronisations in which nothing fails: they can be computed, a second one finds nothing to
  do, and a published definition stays published.
\<close>

section \<open>Runs without faults\<close>

definition calm :: "'z host_scheme \<Rightarrow> bool" where
  "calm w \<longleftrightarrow> \<not> crashed w \<and> outcomes w = []"

lemma calm_sys: "calm w \<Longrightarrow> sys m w = m w"
  by (simp add: calm_def sys_def)

definition call_of :: "string \<Rightarrow> string \<Rightarrow> string \<Rightarrow> 'z agent_world_scheme \<Rightarrow> api_call" where
  "call_of path method payload w =
     \<lparr>ac_Method = method, ac_Url = api_url (Cfg w) path,
      ac_Bearer = (if cr_Token (Credentials w) \<noteq> [] then Some (cr_Token (Credentials w)) else None), ac_Body = payload\<rparr>"

lemma agent_request_calm:
  assumes "calm w" and "replies w = Answer 200 b # rs" and "decode_answer b fld zero = Inr v"
  shows "agent_request path method payload fld zero w =
    (Inr v, w\<lparr>sent := call_of path method payload w # sent w, replies := rs\<rparr>)"
  using assms
  by (simp add: agent_request_def andthen_def gets_def on_error_def exchange_def calm_sys Let_def lift_def call_of_def)

lemma template_source_none: "de_Template d = [] \<Longrightarrow> template_source E d w = (Inr [], w)"
  by (simp add: template_source_def ret_def)

lemma deployed_calm:
  assumes "calm w"
  shows "deployed E d old m uid gid w = (Inr (verified E d old m uid gid w), w)"
  using assms
  by (auto simp: deployed_def verified_def andthen_def attempt_def Lstat_def ReadFile_def calm_sys ret_def
      split: sum.split node.split)

lemma lift_run: "lift r w = (r, w)"
  by (simp add: lift_def)

lemma syncOne_idempotent':
  assumes "calm w" and "template_source E d w = (Inr source, w)"
    and "replies w = Answer 200 b # rs" and "decode_answer b revision_field 0 = Inr (ap_Revision (recorded name w))"
    and "1 \<le> sint (ap_Revision (recorded name w))" and "ap_Fingerprint (recorded name w) = fingerprint E d source"
    and "owners E d m uid gid" and "verified E d (recorded name w) m uid gid w"
    and "ap_Pending (recorded name w) \<longrightarrow> argv d = []"
  shows "syncOne E name d w =
    (Inr (), w\<lparr>sent := call_of (''metadata/'' @ escape_path (de_Path d)) ''GET'' [] w # sent w, replies := rs\<rparr>)"
proof -
  have calm: "calm (w\<lparr>sent := xs, replies := ys\<rparr>)" for xs ys using assms(1) by (simp add: calm_def)
  have rec: "recorded name (w\<lparr>sent := xs, replies := ys\<rparr>) = recorded name w" for xs ys by (simp add: recorded_def)
  have ver: "verified E d old m uid gid (w\<lparr>sent := xs, replies := ys\<rparr>) = verified E d old m uid gid w" for old xs ys
    by (rule verified_nodes) simp
  note runs = agent_request_calm [OF assms(1,3,4)] deployed_calm [OF calm] lift_run
  show ?thesis
    using assms(5-9)
    by (simp add: syncOne_def andthen_def assms(2) Let_def runs rec ver owners_def gets_def ret_def runCommand_def)
qed

text \<open>Synchronising is idempotent. If the server still names the recorded revision, the
  definition and its template have the recorded fingerprint, the file at the destination
  passes the check and no hook is pending, then a synchronisation asks for the metadata once
  and does nothing else: no other request, no write, no hook, no change of the records.\<close>

theorem syncOne_idempotent:
  assumes "calm w" and "template_source E d w = (Inr source, w)"
    and "replies w = Answer 200 b # rs" and "decode_answer b revision_field 0 = Inr (ap_Revision (recorded name w))"
    and "1 \<le> sint (ap_Revision (recorded name w))" and "ap_Fingerprint (recorded name w) = fingerprint E d source"
    and "owners E d m uid gid" and "verified E d (recorded name w) m uid gid w"
    and "ap_Pending (recorded name w) \<longrightarrow> argv d = []"
  shows "syncOne E name d w =
    (Inr (), w\<lparr>sent := call_of (''metadata/'' @ escape_path (de_Path d)) ''GET'' [] w # sent w, replies := rs\<rparr>)"
  by (rule syncOne_idempotent' [OF assms])

section \<open>Convergence\<close>

text \<open>Numbers the kernel takes as they are.\<close>

definition plain_owner :: "int \<Rightarrow> bool" where
  "plain_owner n \<longleftrightarrow> n = - 1 \<or> 0 \<le> n \<and> n < 2 ^ 32 - 1"

lemma own_id_plain: "plain_owner n \<Longrightarrow> n = - 1 \<or> own_id old n = n"
  by (auto simp: plain_owner_def own_id_def)

lemma published_verified:
  assumes "owners E d m uid gid" and "plain_owner uid" and "plain_owner gid" and "outside_own c (de_Destination d)"
    and "synced_at (nodes w) (de_Destination d) (published f (Bytes data) m uid gid)" and "ap_OutputHash v = Hash E data"
  shows "verified E d v m uid gid w"
proof -
  let ?f = "published f (Bytes data) m uid gid"
  have "node_at E w (de_Destination d) b = Inr (Reg ?f)" for b
    using assms(4,5) by (intro synced_node_at) (simp_all add: outside_own_def)
  moreover have "m \<le> 511" using assms(1) by (auto simp: owners_def dest: parseMode_bound)
  then have "as_deployed E v m uid gid ?f (f_data ?f)"
    using assms(6) own_id_plain [OF assms(2)] own_id_plain [OF assms(3)]
    by (auto simp: as_deployed_def published_def)
  ultimately show ?thesis by (auto simp: verified_def)
qed

text \<open>C27: Synchronisation converges: after a synchronisation that published a value, one in a world
  where no system call fails and nothing crashes (\<open>calm\<close>), where the server names the recorded
  revision and the template, when the definition has one, reads as it did, asks for the
  metadata once and does nothing else: no other request, no write, no hook, no change of the
  records. The configured owner and group must be unset or below 4294967295; an
  owner beyond 32 bits is published again by every poll (\<open>owner_wraps\<close>).\<close>

theorem sync_converges:
  assumes "in_step c w" and "separate c d w" and "outside_own c (de_Destination d)"
    and run: "syncOne E name d w = (Inr (), w')" and due: "\<forall>m uid gid. \<not> up_to_date E name d m uid gid w"
    and own: "\<forall>m uid gid. owners E d m uid gid \<longrightarrow> plain_owner uid \<and> plain_owner gid"
    and again: "calm w'" "\<forall>source. template_read E d source w \<longrightarrow> template_source E d w' = (Inr source, w')"
      "replies w' = Answer 200 b # rs" "decode_answer b revision_field 0 = Inr (ap_Revision (recorded name w'))"
  shows "syncOne E name d w' =
    (Inr (), w'\<lparr>sent := call_of (''metadata/'' @ escape_path (de_Path d)) ''GET'' [] w' # sent w', replies := rs\<rparr>)"
proof -
  obtain v source m uid gid data where v: "applied_state w' = (applied_state w)(name \<mapsto> v)" "owners E d m uid gid"
      "template_read E d source w" "1 \<le> sint (ap_Revision v)" "ap_Fingerprint v = fingerprint E d source"
      "argv d \<noteq> [] \<longrightarrow> \<not> ap_Pending v" "ap_OutputHash v = Hash E data"
      "synced_at (nodes w') (de_Destination d) (published (new_file E) (Bytes data) m uid gid)"
    using syncOne_done [OF assms(1,2) run] due by blast
  have rec: "recorded name w' = v" using v(1) by (simp add: recorded_def)
  have "template_source E d w' = (Inr source, w')" using v(3) again(2) by blast
  have ver: "verified E d v m uid gid w'"
    using v(2) own by (intro published_verified [OF v(2) _ _ assms(3) v(8,7)]) blast+
  show ?thesis
  proof (rule syncOne_idempotent' [OF again(1) \<open>template_source E d w' = (Inr source, w')\<close> again(3,4)])
  qed (use v rec ver in auto)
qed

text \<open>An owner beyond 32 bits is accepted but not honoured: \<open>4294967296\<close> is a valid number for
  the agent, the kernel takes its low 32 bits, so the published file belongs to root; and the
  agent's own check never recognises it, so every poll publishes it again.\<close>

theorem owner_wraps:
  "id_of E ''4294967296'' False = Inr 4294967296 \<and>
   f_uid (published f data m 4294967296 gid) = 0 \<and>
   \<not> as_deployed E old m' 4294967296 gid' (published f data m 4294967296 gid) data'"
proof -
  have "Atoi ''4294967296'' = Some 4294967296"
    by (simp add: Atoi_def decimal_value_def digit_value_def is_decimal_def HasPrefix_def)
  then show ?thesis by (simp add: id_of_def published_def own_id_def as_deployed_def)
qed

section \<open>A concrete run\<close>

text \<open>The concrete machine while the agent works on it.\<close>

definition demo_ok :: "'z host_scheme \<Rightarrow> bool" where
  "demo_ok w \<longleftrightarrow> calm w \<and> unused_above w \<and> 6 \<le> next_ino w \<and> nodes w 0 = demo_agent_nodes 0 \<and>
     (\<forall>k\<in>{1, 2}. \<exists>p es. nodes w k = Some (Directory p es) \<and>
        (\<forall>c. temporary c \<longrightarrow> es c = None) \<and> (\<forall>c. case es c of None \<Rightarrow> True | Some j \<Rightarrow> \<exists>f. nodes w j = Some (Reg f)))"

lemma demo_paths:
  "path_parts ''/run/key'' = [''run'', ''key'']" "path_parts ''/st/revisions.json'' = [''st'', ''revisions.json'']"
  "revisions_file demo_config = ''/st/revisions.json''" "Clean ''/run/key'' = ''/run/key''"
  "Clean ''/st/revisions.json'' = ''/st/revisions.json''"
  "path_parts ''/st/credentials.json'' = [''st'', ''credentials.json'']" "Clean ''/st/credentials.json'' = ''/st/credentials.json''"
proof -
  show "path_parts ''/run/key'' = [''run'', ''key'']" "path_parts ''/st/revisions.json'' = [''st'', ''revisions.json'']"
    "path_parts ''/st/credentials.json'' = [''st'', ''credentials.json'']"
    by (simp_all add: path_parts_def TrimPrefix_def HasPrefix_def)
  show "revisions_file demo_config = ''/st/revisions.json''" by code_simp
  show "Clean ''/run/key'' = ''/run/key''" "Clean ''/st/revisions.json'' = ''/st/revisions.json''"
    "Clean ''/st/credentials.json'' = ''/st/credentials.json''" by code_simp+
qed

lemma demo_write:
  assumes ok: "demo_ok w"
    and path: "(path, k :: nat, c) \<in> {(''/run/key'', 1, ''key''), (''/st/revisions.json'', 2, ''revisions.json''),
      (''/st/credentials.json'', 2, ''credentials.json'')}"
    and Q: "\<And>w'. demo_ok w' \<Longrightarrow> host.more w' = host.more w \<Longrightarrow> Q (Inr ()) w'"
  shows "wpre (AtomicWrite E path data m uid gid) Q w"
proof -
  obtain p es where d: "nodes w k = Some (Directory p es)" and temp: "\<And>c. temporary c \<Longrightarrow> es c = None"
      and reg: "\<And>c. case es c of None \<Rightarrow> True | Some j \<Rightarrow> \<exists>f. nodes w j = Some (Reg f)"
    using ok path unfolding demo_ok_def by auto
  have k: "k = 1 \<or> k = 2" using path by auto
  have fresh: "nodes w (next_ino w) = None" using ok by (simp add: demo_ok_def unused_above_def)
  have root: "nodes w 0 = demo_agent_nodes 0" and six: "6 \<le> next_ino w" using ok by (simp_all add: demo_ok_def)
  have parts: "last (path_parts path) = c" "walk (nodes w) 0 (butlast (path_parts path)) = Some k" "\<not> temporary c"
    using path d root by (auto simp: demo_paths demo_agent_nodes_def demo_dir_def temporary_def HasPrefix_def)
  let ?w = "w\<lparr>nodes := (nodes w)(next_ino w \<mapsto> Reg (published (new_file E) data m uid gid), k \<mapsto> Directory p (es(c \<mapsto> next_ino w))),
      next_ino := Suc (next_ino w), drawn := Suc (drawn w)\<rparr>"
  have run: "AtomicWrite E path data m uid gid w = (Inr (), ?w)"
    unfolding parts(1) [symmetric]
  proof (rule AtomicWrite_run)
    show "\<not> crashed w" "outcomes w = []" using ok by (simp_all add: demo_ok_def calm_def)
    show "IsAbs path" "Clean path = path" "path \<noteq> ''/''"
      using path by (auto simp: IsAbs_def HasPrefix_def demo_paths)
    show "walk (nodes w) 0 (butlast (path_parts path)) = Some k" by (rule parts(2))
    show "case es (last (path_parts path)) of None \<Rightarrow> True
      | Some j \<Rightarrow> (case nodes w j of Some (Reg f) \<Rightarrow> True | _ \<Rightarrow> False)"
      using reg [of "last (path_parts path)"] by (auto split: option.splits)
    show "es (temp_name E (drawn w)) = None" by (simp add: temp)
    show "\<not> HasPrefix (last (path_parts path)) ''.ssm-''" using parts by (simp add: temporary_def)
  qed (rule d, rule fresh)
  have "demo_ok ?w"
    unfolding demo_ok_def
  proof (intro conjI ballI)
    show "calm ?w" using ok by (simp add: demo_ok_def calm_def)
    show "unused_above ?w"
      using ok k six by (auto simp: demo_ok_def unused_above_def)
    show "6 \<le> next_ino ?w" using six by simp
    show "nodes ?w 0 = demo_agent_nodes 0" using root k six by auto
  next
    fix i :: nat assume i: "i \<in> {1, 2}"
    obtain q fs where fs: "nodes w i = Some (Directory q fs)" "\<forall>c. temporary c \<longrightarrow> fs c = None"
        "\<forall>c. case fs c of None \<Rightarrow> True | Some j \<Rightarrow> \<exists>f. nodes w j = Some (Reg f)"
      using ok i unfolding demo_ok_def by blast
    have keep: "\<exists>f. nodes ?w j = Some (Reg f)" if "nodes w j = Some (Reg f)" for j f
      using that fresh d by auto
    let ?es = "if i = k then es(c \<mapsto> next_ino w) else fs"
    have "nodes ?w i = Some (Directory (if i = k then p else q) ?es)"
      using fs(1) fresh i six by auto
    moreover have "\<forall>c. temporary c \<longrightarrow> ?es c = None"
      using fs(2) temp parts(3) by auto
    moreover have "case ?es x of None \<Rightarrow> True | Some j \<Rightarrow> \<exists>f. nodes ?w j = Some (Reg f)" for x
    proof -
      have new: "\<exists>f. nodes ?w (next_ino w) = Some (Reg f)" using d fresh by auto
      have old: "case es x of None \<Rightarrow> True | Some j \<Rightarrow> \<exists>f. nodes ?w j = Some (Reg f)"
        using reg [of x] keep by (auto simp del: fun_upd_apply split: option.splits)
      have oth: "case fs x of None \<Rightarrow> True | Some j \<Rightarrow> \<exists>f. nodes ?w j = Some (Reg f)"
        using fs(3) [rule_format, of x] keep by (auto simp del: fun_upd_apply split: option.splits)
      show ?thesis
        using new old oth by (cases "i = k"; cases "x = c") (simp_all only: simp_thms if_True if_False fun_upd_same fun_upd_other option.case)
    qed
    ultimately show "\<exists>p es. nodes ?w i = Some (Directory p es) \<and> (\<forall>c. temporary c \<longrightarrow> es c = None) \<and>
        (\<forall>c. case es c of None \<Rightarrow> True | Some j \<Rightarrow> \<exists>f. nodes ?w j = Some (Reg f))"
      by blast
  qed
  with run show ?thesis by (simp add: wpre_def Q)
qed

lemma demo_decoded:
  "decode_answer (marshal_object [(''revision'', ''1'')]) revision_field 0 = Inr 1"
  "decode_answer (marshal_object [(''data'', marshal_object [(''value'', marshal_string ''new'')]), (''revision'', ''1'')])
     value_fields ([], 0) = Inr (''new'', 1)"
proof -
  have short: "length b \<le> 100 \<Longrightarrow> decode_answer b fld zero = (case json_next b of
        JValue v rest \<Rightarrow> (case into_struct fld v zero of None \<Rightarrow> Inl json_error | Some x \<Rightarrow> Inr x)
      | _ \<Rightarrow> Inl json_error)" for b fld and zero :: 't
    by (simp add: decode_answer_def)
  let ?a = "marshal_object [(''revision'', ''1'')]"
  let ?b = "marshal_object [(''data'', marshal_object [(''value'', marshal_string ''new'')]), (''revision'', ''1'')]"
  have a: "json_next ?a = JValue (JObject [(''revision'', JInt 1)]) []" "length ?a \<le> 100" by code_simp+
  have b: "json_next ?b = JValue (JObject [(''data'', JObject [(''value'', JString ''new'')]), (''revision'', JInt 1)]) []"
    "length ?b \<le> 100" by code_simp+
  have names: "names ''revision'' ''revision''" "names ''data'' ''data''" "names ''value'' ''value''"
    "\<not> names ''revision'' ''data''" by code_simp+
  show "decode_answer ?a revision_field 0 = Inr 1"
    by (simp add: short [OF a(2)] a(1) into_struct_def revision_field_def field_def names set_int_def)
  show "decode_answer ?b value_fields ([], 0) = Inr (''new'', 1)"
    by (simp add: short [OF b(2)] b(1) into_struct_def value_fields_def data_fields_def field_def names
        set_int_def set_string_def)
qed

lemma wpre_calm_request:
  assumes "calm w" and "replies w = Answer 200 b # rs" and "decode_answer b fld zero = Inr v"
  shows "wpre (agent_request path method payload fld zero) Q w \<longleftrightarrow>
    Q (Inr v) (w\<lparr>sent := call_of path method payload w # sent w, replies := rs\<rparr>)"
  by (simp add: wpre_def agent_request_calm [OF assms])

lemma wpre_calm_deployed:
  "calm w \<Longrightarrow> wpre (deployed E d old m uid gid) Q w \<longleftrightarrow> Q (Inr (verified E d old m uid gid w)) w"
  by (simp add: wpre_def deployed_calm)

lemma demo_ok_update [simp]:
  "demo_ok (w\<lparr>applied_state := m\<rparr>) = demo_ok w" "demo_ok (w\<lparr>ran := xs\<rparr>) = demo_ok w"
  by (simp_all add: demo_ok_def calm_def unused_above_def cong: option.case_cong)

text \<open>Publishing on the concrete machine succeeds.\<close>

lemma demo_publishes:
  assumes ok: "demo_ok w" and w: "Cfg w = demo_config" "hooks w = []" "cancel_in w = None"
  shows "wpre (publish_value E name demo_definition fp m uid gid old data revision)
    (\<lambda>x w'. x = Inr () \<and> calm w' \<and> replies w' = replies w \<and>
       applied_state w' name = Some \<lparr>ap_Revision = revision, ap_Fingerprint = fp, ap_OutputHash = Hash E data, ap_Pending = False\<rparr>) w"
    (is "wpre _ ?Q w")
proof -
  have d: "de_Destination demo_definition = ''/run/key''" "argv demo_definition = [''/bin/true'']"
    by (simp_all add: demo_definition_def argv_def)
  let ?v = "\<lparr>ap_Revision = revision, ap_Fingerprint = fp, ap_OutputHash = Hash E data, ap_Pending = True\<rparr>"
  have rv: "state_file demo_config ''revisions.json'' = ''/st/revisions.json''"
    using demo_paths(3) by (simp add: revisions_file_def)
  have save: "wpre (save E) R w'" if "demo_ok w'" "Cfg w' = demo_config"
    "\<And>w''. demo_ok w'' \<Longrightarrow> host.more w'' = host.more w' \<Longrightarrow> R (Inr ()) w''" for R w'
    using that by (simp add: save_def wp rv) (rule demo_write [where k = 2 and c = "''revisions.json''"], simp_all)
  have hook: "wpre (runCommand E name demo_definition) ?Q w'"
    if w': "demo_ok w'" "Cfg w' = demo_config" "hooks w' = []" "replies w' = replies w" "applied_state w' name = Some ?v" for w'
  proof -
    have "\<not> crashed w'" "outcomes w' = []" using w'(1) by (simp_all add: demo_ok_def calm_def)
    then have run: "wpre (run_hook a t) R w' \<longleftrightarrow> R (Inr ()) (hook_ended a t True w')" for a t R
      using w'(3) by (simp add: wpre_def run_hook_def sys_def)
    have rec: "recorded name (hook_ended a t ok w') = ?v" for a t ok using w'(5) by (simp add: recorded_def)
    let ?r = "hook_ended (argv demo_definition) (command_timeout E demo_definition) True w'"
    have "wpre (save E) (\<lambda>r. wpre (case r of Inr _ \<Rightarrow> ret () | Inl e \<Rightarrow> andthen (set_recorded name (?v\<lparr>ap_Pending := True\<rparr>)) (\<lambda>_.
          throw (ErrText ''could not persist command completion''))) ?Q)
        (?r\<lparr>applied_state := (applied_state ?r)(name \<mapsto> ?v\<lparr>ap_Pending := False\<rparr>)\<rparr>)"
    proof (rule save, goal_cases)
      case (3 w'')
      have "replies w'' = replies w" "applied_state w'' name = Some (?v\<lparr>ap_Pending := False\<rparr>)"
        using rest_world(3,8) [OF 3(2)] w'(4) by simp_all
      with 3(1) show ?case by (simp add: wp demo_ok_def)
    qed (use w' in simp_all)
    moreover have cmd: "argv demo_definition \<noteq> []" by (simp add: d)
    ultimately show ?thesis
      unfolding runCommand_def if_not_P [OF cmd] wpre_andthen [of "on_error _ _"] wpre_on_error run
      unfolding sum.case wpre_andthen wpre_gets rec set_recorded_def wpre_modify wpre_attempt
      by (elim wpre_mono) (auto simp: wp split: sum.splits)
  qed
  have "wpre (AtomicWrite E ''/run/key'' (Bytes data) m uid gid) (\<lambda>r. wpre (case r of Inl e \<Rightarrow> throw (ErrText ''atomic destination write failed'')
      | Inr u \<Rightarrow> andthen (set_recorded name ?v) (\<lambda>_. andthen (attempt (save E)) (\<lambda>r. case r of
         Inl e \<Rightarrow> andthen (set_recorded name old) (\<lambda>_. throw (ErrText ''could not persist revision''))
       | Inr _ \<Rightarrow> runCommand E name demo_definition))) ?Q) w"
  proof (rule demo_write [where k = 1 and c = "''key''", OF ok], goal_cases)
    case (2 w1)
    note w1 = rest_world [OF 2(2)]
    have "wpre (save E) (\<lambda>r. wpre (case r of
         Inl e \<Rightarrow> andthen (set_recorded name old) (\<lambda>_. throw (ErrText ''could not persist revision''))
       | Inr _ \<Rightarrow> runCommand E name demo_definition) ?Q) (w1\<lparr>applied_state := (applied_state w1)(name \<mapsto> ?v)\<rparr>)"
    proof (rule save, goal_cases)
      case (3 w2)
      show ?case
        unfolding sum.case
        by (rule hook) (use 3 rest_world(1,3,8,9) [OF 3(2)] w1 w in simp_all)
    qed (use 2 w1 w in simp_all)
    then show ?case
      unfolding sum.case set_recorded_def wpre_andthen [of "modify _"] wpre_modify wpre_andthen [of "attempt _"] wpre_attempt
      by (elim wpre_mono) simp
  qed simp
  moreover have go_on: "wpre ctx_done R w \<longleftrightarrow> R (Inr False) w" for R
    using w(3) by (simp add: wpre_def ctx_done_def)
  ultimately show ?thesis
    unfolding publish_value_def wpre_andthen [of ctx_done] go_on
    unfolding sum.case if_False wpre_andthen [of "on_error _ _"] wpre_on_error d
    by (elim wpre_mono) (auto simp: d wp split: sum.splits)
qed

lemma demo_walk: "walk demo_agent_nodes 0 p = Some k \<longleftrightarrow> (p, k) \<in> {([], 0), ([''run''], 1), ([''st''], 2), ([''sd''], 3)}"
proof (cases p)
  case (Cons c cs)
  have "walk demo_agent_nodes i cs = Some k \<longleftrightarrow> cs = [] \<and> k = i" if "i = 1 \<or> i = 2 \<or> i = 3" for i
    using that by (cases cs) (auto simp: demo_agent_nodes_def demo_dir_def)
  then show ?thesis
    using Cons by (auto simp: demo_agent_nodes_def demo_dir_def)
qed auto

lemma demo_tree: "tree demo_agent_nodes"
  by (auto simp: tree_def demo_walk)

lemma demo_parent: "parent demo_agent_nodes ''/run/key'' = Some 1" "parent demo_agent_nodes ''/st/revisions.json'' = Some 2"
  by (simp_all add: parent_def demo_paths demo_agent_nodes_def demo_dir_def)

lemma demo_in_step: "in_step demo_config (demo_agent_world rs os)"
proof -
  have "journal demo_agent_nodes ''/st/revisions.json'' = Some Map.empty"
    by (simp add: journal_def dest_parent demo_parent leaf_name_def demo_paths) (simp add: demo_agent_nodes_def demo_dir_def)
  then show ?thesis
    using demo_agent_unused [of rs os]
    by (simp add: in_step_def demo_agent_world_def demo_tree demo_paths) (simp add: demo_config_def IsAbs_def HasPrefix_def)
qed

lemma demo_destination: "de_Destination demo_definition = ''/run/key''"
  by (simp add: demo_definition_def)

lemma demo_separate: "separate demo_config demo_definition (demo_agent_world rs os)"
  by (simp add: separate_def demo_destination demo_paths apart_def demo_agent_world_def demo_parent leaf_name_def
      temporary_def HasPrefix_def)

lemma demo_start: "demo_ok (demo_agent_world rs [])"
proof -
  have "\<not> temporary ''key''" by (simp add: temporary_def HasPrefix_def)
  then show ?thesis
    using demo_agent_unused [of rs "[]"]
    by (auto simp: demo_ok_def calm_def demo_agent_world_def demo_agent_nodes_def demo_dir_def split: option.split if_splits)
qed

lemma demo_own: "owners demo_agent_env demo_definition 384 (- 1) (- 1)"
  by (simp add: owners_def demo_definition_def parseMode_def id_of_def)

lemma demo_sync_any:
  assumes "decode_answer a revision_field 0 = Inr 1" and "decode_answer b value_fields ([], 0) = Inr (''new'', 1)"
  shows "wpre (syncOne demo_agent_env name demo_definition)
     (\<lambda>x w'. x = Inr () \<and> calm w' \<and> replies w' = rs \<and> applied_state w' name = Some
        \<lparr>ap_Revision = 1, ap_Fingerprint = fingerprint demo_agent_env demo_definition [],
         ap_OutputHash = Hash demo_agent_env ''new'', ap_Pending = False\<rparr>)
     (demo_agent_world (Answer 200 a # Answer 200 b # rs) [])"
    (is "wpre _ ?Q ?w")
proof -
  let ?path = "escape_path (de_Path demo_definition)"
  let ?url = "\<lambda>p. call_of (p @ ?path) ''GET'' [] ?w"
  have none: "template_source demo_agent_env demo_definition w = (Inr [], w)" "de_Template demo_definition = []" for w
    by (simp_all add: template_source_def demo_definition_def ret_def)
  have w: "calm ?w" "replies ?w = Answer 200 a # Answer 200 b # rs"
    using demo_start [of "replies ?w"] by (simp_all add: demo_ok_def demo_agent_world_def)
  have rec: "recorded name (w\<lparr>sent := xs, replies := ys\<rparr>) = recorded name w" for w :: agent_world and xs ys
    by (simp add: recorded_def)
  have zero: "recorded name ?w = zero_applied" by (simp add: recorded_def demo_agent_world_def)
  have calm: "calm (?w\<lparr>sent := xs, replies := ys\<rparr>)" for xs ys using w(1) by (simp add: calm_def)
  have ok: "demo_ok (?w\<lparr>sent := xs, replies := ys\<rparr>)" for xs ys
    using demo_start [of "Answer 200 a # Answer 200 b # rs"] by (simp add: demo_ok_def calm_def unused_above_def cong: option.case_cong)
  have rest: "Cfg ?w = demo_config" "hooks ?w = []" "cancel_in ?w = None" by (simp_all add: demo_agent_world_def)
  have publish: "wpre (publish_value demo_agent_env name demo_definition (fingerprint demo_agent_env demo_definition []) 384 (- 1) (- 1)
       zero_applied ''new'' 1) ?Q (?w\<lparr>sent := xs, replies := rs\<rparr>)" for xs
    by (rule wpre_mono [OF demo_publishes [OF ok]]) (simp_all add: rest)
  have value_request: "wpre (agent_request path ''GET'' [] value_fields ([], 0)) R (?w\<lparr>sent := xs, replies := Answer 200 b # rs\<rparr>) \<longleftrightarrow>
      R (Inr (''new'', 1)) (?w\<lparr>sent := call_of path ''GET'' [] (?w\<lparr>sent := xs, replies := Answer 200 b # rs\<rparr>) # xs, replies := rs\<rparr>)"
    for R path xs
    by (subst wpre_calm_request [OF calm _ assms(2)]) simp_all
  have fetch: "wpre (andthen (agent_request (''secrets/'' @ ?path) ''GET'' [] value_fields ([], 0)) (\<lambda>(value, revision).
       if sint revision < 1 then throw (ErrText ''invalid value revision'')
       else andthen (if de_Template demo_definition \<noteq> [] then lift (Render demo_agent_env [] value (de_Path demo_definition) revision) else ret value) (\<lambda>data.
         publish_value demo_agent_env name demo_definition (fingerprint demo_agent_env demo_definition []) 384 (- 1) (- 1)
           zero_applied data revision))) ?Q (?w\<lparr>sent := xs, replies := Answer 200 b # rs\<rparr>)" for xs
    unfolding wpre_andthen [of "agent_request _ _ _ _ _"] value_request by (simp add: none wp publish)
  show ?thesis
    unfolding syncOne_def Let_def wpre_andthen [of "template_source _ _"] wpre_run [where m = "template_source _ _", OF none(1)] sum.case
      wpre_andthen [of "agent_request (''metadata/'' @ _) _ _ _ _"] wpre_calm_request [OF w assms(1)]
    using demo_own fetch
    by (simp add: owners_def wpre_andthen [of "lift _"] wpre_lift wpre_andthen [of "gets _"] wpre_gets rec zero
        wpre_andthen [of "deployed _ _ _ _ _ _"] wpre_calm_deployed [OF calm] zero_applied_def cong: if_cong)
qed

lemmas demo_sync = demo_sync_any [OF demo_decoded]

definition demo_run :: "server_reply list \<Rightarrow> (err + unit) \<times> agent_world" where
  "demo_run rs = syncOne demo_agent_env ''a.yaml'' demo_definition (demo_agent_world (demo_answers @ rs) [])"

lemma demo_run_facts:
  "fst (demo_run rs) = Inr ()" "calm (snd (demo_run rs))" "replies (snd (demo_run rs)) = rs"
  "ap_Revision (recorded ''a.yaml'' (snd (demo_run rs))) = 1"
  using demo_sync [of "''a.yaml''" rs] by (simp_all add: wpre_def demo_run_def recorded_def demo_answers_def)

lemma demo_run_pair: "demo_run rs = (Inr (), snd (demo_run rs))"
  using demo_run_facts(1) [of rs] by (cases "demo_run rs") simp

lemma demo_due: "\<not> up_to_date demo_agent_env ''a.yaml'' demo_definition m uid gid (demo_agent_world rs os)"
  by (simp add: up_to_date_def recorded_def demo_agent_world_def zero_applied_def)

lemma demo_plain: "owners demo_agent_env demo_definition m uid gid \<Longrightarrow> plain_owner uid \<and> plain_owner gid"
  using demo_own by (simp add: owners_def plain_owner_def)

lemma demo_outside: "outside_own demo_config (de_Destination demo_definition)"
proof -
  have "check_definition demo_agent_env demo_config [] demo_definition = Inr ()" by code_simp
  then show ?thesis using check_definition_Inr(1) by (auto simp: sound_definition_def)
qed


lemma agent_request_unanswered:
  assumes "calm w" and "replies w = []"
  shows "agent_request path method payload fld zero w =
    (Inl (ErrText ''server connection failed''), w\<lparr>sent := call_of path method payload w # sent w\<rparr>)"
  using assms
  by (simp add: agent_request_def andthen_def gets_def on_error_def exchange_def calm_sys Let_def call_of_def)

lemma syncOne_failure_witness:
  "applied_state (snd (syncOne demo_agent_env ''a.yaml'' demo_definition (demo_agent_world [] []))) ''b.yaml'' = None"
proof -
  let ?w = "demo_agent_world [] []"
  have "calm ?w" "replies ?w = []" using demo_start [of "[]"] by (simp_all add: demo_ok_def demo_agent_world_def)
  note dead = agent_request_unanswered [OF this]
  have "template_source demo_agent_env demo_definition ?w = (Inr [], ?w)"
    by (rule template_source_none) (simp add: demo_definition_def)
  then have "fst (syncOne demo_agent_env ''a.yaml'' demo_definition ?w) = Inl (ErrText ''server connection failed'')"
    by (simp add: syncOne_def andthen_def Let_def dead)
  then have run: "syncOne demo_agent_env ''a.yaml'' demo_definition ?w =
      (Inl (ErrText ''server connection failed''), snd (syncOne demo_agent_env ''a.yaml'' demo_definition ?w))"
    by (metis prod.collapse)
  have "applied_state ?w ''b.yaml'' = None" by (simp add: demo_agent_world_def)
  then show ?thesis using syncOne_failure [OF demo_in_step demo_separate run] by simp
qed


lemma sync_converges_witness:
  "fst (syncOne demo_agent_env ''a.yaml'' demo_definition (snd (demo_run [Answer 200 (marshal_object [(''revision'', ''1'')])]))) = Inr ()"
proof -
  let ?rs = "[Answer 200 (marshal_object [(''revision'', ''1'')])]"
  have run: "syncOne demo_agent_env ''a.yaml'' demo_definition (demo_agent_world (demo_answers @ ?rs) []) = (Inr (), snd (demo_run ?rs))"
    using demo_run_pair [of ?rs] by (simp add: demo_run_def)
  have "decode_answer (marshal_object [(''revision'', ''1'')]) revision_field 0 =
      Inr (ap_Revision (recorded ''a.yaml'' (snd (demo_run ?rs))))"
    by (simp add: demo_decoded demo_run_facts(4))
  moreover have "\<forall>source. template_read demo_agent_env demo_definition source (demo_agent_world (demo_answers @ ?rs) []) \<longrightarrow>
      template_source demo_agent_env demo_definition (snd (demo_run ?rs)) = (Inr source, snd (demo_run ?rs))"
    by (simp add: template_source_none template_read_def demo_definition_def)
  ultimately show ?thesis
    using sync_converges [OF demo_in_step demo_separate demo_outside run _ _ demo_run_facts(2) _ demo_run_facts(3)] demo_due demo_plain
    by fastforce
qed

lemma syncOne_idempotent_witness:
  "fst (syncOne demo_agent_env ''a.yaml'' demo_definition
     ((demo_agent_world [Answer 200 (marshal_object [(''revision'', ''1'')])] [])\<lparr>applied_state :=
        [''a.yaml'' \<mapsto> \<lparr>ap_Revision = 1, ap_Fingerprint = fingerprint demo_agent_env demo_definition [],
          ap_OutputHash = Hash demo_agent_env ''old'', ap_Pending = False\<rparr>]\<rparr>)) = Inr ()"
proof -
  let ?v = "\<lparr>ap_Revision = 1, ap_Fingerprint = fingerprint demo_agent_env demo_definition [],
          ap_OutputHash = Hash demo_agent_env ''old'', ap_Pending = False\<rparr>"
  let ?w = "(demo_agent_world [Answer 200 (marshal_object [(''revision'', ''1'')])] [])\<lparr>applied_state := [''a.yaml'' \<mapsto> ?v]\<rparr>"
  have rec: "recorded ''a.yaml'' ?w = ?v" by (simp add: recorded_def)
  have at: "node_at demo_agent_env ?w ''/run/key'' b =
      Inr (Reg \<lparr>f_data = Bytes ''old'', f_mode = 384, f_uid = 0, f_gid = 0, f_synced = True\<rparr>)" for b
    by (simp add: node_at_def locate_def demo_agent_world_def demo_agent_nodes_def demo_dir_def IsAbs_def HasPrefix_def)
  have ver: "verified demo_agent_env demo_definition ?v 384 (- 1) (- 1) ?w"
    by (simp add: verified_def demo_destination at as_deployed_def)
  have "syncOne demo_agent_env ''a.yaml'' demo_definition ?w =
    (Inr (), ?w\<lparr>sent := call_of (''metadata/'' @ escape_path (de_Path demo_definition)) ''GET'' [] ?w # sent ?w, replies := []\<rparr>)"
  proof (rule syncOne_idempotent [where source = "[]", OF _ _ _ _ _ _ demo_own])
    show "calm ?w" by (simp add: calm_def demo_agent_world_def)
    show "template_source demo_agent_env demo_definition ?w = (Inr [], ?w)"
      by (rule template_source_none) (simp add: demo_definition_def)
    show "replies ?w = Answer 200 (marshal_object [(''revision'', ''1'')]) # []" by (simp add: demo_agent_world_def)
  qed (simp_all add: rec ver demo_decoded(1))
  then show ?thesis by simp
qed

end
