(* ===== verification/Startup.thy ===== *)
theory Startup
  imports Steady
begin

text \<open>
  Starting the agent: what \<open>New\<close> accepts and reads back from the private state directory, what a
  restart after a crash finds there, and how enrolling stores its credential before using it.
\<close>

section \<open>Reading state files\<close>

lemma resolve_follow:
  "resolve ns n d cs follow = Inr i \<Longrightarrow> (\<And>t. ns i \<noteq> Some (Link t)) \<Longrightarrow> resolve ns n d cs True = Inr i"
proof (induction ns n d cs follow rule: resolve.induct)
  case (2 ns links d c cs follow)
  from "2.prems"(1) obtain p es where d: "ns d = Some (Directory p es)"
    by (auto split: option.splits node.splits)
  show ?case
  proof (cases "c = [] \<or> c = ''.'' \<or> c = ''..''")
    case True
    then show ?thesis using "2.IH"(1,2) [OF d refl] "2.prems" d by auto
  next
    case False
    then have c: "\<not> (c = [] \<or> c = ''.'')" "c \<noteq> ''..''" by auto
    obtain j where j: "es c = Some j" using "2.prems"(1) d c by (auto split: option.splits)
    note here = "2.IH"(3-7) [OF d refl c j]
    show ?thesis
    proof (cases "\<exists>t. ns j = Some (Link t)")
      case True
      then obtain t where t: "ns j = Some (Link t)" by blast
      define a where "a = (if IsAbs t then 0 else d)"
      have step: "resolve ns links d (c # cs) f =
          (if cs = [] \<and> \<not> f then Inr j else if links = 0 then Inl ELOOP else resolve ns (links - 1) a (Split t slash @ cs) f)" for f
        using d c j t by (simp add: a_def)
      have go: "\<not> (cs = [] \<and> \<not> follow)" "links \<noteq> 0" "resolve ns (links - 1) a (Split t slash @ cs) follow = Inr i"
        using "2.prems" t unfolding step by (auto split: if_splits)
      from here(4) [OF t refl go(1,2), folded a_def, OF go(3) "2.prems"(2)] go(2) show ?thesis unfolding step by simp
    next
      case False
      then have step: "resolve ns links d (c # cs) f = resolve ns links j cs f" for f
        using d c j by (auto split: option.split node.split)
      have prems: "resolve ns links j cs follow = Inr i" using "2.prems"(1) unfolding step .
      have "resolve ns links j cs True = Inr i"
      proof (cases "ns j")
        case None
        from here(1) [OF None prems "2.prems"(2)] show ?thesis .
      next
        case (Some n)
        from here(2,3,5) [OF Some _ prems "2.prems"(2)] False Some show ?thesis by (cases n) simp_all
      qed
      then show ?thesis unfolding step .
    qed
  qed
qed simp

lemma node_at_follow:
  assumes "node_at E w p False = Inr (Reg f)"
  shows "node_at E w p True = Inr (Reg f)"
proof -
  obtain i where i: "locate E w p False = Inr i" "nodes w i = Some (Reg f)"
    using assms by (auto simp: node_at_def split: sum.splits option.splits)
  then have "locate E w p True = Inr i"
    unfolding locate_def by (cases "p = []") (simp_all add: resolve_follow)
  with i show ?thesis by (simp add: node_at_def)
qed

text \<open>A step that only reads: it sees the files as they are, or fails.\<close>

lemma wpre_reading:
  assumes "\<And>w'. nodes w' = nodes w \<Longrightarrow> host.more w' = host.more w \<Longrightarrow> Q (f w) w'"
    and "\<And>e w'. e = EIO \<or> e = halted \<Longrightarrow> host.more w' = host.more w \<Longrightarrow> Q (Inl e) w'"
    and "\<And>os. f (w\<lparr>outcomes := os\<rparr>) = f w"
  shows "wpre (sys (\<lambda>w. (f w, w))) Q w"
proof (rule wpre_sys, goal_cases)
  case (2 os)
  show ?case using assms(1) [of "w\<lparr>outcomes := os\<rparr>"] by (simp add: wpre_def assms(3))
qed (simp_all add: assms(2) crash_def)

lemma not_ENOENT: "EIO \<noteq> ENOENT" "halted \<noteq> ENOENT" "EISDIR \<noteq> ENOENT"
  by (simp_all add: EIO_def halted_def ENOENT_def EISDIR_def)

lemma wpre_privateRead:
  assumes "\<And>f w'. node_at E w p False = Inr (Reg f) \<Longrightarrow> f_mode f mod 64 = 0 \<Longrightarrow> nodes w' = nodes w \<Longrightarrow>
       host.more w' = host.more w \<Longrightarrow> Q (Inr (f_data f)) w'"
    and "\<And>w'. node_at E w p False = Inl ENOENT \<Longrightarrow> nodes w' = nodes w \<Longrightarrow> host.more w' = host.more w \<Longrightarrow> Q (Inl ENOENT) w'"
    and "\<And>e w'. e \<noteq> ENOENT \<Longrightarrow> host.more w' = host.more w \<Longrightarrow> Q (Inl e) w'"
  shows "wpre (privateRead E p) Q w"
  unfolding privateRead_def wpre_andthen Lstat_def
proof (rule wpre_reading, goal_cases)
  case (1 w')
  show ?case
  proof (cases "node_at E w p False")
    case (Inl e)
    then show ?thesis using assms(2) [of w'] assms(3) [of _ w'] 1 by (cases "e = ENOENT") simp_all
  next
    case (Inr n)
    have wrong: "ErrText ''state file must be regular with mode 0600'' \<noteq> ENOENT" by (simp add: ENOENT_def)
    show ?thesis
    proof (cases "\<exists>f. n = Reg f \<and> f_mode f mod 64 = 0")
      case True
      then obtain f where f: "node_at E w p False = Inr (Reg f)" "n = Reg f" "f_mode f mod 64 = 0" using Inr by auto
      have there: "node_at E w' p True = Inr (Reg f)"
        unfolding node_at_nodes [OF 1(1)] by (rule node_at_follow [OF f(1)])
      have "wpre (ReadFile E p) Q w'"
        unfolding ReadFile_def
      proof (rule wpre_reading, goal_cases)
        case (1 w2)
        then show ?case using assms(1) [OF f(1,3), of w2] \<open>nodes w' = nodes w\<close> \<open>host.more w' = host.more w\<close> there by simp
      next
        case (2 e w2)
        then show ?case using assms(3) [of e w2] \<open>host.more w' = host.more w\<close> not_ENOENT by auto
      qed simp
      then show ?thesis using Inr f by simp
    next
      case False
      then show ?thesis using Inr assms(3) [OF wrong] 1 by (auto simp: wp split: node.split)
    qed
  qed
next
  case (2 e w')
  then show ?case using assms(3) not_ENOENT by auto
qed simp

section \<open>Starting\<close>

text \<open>A private regular file at a path, and a path with nothing at it.\<close>

definition private_file :: "'e host_env_scheme \<Rightarrow> 'z host_scheme \<Rightarrow> string \<Rightarrow> content \<Rightarrow> bool" where
  "private_file E w p x \<longleftrightarrow> (\<exists>f. node_at E w p False = Inr (Reg f) \<and> f_mode f mod 64 = 0 \<and> f_data f = x)"

definition absent :: "'e host_env_scheme \<Rightarrow> 'z host_scheme \<Rightarrow> string \<Rightarrow> bool" where
  "absent E w p \<longleftrightarrow> node_at E w p False = Inl ENOENT"

text \<open>What the agent remembers is what its state files hold.\<close>

definition credentials_loaded :: "'e agent_env_scheme \<Rightarrow> config \<Rightarrow> 'z agent_world_scheme \<Rightarrow> agent_credentials \<Rightarrow> bool" where
  "credentials_loaded E c w cr \<longleftrightarrow>
     absent E w (state_file c ''credentials.json'') \<and> cr = zero_credentials \<or>
     (\<exists>x. private_file E w (state_file c ''credentials.json'') x \<and> read_credentials x = Some cr \<and>
        cr_ID cr \<noteq> [] \<and> cr_Token cr \<noteq> [])"

definition revisions_loaded :: "'e agent_env_scheme \<Rightarrow> config \<Rightarrow> 'z agent_world_scheme \<Rightarrow> (string \<rightharpoonup> applied) \<Rightarrow> bool" where
  "revisions_loaded E c w m \<longleftrightarrow>
     absent E w (revisions_file c) \<and> m = Map.empty \<or>
     (\<exists>x. private_file E w (revisions_file c) x \<and> read_revisions x = Some m)"

lemma loaded_nodes:
  assumes "nodes w' = nodes w"
  shows "credentials_loaded E c w' = credentials_loaded E c w" "revisions_loaded E c w' = revisions_loaded E c w"
  by (simp_all add: fun_eq_iff credentials_loaded_def revisions_loaded_def private_file_def absent_def node_at_nodes [OF assms])

lemma wpre_load_credentials:
  assumes "Credentials w = zero_credentials"
    and "\<And>cr w'. credentials_loaded E c w cr \<Longrightarrow> nodes w' = nodes w \<Longrightarrow>
       host.more w' = host.more (w\<lparr>Credentials := cr\<rparr>) \<Longrightarrow> Q (Inr ()) w'"
    and "\<And>e w'. Q (Inl e) w'"
  shows "wpre (load_credentials E c) Q w"
  unfolding load_credentials_def wpre_andthen wpre_attempt
proof (rule wpre_privateRead, goal_cases)
  case (1 f w')
  have there: "private_file E w (state_file c ''credentials.json'') (f_data f)" using 1 by (auto simp: private_file_def)
  have more: "host.more (w'\<lparr>Credentials := cr\<rparr>) = host.more (w\<lparr>Credentials := cr\<rparr>)" for cr
    using 1(4) by (cases w; cases w') simp
  show ?case
    using there 1(3) more assms(3)
    by (auto simp: wp credentials_loaded_def intro!: assms(2) split: option.split)
next
  case (2 w')
  have "host.more w' = host.more (w\<lparr>Credentials := zero_credentials\<rparr>)" using 2(3) assms(1) by (cases w; cases w') simp
  then show ?case using 2 by (auto simp: wp credentials_loaded_def absent_def intro!: assms(2))
next
  case (3 e w')
  then show ?case by (simp add: wp assms(3))
qed

lemma wpre_load_revisions:
  assumes "applied_state w = Map.empty"
    and "\<And>m w'. revisions_loaded E c w m \<Longrightarrow> nodes w' = nodes w \<Longrightarrow>
       host.more w' = host.more (w\<lparr>applied_state := m\<rparr>) \<Longrightarrow> Q (Inr ()) w'"
    and "\<And>e w'. Q (Inl e) w'"
  shows "wpre (load_revisions E c) Q w"
  unfolding load_revisions_def wpre_andthen wpre_attempt revisions_file_def [symmetric]
proof (rule wpre_privateRead, goal_cases)
  case (1 f w')
  have there: "private_file E w (revisions_file c) (f_data f)" using 1 by (auto simp: private_file_def)
  have more: "host.more (w'\<lparr>applied_state := m\<rparr>) = host.more (w\<lparr>applied_state := m\<rparr>)" for m
    using 1(4) by (cases w; cases w') simp
  show ?case
    using there 1(3) more assms(3)
    by (auto simp: wp revisions_loaded_def intro!: assms(2) split: option.split)
next
  case (2 w')
  have "host.more w' = host.more (w\<lparr>applied_state := Map.empty\<rparr>)" using 2(3) assms(1) by (cases w; cases w') simp
  then show ?case using 2 by (auto simp: wp revisions_loaded_def absent_def intro!: assms(2))
next
  case (3 e w')
  then show ?case by (simp add: wp assms(3))
qed

lemma rest_MkdirAll: "steps (\<lambda>w w'. host.more w' = host.more w) (MkdirAll E path m)"
proof (induction E path m rule: MkdirAll.induct)
  case (1 E path m)
  have mkdir: "steps (\<lambda>w w'. host.more w' = host.more w) (Mkdir E path m)"
    unfolding Mkdir_def
    by (rule rest.steps_sys, rule stepsI) (auto simp: wpre_def Let_def split: sum.split)
  show ?case
    by (subst MkdirAll.simps)
       (intro steps rest.steps_reads mkdir 1; (auto intro!: steps rest.steps_reads mkdir 1 split: node.split)?)
qed

lemma rest_HTTPClient: "steps (\<lambda>w w'. host.more w' = host.more w) (HTTPClient E ca)"
  unfolding HTTPClient_def by (intro steps rest.steps_reads)

lemma wpre_aside:
  assumes "steps (\<lambda>w w'. host.more w' = host.more w) m"
    and "\<And>v w'. host.more w' = host.more w \<Longrightarrow> wpre (f v) Q w'" and "\<And>e w'. Q (Inl e) w'"
  shows "wpre (andthen m f) Q w"
  unfolding wpre_andthen
  by (rule wpre_mono [OF steps_wpre [OF assms(1)]]) (simp add: assms(2,3) split: sum.split)

text \<open>What a started agent is.\<close>

definition started :: "'e agent_env_scheme \<Rightarrow> config \<Rightarrow> 'z agent_world_scheme \<Rightarrow> int \<Rightarrow> 'z agent_world_scheme \<Rightarrow> bool" where
  "started E c w interval w' \<longleftrightarrow>
     (\<exists>u. parse_url E (cf_Server c) = Some u \<and> https_origin u) \<and> Cfg w' = c\<lparr>cf_Server := strip_slashes (cf_Server c)\<rparr> \<and>
     10 ^ 9 \<le> interval \<and> IsAbs (cf_StateDir c) \<and>
     (\<exists>n. node_at E w' (cf_StateDir c) False = Inr n \<and> private_dir n) \<and>
     credentials_loaded E c w' (Credentials w') \<and> revisions_loaded E c w' (applied_state w') \<and>
     sent w' = sent w \<and> ran w' = ran w"

lemma same_files [simp]: "state_file (c\<lparr>cf_Server := s\<rparr>) = state_file c" "revisions_file (c\<lparr>cf_Server := s\<rparr>) = revisions_file c"
  by (simp_all add: fun_eq_iff state_file_def revisions_file_def)

lemma same_loaded [simp]:
  "credentials_loaded E (c\<lparr>cf_Server := s\<rparr>) w cr = credentials_loaded E c w cr"
  "revisions_loaded E (c\<lparr>cf_Server := s\<rparr>) w m = revisions_loaded E c w m"
  by (simp_all add: credentials_loaded_def revisions_loaded_def)

lemma wpre_New: "wpre (New E c) (\<lambda>r w'. case r of Inl e \<Rightarrow> True | Inr i \<Rightarrow> started E c w i w') w"
proof (cases "parse_url E (cf_Server c)")
  case None
  then show ?thesis by (simp add: New_def wp)
next
  case (Some u)
  let ?c = "c\<lparr>cf_Server := strip_slashes (cf_Server c)\<rparr>"
  let ?Q = "\<lambda>r w'. case r of Inl e \<Rightarrow> True | Inr i \<Rightarrow> started E c w i w'"
  show ?thesis
  proof (cases "https_origin u \<and> (\<exists>i\<ge>10 ^ 9. ParseDuration E (cf_PollInterval c) = Some i)")
    case True
    then obtain i where i: "10 ^ 9 \<le> i" "ParseDuration E (cf_PollInterval c) = Some i" by blast
    have reading: "wpre (andthen (modify (\<lambda>w. w\<lparr>Cfg := ?c, Credentials := zero_credentials, applied_state := Map.empty\<rparr>)) (\<lambda>_.
         andthen (load_credentials E ?c) (\<lambda>_. andthen (load_revisions E ?c) (\<lambda>_. ret i)))) ?Q w1"
      if more: "host.more w1 = host.more w" and abs: "IsAbs (cf_StateDir c)" and dir: "node_at E w1 (cf_StateDir c) False = Inr n" "private_dir n" for w1 n
    proof -
      let ?w = "w1\<lparr>Cfg := ?c, Credentials := zero_credentials, applied_state := Map.empty\<rparr>"
      have "started E c w i w3"
        if "credentials_loaded E c ?w cr" "nodes w2 = nodes ?w" "host.more w2 = host.more (?w\<lparr>Credentials := cr\<rparr>)"
          "revisions_loaded E c w2 m" "nodes w3 = nodes w2" "host.more w3 = host.more (w2\<lparr>applied_state := m\<rparr>)" for cr m w2 w3
      proof -
        have nodes: "nodes w3 = nodes ?w" "nodes w3 = nodes w1" using that(2,5) by simp_all
        have "Cfg w3 = ?c" "Credentials w3 = cr" "applied_state w3 = m" "sent w3 = sent w" "ran w3 = ran w"
          using that(3,6) rest_world(4,5) [OF more] by (cases w1; cases w2; cases w3; simp)+
        moreover have "credentials_loaded E c w3 cr" by (subst loaded_nodes(1) [OF nodes(1)]) (rule that(1))
        moreover have "revisions_loaded E c w3 m" by (subst loaded_nodes(2) [OF that(5)]) (rule that(4))
        ultimately show ?thesis
          using Some True i abs dir by (simp add: started_def node_at_nodes [OF nodes(2)])
      qed
      then show ?thesis
        unfolding wpre_andthen wpre_modify sum.case
      proof (intro wpre_load_credentials, goal_cases)
        case (2 cr w2)
        then show ?case
        proof (simp only: sum.case, intro wpre_load_revisions, goal_cases)
          case 1
          then show ?case using rest_world(3) [of w2 "?w\<lparr>Credentials := cr\<rparr>"] by simp
        qed (simp_all add: wp)
      qed simp_all
    qed
    have lstat: "wpre (andthen (Lstat E (cf_StateDir c)) (\<lambda>st.
          if \<not> private_dir st then throw (ErrText ''state directory must be a real directory with mode 0700'')
          else andthen (modify (\<lambda>w. w\<lparr>Cfg := ?c, Credentials := zero_credentials, applied_state := Map.empty\<rparr>)) (\<lambda>_.
            andthen (load_credentials E ?c) (\<lambda>_. andthen (load_revisions E ?c) (\<lambda>_. ret i))))) ?Q w1"
      if abs: "IsAbs (cf_StateDir c)" and more: "host.more w1 = host.more w" for w1
      unfolding Lstat_def wpre_andthen [of "sys _"]
    proof (rule wpre_reading, goal_cases)
      case (1 w2)
      show ?case
      proof (cases "node_at E w1 (cf_StateDir c) False")
        case (Inr n)
        have "node_at E w2 (cf_StateDir c) False = Inr n" using Inr by (simp add: node_at_nodes [OF 1(1)])
        moreover have "host.more w2 = host.more w" using 1(2) more by simp
        ultimately show ?thesis
          unfolding Inr sum.case using reading [of w2 n] abs by (cases "private_dir n") (simp_all only: not_True_eq_False
            not_False_eq_True if_True if_False wpre_throw sum.case)
      qed simp
    qed (simp_all split: sum.split)
    have cond: "https_origin u = True" "ParseDuration E (cf_PollInterval ?c) = Some i" "i < 10 ^ 9 = False"
      "cf_CAFile ?c = cf_CAFile c" "cf_StateDir ?c = cf_StateDir c"
      using True i by (simp_all only: not_less) simp_all
    show ?thesis
      unfolding New_def Some option.case Let_def cond not_True_eq_False if_False
    proof (intro wpre_aside [OF rest_HTTPClient], goal_cases)
      case (1 v w1)
      show ?case
      proof (cases "IsAbs (cf_StateDir c)")
        case True
        then show ?thesis
        proof (simp only: not_True_eq_False if_False, intro wpre_aside [OF rest_MkdirAll], goal_cases)
          case (1 u w2)
          then show ?case using lstat [of w2] \<open>host.more w1 = host.more w\<close> by simp
        qed simp_all
      qed (simp add: wp)
    qed simp_all
  next
    case False
    then show ?thesis
      using Some by (auto simp: New_def wp Let_def not_less split: option.split)
  qed
qed

text \<open>An agent that starts is in order: its server is an HTTPS origin, it polls at most once a second,
  its state directory is an absolute path to a directory (no symbolic link) nobody else may
  enter, and what it remembers, credentials and revisions, is exactly what two regular files in
  it hold that are private to it, or nothing where there is no such file; starting asks the
  server nothing and runs nothing.\<close>

theorem New_starts:
  assumes "New E c w = (Inr interval, w')"
  shows "started E c w interval w'"
  using wpreD [OF wpre_New assms] by simp

section \<open>Restarting\<close>

text \<open>What a start reads at a state file is what the journal says is there.\<close>

lemma resolve_absent:
  assumes "list_all plain_part cs" and "walk ns a cs = Some k" and "ns k = Some (Directory q es)"
    and "plain_part c" and "es c = None"
  shows "resolve ns n a (cs @ [c]) b = Inl ENOENT"
  using assms(1,2)
proof (induction cs arbitrary: a)
  case Nil
  then show ?case using assms(3-5) by (simp add: plain_part_def)
next
  case (Cons x cs)
  then show ?case by (auto simp: plain_part_def split: option.splits node.splits)
qed

lemma resolve_no_directory:
  assumes "list_all plain_part cs" and "walk ns a cs = Some k" and "\<And>q es. ns k \<noteq> Some (Directory q es)"
  shows "resolve ns n a (cs @ [c]) b = Inl ENOTDIR"
  using assms(1,2)
proof (induction cs arbitrary: a)
  case Nil
  then show ?case using assms(3) by (auto split: option.split node.split)
next
  case (Cons x cs)
  then show ?case by (auto simp: plain_part_def split: option.splits node.splits)
qed

lemma journal_read_back:
  assumes "IsAbs (cf_StateDir c)" and "parent (nodes w) (revisions_file c) = Some k"
    and m: "journal (nodes w) (revisions_file c) = Some m" and "revisions_loaded E c w m'"
  shows "m' = m"
proof -
  let ?p = "revisions_file c"
  have plain: "plain_part ''revisions.json''" by (simp add: plain_part_def)
  note path = FilepathJoin_plain [OF assms(1) plain, folded state_file_def, folded revisions_file_def]
  have parts: "path_parts ?p = butlast (path_parts ?p) @ [leaf_name ?p]" by (simp add: leaf_name_def)
  have ok: "list_all plain_part (butlast (path_parts ?p))" "plain_part (leaf_name ?p)"
    using path(2) plain unfolding list_all_iff path(1) by (auto dest: in_set_butlastD)
  have walk: "walk (nodes w) 0 (butlast (path_parts ?p)) = Some k" using assms(2) by (simp add: parent_def)
  obtain s where "?p = slash # s" using path(3) by blast
  then have abs: "IsAbs ?p" "?p \<noteq> []" by (simp_all add: IsAbs_def HasPrefix_def)
  have root: "resolve (nodes w) 40 0 (Split ?p slash) b =
      (case nodes w 0 of Some (Directory q es) \<Rightarrow> resolve (nodes w) 40 0 (path_parts ?p) b | _ \<Rightarrow> Inl ENOTDIR)" for b
    by (simp add: Split_absolute [OF abs(1)] split: option.split node.split)
  have located: "node_at E w ?p b = (case (case nodes w 0 of Some (Directory q es) \<Rightarrow> resolve (nodes w) 40 0 (path_parts ?p) b | _ \<Rightarrow> Inl ENOTDIR) of
      Inl e \<Rightarrow> Inl e | Inr i \<Rightarrow> (case nodes w i of None \<Rightarrow> Inl ENOENT | Some n \<Rightarrow> Inr n))" for b
    by (simp only: node_at_def locate_def abs if_True if_False root)
  have other: "ENOTDIR \<noteq> ENOENT" by (simp add: ENOTDIR_def ENOENT_def)
  show ?thesis
  proof (cases "\<exists>q es. nodes w k = Some (Directory q es)")
    case False
    then have "resolve (nodes w) 40 0 (path_parts ?p) b = Inl ENOTDIR" for b
      by (subst parts) (rule resolve_no_directory [OF ok(1) walk], blast)
    then have "node_at E w ?p b = Inl ENOTDIR" for b
      by (simp add: located split: option.split node.split)
    then show ?thesis using assms(4) other by (simp add: revisions_loaded_def absent_def private_file_def)
  next
    case True
    then obtain q es where k: "nodes w k = Some (Directory q es)" by blast
    have rooted: "\<exists>r rs. nodes w 0 = Some (Directory r rs)"
      using k walk by (cases "butlast (path_parts ?p)") (auto split: option.splits node.splits)
    have dest: "dest (nodes w) ?p = es (leaf_name ?p)" using assms(2) k by (simp add: dest_parent)
    show ?thesis
    proof (cases "es (leaf_name ?p)")
      case None
      then have "resolve (nodes w) 40 0 (path_parts ?p) b = Inl ENOENT" for b
        by (subst parts) (rule resolve_absent [OF ok(1) walk k ok(2)])
      then have "node_at E w ?p b = Inl ENOENT" for b using rooted by (auto simp: located)
      then show ?thesis
        using assms(4) m by (simp add: revisions_loaded_def private_file_def journal_def dest None)
    next
      case (Some i)
      then obtain f where f: "nodes w i = Some (Reg f)" "read_revisions (f_data f) = Some m"
        using m by (auto simp: journal_def dest split: option.splits node.splits if_splits)
      have "resolve (nodes w) 40 0 (path_parts ?p) b = Inr i" for b
        by (subst parts) (rule resolve_walk [OF ok(1) walk k ok(2) Some f(1)])
      then have "node_at E w ?p b = Inr (Reg f)" for b using rooted f by (auto simp: located)
      then show ?thesis using assms(4) f by (auto simp: revisions_loaded_def private_file_def absent_def)
    qed
  qed
qed

text \<open>C28: A crash loses nothing and skips no hook. Wherever a synchronisation is cut short, the agent
  that starts again in the same directories (\<open>w2\<close> is its world, \<open>w3\<close> the world it starts in)
  is in step with its journal, and remembers either what the one before it remembered, or the
  record of this definition as well; then the file it describes is at the destination, or
  only the flag of the hook was cleared and the destination is as it was; and the hook is
  pending or was run without an error.\<close>

theorem crash_recovery:
  assumes "in_step c w" and "separate c d w" and "outside_own c (de_Destination d)"
    and "parent (nodes w) (revisions_file c) = Some k"
    and crash: "syncOne E name d w = (x, w1)"
    and restart: "New E c0 w2 = (Inr interval, w3)" "c = c0\<lparr>cf_Server := strip_slashes (cf_Server c0)\<rparr>"
    and same_disk: "nodes w3 = nodes w1" "next_ino w3 = next_ino w1"
  shows "in_step c w3 \<and>
    (applied_state w3 = applied_state w \<or>
     (\<exists>v. applied_state w3 = (applied_state w)(name \<mapsto> v) \<and>
        ((\<exists>f b. synced_at (nodes w3) (de_Destination d) f \<and> f_data f = Bytes b \<and> Hash E b = ap_OutputHash v) \<or>
         v = (recorded name w)\<lparr>ap_Pending := False\<rparr> \<and>
           dest (nodes w3) (de_Destination d) = dest (nodes w) (de_Destination d)) \<and>
        (argv d \<noteq> [] \<longrightarrow> ap_Pending v \<or> ran w1 = hook_call E d True # ran w)))"
proof -
  have step: "unused_above w" "tree (nodes w)" "same_dirs c (Cfg w)" "IsAbs (cf_StateDir c)"
    using assms(1) by (simp_all add: in_step_def)
  have "confined_in c {de_Destination d} w w1"
    by (rule stepsD [OF conf_syncOne crash]) (simp add: targets_def)
  then have w1: "unused_above w1" "evolved (targets c {de_Destination d}) (nodes w) (nodes w1)"
    using step by (simp_all add: confined_in_def)
  have started: "started E c0 w2 interval w3" using wpreD [OF wpre_New restart(1)] by simp
  then have cfg: "Cfg w3 = c" and loaded: "revisions_loaded E c w3 (applied_state w3)"
    by (simp_all add: started_def restart(2))
  obtain m where m: "journal (nodes w1) (revisions_file c) = Some m" and
      cases: "m = applied_state w \<or>
       (\<exists>v. m = (applied_state w)(name \<mapsto> v) \<and>
        ((\<exists>f b. synced_at (nodes w1) (de_Destination d) f \<and> f_data f = Bytes b \<and> Hash E b = ap_OutputHash v) \<or>
         v = (recorded name w)\<lparr>ap_Pending := False\<rparr> \<and>
           dest (nodes w1) (de_Destination d) = dest (nodes w) (de_Destination d)) \<and>
        (argv d \<noteq> [] \<longrightarrow> ap_Pending v \<or> ran w1 = hook_call E d True # ran w))"
    using journal_after_sync [OF assms(1,2) crash] by blast
  have "parent (nodes w3) (revisions_file c) = Some k"
    using assms(4) by (simp add: same_disk evolved_parent [OF w1(2)])
  moreover have "journal (nodes w3) (revisions_file c) = Some m" using m by (simp add: same_disk)
  ultimately have memory: "applied_state w3 = m"
    by (rule journal_read_back [OF step(4) _ _ loaded])
  have "in_step c w3"
    using w1 step m by (simp add: in_step_def cfg memory unused_above_def same_disk tree_evolved [OF w1(2)])
  with cases show ?thesis unfolding memory same_disk by blast
qed

section \<open>Enrolling\<close>

text \<open>The one call that enrolls.\<close>

definition enroll_call :: "'z agent_world_scheme \<Rightarrow> api_call" where
  "enroll_call w = call_of ''enroll'' ''POST'' (marshal_object [(''token'', marshal_string (cf_EnrollmentToken (Cfg w)))]) w"

text \<open>What enrolling a machine without credentials leaves behind.\<close>

definition enrolled :: "'e agent_env_scheme \<Rightarrow> 'z agent_world_scheme \<Rightarrow> err + unit \<Rightarrow> 'z agent_world_scheme \<Rightarrow> bool" where
  "enrolled E w r w' \<longleftrightarrow>
     applied_state w' = applied_state w \<and> ran w' = ran w \<and>
     (case r of
        Inl e \<Rightarrow> Credentials w' = Credentials w \<and> Cfg w' = Cfg w \<and> (sent w' = sent w \<or> sent w' = enroll_call w # sent w)
      | Inr u \<Rightarrow> sent w' = enroll_call w # sent w \<and> Cfg w' = (Cfg w)\<lparr>cf_EnrollmentToken := []\<rparr> \<and>
          cr_ID (Credentials w') \<noteq> [] \<and> cr_Token (Credentials w') \<noteq> [] \<and> cf_EnrollmentToken (Cfg w) \<noteq> [] \<and>
          synced_at (nodes w') (state_file (Cfg w) ''credentials.json'')
            (published (new_file E) (CredentialsFile (Credentials w')) 384 (- 1) (- 1)))"

lemma exchange_sent:
  "wpre (exchange call) (\<lambda>r w'. Credentials w' = Credentials w \<and>
     (case r of Inl e \<Rightarrow> sent w' = sent w \<or> sent w' = call # sent w | Inr v \<Rightarrow> sent w' = call # sent w)) w"
  unfolding exchange_def
  by (rule wpre_sys) (auto simp: wpre_def Let_def crash_def split: list.split server_reply.split)

lemma wpre_enroll_request:
  assumes "\<And>e w'. quiet w w' \<Longrightarrow> Credentials w' = Credentials w \<Longrightarrow> sent w' = sent w \<or> sent w' = enroll_call w # sent w \<Longrightarrow>
      Q (Inl e) w'"
    and "\<And>v w'. quiet w w' \<Longrightarrow> Credentials w' = Credentials w \<Longrightarrow> sent w' = enroll_call w # sent w \<Longrightarrow> Q (Inr v) w'"
  shows "wpre (agent_request ''enroll'' ''POST'' (marshal_object [(''token'', marshal_string (cf_EnrollmentToken (Cfg w)))]) fld zero) Q w"
proof -
  let ?m = "agent_request ''enroll'' ''POST'' (marshal_object [(''token'', marshal_string (cf_EnrollmentToken (Cfg w)))]) fld zero"
  have call: "wpre ?m (\<lambda>r w'. Credentials w' = Credentials w \<and>
      (case r of Inl e \<Rightarrow> sent w' = sent w \<or> sent w' = enroll_call w # sent w | Inr v \<Rightarrow> sent w' = enroll_call w # sent w)) w"
    unfolding agent_request_def wpre_andthen [of "gets _"] wpre_gets sum.case
    unfolding call_of_def [symmetric] enroll_call_def [symmetric] wpre_andthen [of "on_error _ _"] wpre_on_error
    by (rule wpre_mono [OF exchange_sent]) (auto simp: wp split: sum.splits)
  show ?thesis
    by (rule wpre_mono [OF wpre_conj [OF steps_wpre [OF quiet_agent_request] call]])
       (use assms in \<open>auto split: sum.splits\<close>)
qed

lemma wpre_persist_credentials:
  assumes "unused_above w" and "IsAbs (cf_StateDir (Cfg w))"
    and state: "cr_Token (Credentials w) = []" "cf_EnrollmentToken (Cfg w) \<noteq> []"
    and quiet: "quiet w w1" and w1: "Credentials w1 = Credentials w" "sent w1 = enroll_call w # sent w"
    and c: "cr_ID c \<noteq> []" "cr_Token c \<noteq> []"
  shows "wpre (andthen (on_error (AtomicWrite E (state_file (Cfg w) ''credentials.json'') (CredentialsFile c) 384 (- 1) (- 1))
         (\<lambda>_. ErrText ''could not persist runtime credential; create a new agent enrollment'')) (\<lambda>_.
       modify (\<lambda>w. w\<lparr>Credentials := c, Cfg := (Cfg w)\<lparr>cf_EnrollmentToken := []\<rparr>\<rparr>))) (enrolled E w) w1"
  unfolding wpre_andthen wpre_on_error
proof (rule wpre_publish, goal_cases)
  case 1
  show ?case using assms(1) unused_above_aged [of w w1] quiet by (simp add: quiet_def)
next
  case 2
  have plain: "plain_part ''credentials.json''" by (simp add: plain_part_def)
  show ?case
    using FilepathJoin_plain(1) [OF assms(2) plain] by (simp add: state_file_def temporary_def HasPrefix_def)
next
  case (3 x w2)
  note same = rest_world [OF 3(1)]
  show ?case
    using 3(4) same quiet w1 c state(2)
    by (cases x) (auto simp: enrolled_def wp quiet_def)
qed

lemma wpre_Enroll:
  assumes "unused_above w" and "IsAbs (cf_StateDir (Cfg w))" and none: "cr_Token (Credentials w) = []"
  shows "wpre (Enroll E) (enrolled E w) w"
proof (cases "cf_EnrollmentToken (Cfg w) = []")
  case True
  then show ?thesis using none by (simp add: Enroll_def wp enrolled_def)
next
  case token: False
  show ?thesis
    unfolding Enroll_def wpre_andthen [of "gets _"] wpre_gets sum.case
    using none token
  proof (simp only: not_True_eq_False if_False if_True simp_thms wpre_andthen [of "agent_request _ _ _ _ _"], goal_cases)
    case 1
    show ?case
    proof (rule wpre_enroll_request, goal_cases)
      case (1 e w1)
      then show ?case by (simp add: enrolled_def quiet_def)
    next
      case (2 c w1)
      show ?case
      proof (cases "cr_ID c = [] \<or> cr_Token c = []")
        case True
        then show ?thesis using 2 by (simp add: wp enrolled_def quiet_def)
      next
        case False
        then show ?thesis
          unfolding sum.case if_not_P [OF False] by (intro wpre_persist_credentials [OF assms token 2]) simp_all
      qed
    qed
  qed
qed

text \<open>C32: A credential is stored before it is used: a machine without one makes at most one call to
  enroll, with the token of its configuration and no credential; it has enrolled only if the
  answer named an identity and a token and these are on disk, complete and synced, in a file
  with mode 0600; and whatever fails, it then still has no credential and keeps its
  enrollment token. A machine with a credential makes no call and forgets the token.\<close>

theorem Enroll_stores_first:
  assumes "unused_above w" and "IsAbs (cf_StateDir (Cfg w))" and "Enroll E w = (r, w')"
  shows "if cr_Token (Credentials w) \<noteq> [] then r = Inr () \<and> w' = w\<lparr>Cfg := (Cfg w)\<lparr>cf_EnrollmentToken := []\<rparr>\<rparr>
    else enrolled E w r w'"
proof (cases "cr_Token (Credentials w) = []")
  case True
  then show ?thesis using wpreD [OF wpre_Enroll [OF assms(1,2)] assms(3)] by simp
next
  case False
  then show ?thesis using assms(3) by (simp add: Enroll_def andthen_def gets_def modify_def)
qed

section \<open>Witnesses\<close>

lemma demo_New:
  assumes "nodes w = demo_agent_nodes" and "calm w"
  shows "New demo_agent_env demo_config w =
    (Inr (30 * 10 ^ 9), w\<lparr>Cfg := demo_config, Credentials := zero_credentials, applied_state := Map.empty\<rparr>)"
proof -
  let ?w = "w\<lparr>Cfg := demo_config, Credentials := zero_credentials, applied_state := Map.empty\<rparr>"
  have files: "state_file demo_config ''credentials.json'' = ''/st/credentials.json''"
    "state_file demo_config ''revisions.json'' = ''/st/revisions.json''"
    "strip_slashes (cf_Server demo_config) = cf_Server demo_config" by code_simp+
  have dir: "node_at demo_agent_env v ''/st'' b = Inr (demo_dir [])" if "nodes v = demo_agent_nodes" for v :: "'a agent_world_scheme" and b
    using that by (simp add: node_at_def locate_def IsAbs_def HasPrefix_def) (simp add: demo_agent_nodes_def demo_dir_def)
  have none: "node_at demo_agent_env v ''/st/credentials.json'' b = Inl ENOENT"
    "node_at demo_agent_env v ''/st/revisions.json'' b = Inl ENOENT" if "nodes v = demo_agent_nodes" for v :: "'a agent_world_scheme" and b
    using that by (simp_all add: node_at_def locate_def IsAbs_def HasPrefix_def) (simp_all add: demo_agent_nodes_def demo_dir_def)
  have reads: "Stat demo_agent_env ''/st'' w = (Inr (demo_dir []), w)" "Lstat demo_agent_env ''/st'' w = (Inr (demo_dir []), w)"
    "privateRead demo_agent_env ''/st/credentials.json'' ?w = (Inl ENOENT, ?w)"
    "privateRead demo_agent_env ''/st/revisions.json'' ?w = (Inl ENOENT, ?w)"
    using assms dir none
    by (simp_all add: Stat_def Lstat_def privateRead_def calm_sys andthen_def calm_def)
  have mkdir: "MkdirAll demo_agent_env ''/st'' 448 w = (Inr (), w)"
    by (subst MkdirAll.simps) (simp add: andthen_def attempt_def reads demo_dir_def ret_def)
  have url: "parse_url demo_agent_env (cf_Server demo_config) =
      Some \<lparr>u_Scheme = ''https'', u_Host = ''ssm'', u_User = None, u_Path = [], u_RawQuery = [], u_Fragment = []\<rparr>"
    "ParseDuration demo_agent_env (cf_PollInterval demo_config) = Some (30 * 10 ^ 9)"
    by (simp_all add: demo_agent_env_def demo_config_def host_env.defs)
  have cfg: "demo_config\<lparr>cf_Server := cf_Server demo_config\<rparr> = demo_config" "cf_StateDir demo_config = ''/st''"
    "cf_CAFile demo_config = []" "IsAbs ''/st''"
    by (simp_all add: demo_config_def IsAbs_def HasPrefix_def)
  show ?thesis
    by (simp add: New_def url https_origin_def Let_def files cfg HTTPClient_def andthen_def mkdir reads demo_dir_def modify_def
        load_credentials_def load_revisions_def attempt_def ret_def)
qed

lemma New_starts_witness:
  "started demo_agent_env demo_config (demo_agent_world [] []) (30 * 10 ^ 9)
     (snd (New demo_agent_env demo_config (demo_agent_world [] [])))"
proof (rule New_starts)
  have "calm (demo_agent_world [] [])" by (simp add: calm_def demo_agent_world_def)
  moreover have "nodes (demo_agent_world [] []) = demo_agent_nodes" by (simp add: demo_agent_world_def)
  ultimately show "New demo_agent_env demo_config (demo_agent_world [] []) =
      (Inr (30 * 10 ^ 9), snd (New demo_agent_env demo_config (demo_agent_world [] [])))"
    by (simp add: demo_New)
qed

lemma crash_recovery_witness:
  "in_step demo_config (snd (New demo_agent_env demo_config (demo_agent_world [] [])))"
proof -
  let ?w = "demo_agent_world [] [Crashes]" and ?w2 = "demo_agent_world [] []"
  have "template_source demo_agent_env demo_definition ?w = (Inr [], ?w)"
    by (rule template_source_none) (simp add: demo_definition_def)
  then have "snd (syncOne demo_agent_env ''a.yaml'' demo_definition ?w) = crash (?w\<lparr>outcomes := []\<rparr>)"
    by (simp add: syncOne_def andthen_def Let_def agent_request_def gets_def on_error_def exchange_def sys_def demo_agent_world_def)
  then have crash: "syncOne demo_agent_env ''a.yaml'' demo_definition ?w =
      (fst (syncOne demo_agent_env ''a.yaml'' demo_definition ?w), crash (?w\<lparr>outcomes := []\<rparr>))"
    by (metis prod.collapse)
  have "crash_nodes demo_agent_nodes = demo_agent_nodes"
    by (rule ext) (simp add: crash_nodes_def demo_agent_nodes_def demo_dir_def)
  then have disk: "nodes (crash (?w\<lparr>outcomes := []\<rparr>)) = demo_agent_nodes" "next_ino (crash (?w\<lparr>outcomes := []\<rparr>)) = 6"
    by (simp_all add: crash_def) (simp_all add: demo_agent_world_def)
  have start: "New demo_agent_env demo_config ?w2 =
      (Inr (30 * 10 ^ 9), ?w2\<lparr>Cfg := demo_config, Credentials := zero_credentials, applied_state := Map.empty\<rparr>)"
    by (rule demo_New) (simp_all add: calm_def demo_agent_world_def)
  have "parent (nodes ?w) (revisions_file demo_config) = Some 2"
    using demo_parent(2) by (simp add: demo_paths) (simp add: demo_agent_world_def)
  moreover have "demo_config = demo_config\<lparr>cf_Server := strip_slashes (cf_Server demo_config)\<rparr>"
    by (simp add: demo_config_def strip_slashes_def)
  moreover have "nodes (?w2\<lparr>Cfg := demo_config, Credentials := zero_credentials, applied_state := Map.empty\<rparr>) =
      nodes (crash (?w\<lparr>outcomes := []\<rparr>))"
    unfolding disk by (simp add: demo_agent_world_def)
  moreover have "next_ino (?w2\<lparr>Cfg := demo_config, Credentials := zero_credentials, applied_state := Map.empty\<rparr>) =
      next_ino (crash (?w\<lparr>outcomes := []\<rparr>))"
    unfolding disk by (simp add: demo_agent_world_def)
  ultimately show ?thesis
    unfolding start snd_conv using crash_recovery [OF demo_in_step demo_separate demo_outside _ crash start] by blast
qed

definition demo_joining :: "server_reply list \<Rightarrow> outcome list \<Rightarrow> agent_world" where
  "demo_joining rs os = (demo_agent_world rs os)\<lparr>Credentials := zero_credentials, Cfg := demo_config\<lparr>cf_EnrollmentToken := ''t''\<rparr>\<rparr>"

lemma Enroll_stores_first_witness:
  "enrolled demo_agent_env (demo_joining [Answer 200 ''{}''] [Done, Fails]) (fst (Enroll demo_agent_env (demo_joining [Answer 200 ''{}''] [Done, Fails])))
     (snd (Enroll demo_agent_env (demo_joining [Answer 200 ''{}''] [Done, Fails])))"
proof -
  let ?w = "demo_joining [Answer 200 ''{}''] [Done, Fails]"
  have "unused_above ?w" using demo_agent_unused by (simp add: demo_joining_def unused_above_def)
  moreover have "IsAbs (cf_StateDir (Cfg ?w))" "cr_Token (Credentials ?w) = []"
    by (simp_all add: demo_joining_def demo_config_def zero_credentials_def IsAbs_def HasPrefix_def)
  ultimately show ?thesis
    using Enroll_stores_first [OF _ _ prod.collapse [symmetric], of ?w demo_agent_env] by simp
qed

end
