(* ===== verification/Polling.thy ===== *)
theory Polling
  imports Steady
begin

text \<open>
  The agent's polling loop: it ends exactly when its context is cancelled, a poll attempts
  every definition whatever becomes of the others, and what a poll asks for and runs.
\<close>

section \<open>Relations on the agent's memory\<close>

text \<open>
  A relation that only concerns what the agent remembers and has asked for is respected by a
  whole poll once it allows each of the agent's own updates.
\<close>

lemma call_of_outcomes: "call_of path method payload (w\<lparr>outcomes := os\<rparr>) = call_of path method payload w"
  by (simp add: call_of_def cong: if_cong)

locale memory_relation = step_relation R for R :: "'z agent_world_scheme \<Rightarrow> 'z agent_world_scheme \<Rightarrow> bool" +
  fixes asks :: "string \<Rightarrow> string \<Rightarrow> bool" and runs :: "hook_run \<Rightarrow> bool"
  assumes R_disk: "host.more w' = host.more w \<Longrightarrow> R w w'"
    and R_config: "R w (w\<lparr>Cfg := (Cfg w)\<lparr>cf_EnrollmentToken := []\<rparr>\<rparr>)"
    and R_enrolled: "R w (w\<lparr>Credentials := cr\<rparr>)"
    and R_applied: "R w (w\<lparr>applied_state := m\<rparr>)"
    and R_replies: "R w (w\<lparr>replies := rs\<rparr>)"
    and R_sent: "asks method path \<Longrightarrow> R w (w\<lparr>sent := call_of path method payload w # sent w\<rparr>)"
    and R_hooks: "R w (w\<lparr>hooks := hs\<rparr>)"
    and R_ran: "runs h \<Longrightarrow> R w (w\<lparr>ran := h # ran w\<rparr>)"
    and R_look: "cancel_in w = Some (Suc n) \<Longrightarrow> R w (w\<lparr>cancel_in := Some n\<rparr>)"
    and R_polls: "R w (w\<lparr>polls := n\<rparr>)"
begin

sublocale host_relation R
  by unfold_locales (simp_all add: R_disk crash_def)

lemma steps_written:
  assumes "steps (\<lambda>w w'. host.more w' = host.more w) m"
  shows "steps R m"
  using stepsD [OF assms] by (intro stepsI wpreI) (blast intro: R_disk)

lemma steps_memory_ctx_done: "steps R ctx_done"
  by (rule stepsI) (auto simp: wpre_def ctx_done_def R_refl R_look split: option.split nat.split)

lemma R_replied: "asks method path \<Longrightarrow> R w (w\<lparr>sent := call_of path method payload w # sent w, replies := rs\<rparr>)"
  by (drule R_sent) (use R_trans [OF _ R_replies] in fastforce)

lemma R_hooked: "runs h \<Longrightarrow> R w (w\<lparr>hooks := hs, ran := h # ran w\<rparr>)"
  using R_trans [OF R_hooks [of w hs] R_ran [of h "w\<lparr>hooks := hs\<rparr>"]] by simp

lemma steps_memory_hook:
  "(\<And>ok. runs \<lparr>hr_Args = args, hr_Timeout = timeout, hr_Succeeded = ok\<rparr>) \<Longrightarrow> steps R (run_hook args timeout)"
  unfolding run_hook_def
  by (intro steps_sys stepsI) (simp add: wpre_def Let_def R_ran R_hooks R_hooked split: list.split hook.split)

lemmas steps_memory = steps_pure steps_combine steps_reads steps_if steps_option steps_sum steps_prod
  steps_memory_ctx_done steps_written [OF rest_AtomicWrite]

lemma steps_memory_request:
  assumes "asks method path"
  shows "steps R (agent_request path method payload fld zero)"
proof -
  have sending: "wpre (exchange (call_of path method payload w)) (\<lambda>_ w'. R w w') w" for w
    unfolding exchange_def
  proof (rule wpre_sys)
    fix os
    have "R w (w\<lparr>outcomes := os, sent := call_of path method payload w # sent w, replies := rs\<rparr>)" for rs
      using R_trans [OF R_outcomes [of w os] R_replied [OF assms, where w = "w\<lparr>outcomes := os\<rparr>" and payload = payload and rs = rs]]
      by (simp add: call_of_outcomes)
    moreover from this [of "replies w"]
    have "R w (w\<lparr>outcomes := os, sent := call_of path method payload w # sent w\<rparr>)" by simp
    ultimately show "wpre (\<lambda>w'. let w' = w'\<lparr>sent := call_of path method payload w # sent w'\<rparr> in
        case replies w' of [] \<Rightarrow> (Inl EIO, w') | NoReply # rs \<Rightarrow> (Inl EIO, w'\<lparr>replies := rs\<rparr>)
        | Answer code b # rs \<Rightarrow> (Inr (code, b), w'\<lparr>replies := rs\<rparr>)) (\<lambda>_ w'. R w w') (w\<lparr>outcomes := os\<rparr>)"
      by (simp add: wpre_def Let_def split: list.split server_reply.split)
  qed (rule R_refl R_outcomes R_trans [OF R_outcomes R_crash])+
  show ?thesis
    unfolding agent_request_def
  proof (rule steps_reading, unfold call_of_def [symmetric] wpre_andthen [of "on_error _ _"] wpre_on_error, goal_cases)
    case (1 w)
    from sending [of w] show ?case
      by (rule wpre_mono) (auto simp: wp split: sum.split)
  qed
qed

lemma steps_memory_recorded: "steps R (set_recorded name a)"
  unfolding set_recorded_def by (rule steps_modify) (rule R_applied)

lemma steps_memory_save: "steps R (save E)"
  unfolding save_def by (intro steps_memory)

lemma steps_memory_Enroll:
  assumes "asks ''POST'' ''enroll''"
  shows "steps R (Enroll E)"
proof -
  have "R w (w\<lparr>Credentials := c, Cfg := (Cfg w)\<lparr>cf_EnrollmentToken := []\<rparr>\<rparr>)" for w c
    using R_trans [OF R_enrolled [of w c] R_config] by simp
  then show ?thesis
    unfolding Enroll_def by (intro steps_memory steps_memory_request steps_modify R_config assms) simp
qed

text \<open>What synchronising a definition asks the server for and runs.\<close>

definition allows :: "'e agent_env_scheme \<Rightarrow> secret_definition \<Rightarrow> bool" where
  "allows E d \<longleftrightarrow> asks ''GET'' (''metadata/'' @ escape_path (de_Path d)) \<and>
     asks ''GET'' (''secrets/'' @ escape_path (de_Path d)) \<and> (argv d \<noteq> [] \<longrightarrow> (\<forall>ok. runs (hook_call E d ok)))"

lemma steps_memory_runCommand: "allows E d \<Longrightarrow> steps R (runCommand E name d)"
  unfolding runCommand_def
  by (intro steps_memory steps_memory_recorded steps_memory_save steps_memory_hook) (simp add: allows_def hook_call_def)

lemma steps_memory_syncOne:
  assumes "allows E d"
  shows "steps R (syncOne E name d)"
proof -
  have "steps R (template_source E d)"
    unfolding template_source_def by (intro steps_memory)
  moreover have "steps R (deployed E d old m uid gid)" for old m uid gid
    unfolding deployed_def by (intro steps_memory steps_sum) (auto intro!: steps_memory split: node.split)
  moreover have "steps R (publish_value E name d fp m uid gid old data rev)" for fp m uid gid old data rev
    unfolding publish_value_def
    by (intro steps_memory steps_memory_recorded steps_memory_save steps_memory_runCommand assms)
  moreover have "asks ''GET'' (''metadata/'' @ escape_path (de_Path d))" "asks ''GET'' (''secrets/'' @ escape_path (de_Path d))"
    using assms by (simp_all add: allows_def)
  ultimately show ?thesis
    unfolding syncOne_def Let_def
    by (intro steps_memory steps_memory_request steps_memory_runCommand assms)
qed

lemma steps_memory_sync_each:
  "(\<And>n d. (n, d) \<in> set defs \<Longrightarrow> allows E d) \<Longrightarrow> steps R (sync_each E defs failures)"
proof (induction defs arbitrary: failures)
  case (Cons x defs)
  then show ?case by (cases x) (auto intro!: steps_memory steps_memory_syncOne)
qed (auto intro: steps_memory)

lemma steps_memory_definitions: "steps R (definitions E)"
proof -
  have "steps R (read_definitions E cfg listing out)" for cfg listing out
  proof (induction listing arbitrary: out)
    case (Cons entry rest)
    then show ?case by (auto intro!: steps_memory)
  qed (simp add: steps_memory)
  then show ?thesis unfolding definitions_def by (intro steps_memory)
qed

lemma steps_memory_next_order: "steps R (next_order E defs)"
  by (auto intro!: stepsI simp: wpre_def next_order_def R_polls)

lemma memory_Sync:
  assumes "asks ''POST'' ''enroll''" and "\<And>k n d. (n, d) \<in> set (range_order E k (polled E w)) \<Longrightarrow> allows E d"
    and "Sync E w = (r, w')"
  shows "R w w'"
proof (rule Sync_respects [OF _ steps_memory_Enroll steps_memory_definitions steps_memory_next_order _ assms(3)])
  show "step_relation R" by unfold_locales
  show "steps R (sync_each E (range_order E k (polled E w)) [])" for k
    by (rule steps_memory_sync_each) (rule assms(2))
qed (rule assms(1))

end

section \<open>The loop\<close>

text \<open>Looking at the context never makes its cancellation more distant, nor takes it back.\<close>

definition waits_on :: "'z agent_world_scheme \<Rightarrow> 'z agent_world_scheme \<Rightarrow> bool" where
  "waits_on w w' \<longleftrightarrow>
     (case cancel_in w of None \<Rightarrow> cancel_in w' = None | Some n \<Rightarrow> \<exists>m\<le>n. cancel_in w' = Some m)"

interpretation waiting: memory_relation waits_on "\<lambda>_ _. True" "\<lambda>_. True"
proof (unfold_locales, goal_cases)
  case (2 w w1 w2)
  then show ?case by (fastforce simp: waits_on_def split: option.splits)
next
  case (3 w' w)
  then show ?case using rest_world(6) [OF 3] by (simp add: waits_on_def split: option.split)
qed (auto simp: waits_on_def split: option.split)

lemma poll_round_waits:
  assumes "poll_round E w = (go_on, w')"
  shows "case cancel_in w of None \<Rightarrow> go_on \<and> cancel_in w' = None
    | Some n \<Rightarrow> if go_on then \<exists>m<n. cancel_in w' = Some m else cancel_in w' = Some 0"
proof -
  obtain r w1 where sync: "Sync E w = (r, w1)" by fastforce
  have "waits_on w w1" by (rule waiting.memory_Sync [OF _ _ sync]) (simp_all add: waiting.allows_def)
  with sync assms show ?thesis
    by (fastforce simp: poll_round_def waits_on_def ctx_done_def Let_def split: option.splits nat.splits sum.splits)
qed

lemma Run_cancelled: "cancel_in w = Some n \<Longrightarrow> \<exists>w'. Run E w = Some w' \<and> cancel_in w' = Some 0"
proof (induction n arbitrary: w rule: less_induct)
  case (less n)
  obtain go_on w1 where round: "poll_round E w = (go_on, w1)" by fastforce
  with poll_round_waits [OF round] less show ?case
    by (subst Run.simps) (auto split: if_splits)
qed

lemma Run_returns:
  assumes "Run E w = Some w'"
  shows "cancel_in w \<noteq> None"
proof (rule Run.raw_induct [where P = "\<lambda>_ w _. cancel_in w \<noteq> None", OF _ assms])
  fix f E w and w' :: "'a agent_world_scheme"
  assume IH: "\<And>E w w'. f E w = Some w' \<Longrightarrow> cancel_in w \<noteq> None"
    and run: "(case poll_round E w of (go_on, w') \<Rightarrow> if go_on then f E w' else Some w') = Some w'"
  obtain go_on w1 where round: "poll_round E w = (go_on, w1)" by fastforce
  with poll_round_waits [OF round] run IH [of E w1] show "cancel_in w \<noteq> None"
    by (cases "cancel_in w") (auto split: if_splits)
qed

text \<open>C30: The agent runs until it is stopped and then stops: with a context that is never cancelled
  the loop does not end, whatever fails in its polls; once the context is cancelled, whenever
  that is, the loop returns, and it returns only having seen the cancellation.\<close>

theorem Run_until_cancelled:
  "case cancel_in w of
     None \<Rightarrow> Run E w = None
   | Some n \<Rightarrow> \<exists>w'. Run E w = Some w' \<and> cancel_in w' = Some 0"
proof (cases "cancel_in w")
  case None
  then show ?thesis using Run_returns [of E w] by (cases "Run E w") auto
next
  case (Some n)
  then show ?thesis using Run_cancelled by auto
qed

section \<open>What a poll asks for and runs\<close>

text \<open>Between two worlds the agent has only sent calls that \<open>P\<close> allows, to the server of its
  configuration, and has only run commands that \<open>H\<close> allows.\<close>

definition asked_only ::
  "(string \<Rightarrow> string \<Rightarrow> bool) \<Rightarrow> (hook_run \<Rightarrow> bool) \<Rightarrow> 'z agent_world_scheme \<Rightarrow> 'z agent_world_scheme \<Rightarrow> bool" where
  "asked_only P H w w' \<longleftrightarrow> cf_Server (Cfg w') = cf_Server (Cfg w) \<and>
     (\<exists>xs hs. sent w' = xs @ sent w \<and> ran w' = hs @ ran w \<and>
        (\<forall>x\<in>set xs. \<exists>path. P (ac_Method x) path \<and> ac_Url x = api_url (Cfg w) path) \<and> (\<forall>h\<in>set hs. H h))"

lemma asked_nothing:
  "cf_Server (Cfg w') = cf_Server (Cfg w) \<Longrightarrow> sent w' = sent w \<Longrightarrow> ran w' = ran w \<Longrightarrow> asked_only P H w w'"
  by (auto simp: asked_only_def intro!: exI [of _ "[]"])

lemma asked_only_trans:
  assumes "asked_only P H w w1" and "asked_only P H w1 w2"
  shows "asked_only P H w w2"
proof -
  obtain xs hs where 1: "cf_Server (Cfg w1) = cf_Server (Cfg w)" "sent w1 = xs @ sent w" "ran w1 = hs @ ran w"
      "\<forall>x\<in>set xs. \<exists>path. P (ac_Method x) path \<and> ac_Url x = api_url (Cfg w) path" "\<forall>h\<in>set hs. H h"
    using assms(1) unfolding asked_only_def by blast
  obtain ys ks where 2: "cf_Server (Cfg w2) = cf_Server (Cfg w1)" "sent w2 = ys @ sent w1" "ran w2 = ks @ ran w1"
      "\<forall>x\<in>set ys. \<exists>path. P (ac_Method x) path \<and> ac_Url x = api_url (Cfg w1) path" "\<forall>h\<in>set ks. H h"
    using assms(2) unfolding asked_only_def by blast
  have "api_url (Cfg w1) = api_url (Cfg w)" using 1(1) by (simp add: api_url_def fun_eq_iff)
  with 1 2 show ?thesis
    unfolding asked_only_def
    by (intro conjI exI [of _ "ys @ xs"] exI [of _ "ks @ hs"]) auto
qed

interpretation asking: memory_relation "asked_only P H" P H for P H
proof (unfold_locales, goal_cases)
  case (2 w w1 w2)
  then show ?case by (rule asked_only_trans)
next
  case (3 w' w)
  show ?case using rest_world(1,4,5) [OF 3] by (simp add: asked_nothing)
next
  case (8 m q w b)
  then show ?case
    unfolding asked_only_def by (intro conjI exI [of _ "[call_of q m b w]"] exI [of _ "[]"]) (auto simp: call_of_def)
next
  case (10 h w)
  then show ?case unfolding asked_only_def by (intro conjI exI [of _ "[]"] exI [of _ "[h]"]) auto
qed (simp_all add: asked_nothing)

definition poll_asks :: "(string \<times> secret_definition) list \<Rightarrow> string \<Rightarrow> string \<Rightarrow> bool" where
  "poll_asks defs method path \<longleftrightarrow> method = ''POST'' \<and> path = ''enroll'' \<or>
     method = ''GET'' \<and> (\<exists>(n, d)\<in>set defs.
       path \<in> {''metadata/'' @ escape_path (de_Path d), ''secrets/'' @ escape_path (de_Path d)})"

definition poll_runs :: "'e agent_env_scheme \<Rightarrow> (string \<times> secret_definition) list \<Rightarrow> hook_run \<Rightarrow> bool" where
  "poll_runs E defs h \<longleftrightarrow> (\<exists>(n, d)\<in>set defs. argv d \<noteq> [] \<and> hr_Args h = argv d \<and> hr_Timeout h = command_timeout E d)"

text \<open>C29: A poll talks to nobody but the configured server, asks it only for the secrets of the
  local definitions, and runs only their commands. The definitions are those the poll reads:
  each is what the decoder made of a regular file \<open>*.yaml\<close> of the definitions directory of the
  agent's configuration, accepted by the checks of that configuration (canonical path,
  absolute executable, positive time limit). Whatever the server answers and whatever fails,
  each call of the poll is a POST to \<open>enroll\<close> or a GET of the metadata or of the value of the
  path of one of these definitions, under the API of the server of the configuration; and each
  command it starts is, with all its arguments and its time limit, the command of one of them,
  so no command comes from the server.\<close>

theorem Sync_asks:
  assumes "range_law E" and "Sync E w = (r, w')"
  shows "asked_only (poll_asks (polled E w)) (poll_runs E (polled E w)) w w' \<and>
    (\<forall>(n, d)\<in>set (polled E w). local_definition E (Cfg w) (snd (Enroll E w)) n d)"
proof
  show "asked_only (poll_asks (polled E w)) (poll_runs E (polled E w)) w w'"
  proof (rule asking.memory_Sync [OF _ _ assms(2)])
    show "poll_asks (polled E w) ''POST'' ''enroll''" by (simp add: poll_asks_def)
  next
    fix k n d assume "(n, d) \<in> set (range_order E k (polled E w))"
    then have "(n, d) \<in> set (polled E w)" by (simp add: range_set [OF assms(1)])
    then show "asking.allows (poll_asks (polled E w)) (poll_runs E (polled E w)) E d"
      by (auto simp: asking.allows_def poll_asks_def poll_runs_def hook_call_def)
  qed
  show "\<forall>(n, d)\<in>set (polled E w). local_definition E (Cfg w) (snd (Enroll E w)) n d"
    using polled_local by blast
qed

lemma Sync_asks_witness:
  "\<exists>xs hs. sent (snd (Sync demo_agent_env (demo_agent_world demo_answers []))) = xs \<and>
     ran (snd (Sync demo_agent_env (demo_agent_world demo_answers []))) = hs \<and>
     (\<forall>h\<in>set hs. hr_Args h = [''/bin/true'']) \<and> (\<forall>x\<in>set xs. ac_Method x = ''POST'' \<or> ac_Method x = ''GET'')"
proof -
  have "asked_only (poll_asks [(''a.yaml'', demo_definition)]) (poll_runs demo_agent_env [(''a.yaml'', demo_definition)])
      (demo_agent_world demo_answers []) (snd (Sync demo_agent_env (demo_agent_world demo_answers [])))"
    using Sync_asks [OF demo_range prod.collapse [symmetric], of "demo_agent_world demo_answers []"]
    unfolding demo_polled by (rule conjunct1)
  moreover have "argv demo_definition = [''/bin/true'']" by (simp add: demo_definition_def argv_def)
  moreover have "sent (demo_agent_world demo_answers []) = []" "ran (demo_agent_world demo_answers []) = []"
    by (simp_all add: demo_agent_world_def)
  ultimately show ?thesis by (auto simp: asked_only_def poll_asks_def poll_runs_def)
qed

section \<open>Every definition is attempted\<close>

text \<open>The reference: synchronise one after the other and note the names that failed.\<close>

fun attempt_all ::
  "'e agent_env_scheme \<Rightarrow> (string \<times> secret_definition) list \<Rightarrow> 'z agent_world_scheme \<Rightarrow> string list \<times> 'z agent_world_scheme" where
  "attempt_all E [] w = ([], w)"
| "attempt_all E ((name, d) # rest) w =
     (case syncOne E name d w of (r, w1) \<Rightarrow>
      case attempt_all E rest w1 of (failed, w2) \<Rightarrow>
        ((case r of Inl e \<Rightarrow> name # failed | Inr u \<Rightarrow> failed), w2))"

lemma sync_each_attempts:
  assumes "cancel_in w = None"
  shows "sync_each E defs failures w =
    (case attempt_all E defs w of (failed, w') \<Rightarrow>
       (if failures = [] \<and> failed = [] then Inr ()
        else Inl (ErrText (Join (failures @ map definition_failed failed) CHR 0x0A)), w'))"
  using assms
proof (induction defs arbitrary: w failures)
  case (Cons x defs)
  obtain name d where x: "x = (name, d)" by (cases x)
  obtain r w1 where run: "syncOne E name d w = (r, w1)" by fastforce
  have "waits_on w w1" by (rule stepsD [OF waiting.steps_memory_syncOne run]) (simp add: waiting.allows_def)
  then have "cancel_in w1 = None" using Cons.prems by (simp add: waits_on_def)
  note rest = Cons.IH [OF this]
  have "ctx_done w = (Inr False, w)" using Cons.prems by (simp add: ctx_done_def)
  then show ?case
    by (simp add: x andthen_def attempt_def run rest split: sum.split prod.split)
qed (simp add: ret_def throw_def)

text \<open>C31: Definitions are independent: with a context that stays uncancelled, the loop of a poll attempts
  every definition of its list once, in its order (the one the map iteration gave), each after whatever happened to the ones before
  it; it succeeds when all did and otherwise reports exactly the names that failed.\<close>

theorem sync_each_equals_attempt_all:
  assumes "cancel_in w = None"
  shows "sync_each E defs [] w =
    (case attempt_all E defs w of (failed, w') \<Rightarrow>
       (if failed = [] then Inr () else Inl (ErrText (Join (map definition_failed failed) CHR 0x0A)), w'))"
  using sync_each_attempts [OF assms, of E defs "[]"] by (simp add: split_beta)

lemma sync_each_equals_attempt_all_witness:
  "sync_each demo_agent_env [(''a.yaml'', demo_definition)] [] (demo_agent_world demo_answers []) = (Inr (), snd (demo_run []))"
proof -
  have "cancel_in (demo_agent_world demo_answers []) = None" by (simp add: demo_agent_world_def)
  moreover have "syncOne demo_agent_env ''a.yaml'' demo_definition (demo_agent_world demo_answers []) = (Inr (), snd (demo_run []))"
    using demo_run_pair [of "[]"] by (simp add: demo_run_def)
  ultimately show ?thesis
    using sync_each_equals_attempt_all [of "demo_agent_world demo_answers []" demo_agent_env "[(''a.yaml'', demo_definition)]"]
    by (simp del: sync_each.simps)
qed

end
