(* ===== verification/Walk.thy ===== *)
theory Walk
  imports Host
begin

text \<open>
  The kernel's walk along a path (\<open>resolve\<close>, theory Host) as an inductive relation: which inode
  it arrives at, and that adding a file to a directory does not lead it astray.
\<close>

text \<open>The entry \<open>c\<close> of the directory \<open>d\<close> is the inode \<open>j\<close>; \<open>c\<close> is no dot.\<close>

definition named :: "(nat \<rightharpoonup> node) \<Rightarrow> nat \<Rightarrow> string \<Rightarrow> nat \<Rightarrow> bool" where
  "named ns d c j \<longleftrightarrow> c \<noteq> [] \<and> c \<noteq> ''.'' \<and> c \<noteq> ''..'' \<and> (\<exists>p es. ns d = Some (Directory p es) \<and> es c = Some j)"

lemma resolve_named:
  assumes "named ns d c j"
  shows "resolve ns n d (c # cs) b =
    (case ns j of
       Some (Link t) \<Rightarrow>
         if cs = [] \<and> \<not> b then Inr j else if n = 0 then Inl ELOOP
         else resolve ns (n - 1) (if IsAbs t then 0 else d) (Split t slash @ cs) b
     | _ \<Rightarrow> resolve ns n j cs b)"
  using assms by (auto simp: named_def simp del: resolve.simps(1) split: option.split node.split)

text \<open>A walk that arrives, as an inductive relation; the facts about it follow by rule induction.\<close>

inductive arrives :: "(nat \<rightharpoonup> node) \<Rightarrow> bool \<Rightarrow> nat \<Rightarrow> nat \<Rightarrow> string list \<Rightarrow> nat \<Rightarrow> bool" for ns b where
  here: "arrives ns b n d [] d"
| stay: "ns d = Some (Directory p es) \<Longrightarrow> c = [] \<or> c = ''.'' \<Longrightarrow> arrives ns b n d cs i \<Longrightarrow> arrives ns b n d (c # cs) i"
| up: "ns d = Some (Directory p es) \<Longrightarrow> arrives ns b n (d_parent p) cs i \<Longrightarrow> arrives ns b n d (''..'' # cs) i"
| down: "named ns d c j \<Longrightarrow> \<forall>t. ns j \<noteq> Some (Link t) \<Longrightarrow> arrives ns b n j cs i \<Longrightarrow> arrives ns b n d (c # cs) i"
| stop: "named ns d c j \<Longrightarrow> ns j = Some (Link t) \<Longrightarrow> \<not> b \<Longrightarrow> arrives ns b n d [c] j"
| follow: "named ns d c j \<Longrightarrow> ns j = Some (Link t) \<Longrightarrow> cs \<noteq> [] \<or> b \<Longrightarrow>
    arrives ns b n (if IsAbs t then 0 else d) (Split t slash @ cs) i \<Longrightarrow> arrives ns b (Suc n) d (c # cs) i"

lemma resolve_arrives: "resolve ns n d cs b = Inr i \<Longrightarrow> arrives ns b n d cs i"
proof (induction ns n d cs b rule: resolve.induct)
  case (2 ns n d c cs b)
  from "2.prems" obtain p es where d: "ns d = Some (Directory p es)" by (auto split: option.splits node.splits)
  show ?case
  proof (cases "c = [] \<or> c = ''.'' \<or> c = ''..''")
    case True
    then show ?thesis using "2.IH"(1,2) [OF d refl] "2.prems" d by (auto intro: arrives.stay arrives.up)
  next
    case False
    then have c: "\<not> (c = [] \<or> c = ''.'')" "c \<noteq> ''..''" by auto
    obtain j where j: "es c = Some j" using "2.prems" d c by (auto split: option.splits)
    have named: "named ns d c j" using c d j by (simp add: named_def)
    note here = "2.IH"(3-7) [OF d refl c j] and run = "2.prems" [unfolded resolve_named [OF named]]
    show ?thesis
    proof (cases "\<exists>t. ns j = Some (Link t)")
      case True
      then obtain t where t: "ns j = Some (Link t)" by blast
      show ?thesis
      proof (cases "cs = [] \<and> \<not> b")
        case True
        with run t have "b = False" "cs = []" "j = i" by simp_all
        with arrives.stop [OF named t, of False n] show ?thesis by (simp only: not_False_eq_True)
      next
        case False
        with run t have n: "n \<noteq> 0" "resolve ns (n - 1) (if IsAbs t then 0 else d) (Split t slash @ cs) b = Inr i"
          by (auto split: if_splits)
        have "arrives ns b (Suc (n - 1)) d (c # cs) i"
          using False by (intro arrives.follow [OF named t _ here(4) [OF t refl False n]]) simp
        with n(1) show ?thesis by simp
      qed
    next
      case False
      then have run: "resolve ns n j cs b = Inr i" using run by (simp split: option.splits node.splits)
      have "arrives ns b n j cs i"
      proof (cases "ns j")
        case None
        from here(1) [OF None run] show ?thesis .
      next
        case (Some m)
        from here(2,3,5) [OF Some _ run] False Some show ?thesis by (cases m) simp_all
      qed
      with False show ?thesis by (intro arrives.down [OF named]) auto
    qed
  qed
qed (simp add: arrives.here)

lemma arrives_resolve: "arrives ns b n d cs i \<Longrightarrow> resolve ns n d cs b = Inr i"
proof (induction rule: arrives.induct)
  case (down d c j n cs i)
  then show ?case unfolding resolve_named [OF down(1)] by (simp split: option.split node.split)
next
  case (stop d c j t n)
  then show ?case unfolding resolve_named [OF stop(1)] by simp
next
  case (follow d c j t cs n i)
  then show ?case unfolding resolve_named [OF follow(1)] by auto
qed (simp_all split: option.split node.split)

text \<open>A walk still leads to the same inode after an entry for a new, plain file was added.\<close>

definition grown :: "(nat \<rightharpoonup> node) \<Rightarrow> (nat \<rightharpoonup> node) \<Rightarrow> bool" where
  "grown ns ns' \<longleftrightarrow>
     (\<forall>i t. ns' i = Some (Link t) \<longleftrightarrow> ns i = Some (Link t)) \<and>
     (\<forall>i p es. ns i = Some (Directory p es) \<longrightarrow> (\<exists>es'. ns' i = Some (Directory p es') \<and> es \<subseteq>\<^sub>m es'))"

lemma grown_link: "grown ns ns' \<Longrightarrow> ns' i = Some (Link t) \<longleftrightarrow> ns i = Some (Link t)"
  by (simp add: grown_def)

lemma grown_directory: "grown ns ns' \<Longrightarrow> ns i = Some (Directory p es) \<Longrightarrow> \<exists>es'. ns' i = Some (Directory p es')"
  unfolding grown_def by blast

lemma grown_named: "grown ns ns' \<Longrightarrow> named ns d c j \<Longrightarrow> named ns' d c j"
  by (fastforce simp: grown_def named_def map_le_def dom_def)

lemma arrives_grown: "arrives ns b n d cs i \<Longrightarrow> grown ns ns' \<Longrightarrow> arrives ns' b n d cs i"
proof (induction rule: arrives.induct)
  case (stay d p es c n cs i)
  then show ?case using grown_directory [OF stay(5,1)] by (blast intro: arrives.stay)
next
  case (up d p es n cs i)
  then show ?case using grown_directory [OF up(4,1)] by (blast intro: arrives.up)
next
  case (down d c j n cs i)
  show ?case
    by (rule arrives.down [OF grown_named [OF down(5,1)]]) (use down in \<open>simp_all add: grown_link\<close>)
next
  case (stop d c j t n)
  show ?case
    by (rule arrives.stop [OF grown_named [OF stop(4,1)]]) (use stop in \<open>simp_all add: grown_link\<close>)
next
  case (follow d c j t cs n i)
  show ?case
    by (rule arrives.follow [where t = t, OF grown_named [OF follow(6,1)]]) (use follow in \<open>simp_all add: grown_link\<close>)
qed (rule arrives.here)

lemma arrives_snoc:
  assumes "arrives ns True n d cs k" and "named ns k c i" and "ns i = Some (Reg f)"
  shows "arrives ns b n d (cs @ [c]) i"
  using assms
proof (induction rule: arrives.induct)
  case (follow d a j t cs n k)
  then show ?case by (auto intro!: arrives.follow [where t = t])
qed (auto intro: arrives.intros)

text \<open>Adding a fresh regular file to a directory.\<close>

lemma grown_file:
  assumes "ns d = Some (Directory p es)" and "ns i = None" and "es c = None"
  shows "grown ns (ns(i \<mapsto> Reg f, d \<mapsto> Directory p (es(c \<mapsto> i))))"
  using assms by (auto simp: grown_def map_le_def dom_def)

end
