(* ===== verification/AgentMain.thy ===== *)
theory AgentMain
  imports Startup Polling Walk
begin

text \<open>
  The agent's command (cmd/ssm-agent/main.go): configuration, log level, start-up, the advisory
  lock on the state directory, and then one synchronisation or the polling loop.
\<close>

section \<open>The lock\<close>

text \<open>The locks of all processes of the machine, by inode; a process is a number.\<close>

record agent_process = agent_world +
  locks :: "nat \<rightharpoonup> nat"

definition EAGAIN :: err where
  "EAGAIN = ErrText ''resource temporarily unavailable''"

text \<open>\<open>open(path, O_RDWR|O_CREAT|O_NOFOLLOW|O_CLOEXEC, 0600)\<close>.\<close>

definition open_lock :: "'e host_env_scheme \<Rightarrow> string \<Rightarrow> ('z host_scheme, nat) proc" where
  "open_lock E path = sys (\<lambda>w.
     let parts = Split path slash in
     case resolve (nodes w) 40 (if IsAbs path then 0 else cwd E) (butlast parts) True of
       Inl e \<Rightarrow> (Inl e, w)
     | Inr d \<Rightarrow>
         (case child w d (last parts) of
            Inr i \<Rightarrow>
              (case nodes w i of
                 Some (Reg f) \<Rightarrow> (Inr i, w)
               | Some (Directory p es) \<Rightarrow> (Inl EISDIR, w)
               | Some (Link t) \<Rightarrow> (Inl ELOOP, w)
               | _ \<Rightarrow> (Inl EIO, w))
          | Inl e \<Rightarrow>
              if e \<noteq> ENOENT then (Inl e, w)
              else let i = next_ino w;
                       f = \<lparr>f_data = Bytes [], f_mode = 384, f_uid = self_uid E, f_gid = self_gid E, f_synced = False\<rparr>
                   in (Inr i, set_entries d (\<lambda>es. es(last parts \<mapsto> i))
                         (w\<lparr>nodes := (nodes w)(i \<mapsto> Reg f), next_ino := Suc i\<rparr>))))"

text \<open>\<open>flock(fd, LOCK_EX|LOCK_NB)\<close> by the process \<open>me\<close>, and the end of the process that held it.\<close>

definition flock :: "nat \<Rightarrow> nat \<Rightarrow> ('z agent_process_scheme, unit) proc" where
  "flock me i = sys (\<lambda>w.
     if locks w i \<noteq> None \<and> locks w i \<noteq> Some me then (Inl EAGAIN, w)
     else (Inr (), w\<lparr>locks := (locks w)(i \<mapsto> me)\<rparr>))"

definition unlock_file :: "nat \<Rightarrow> 'z agent_process_scheme \<Rightarrow> 'z agent_process_scheme" where
  "unlock_file i w = w\<lparr>locks := (locks w)(i := None)\<rparr>"

section \<open>The command\<close>

record agent_flags =
  fl_Version :: bool
  fl_Config :: string
  fl_Once :: bool

text \<open>Up to the state directory: the configuration, the log level, and \<open>New\<close>.\<close>

definition prepare :: "'e agent_env_scheme \<Rightarrow> agent_flags \<Rightarrow> ('z agent_world_scheme, config) proc" where
  "prepare E fl =
     andthen (on_error (LoadConfig E (fl_Config fl)) (\<lambda>_. ErrText ''cannot load agent configuration'')) (\<lambda>c.
     if \<not> level_ok (cf_LogLevel c) then throw (ErrText ''invalid log_level'')
     else andthen (New E c) (\<lambda>_. ret c))"

text \<open>The lock file is named with the state directory as it stands in the configuration.\<close>

definition lock_path :: "config \<Rightarrow> string" where
  "lock_path c = cf_StateDir c @ ''/agent.lock''"

definition take_lock :: "'e agent_env_scheme \<Rightarrow> nat \<Rightarrow> config \<Rightarrow> ('z agent_process_scheme, nat) proc" where
  "take_lock E me c =
     andthen (on_error (open_lock E (lock_path c)) (\<lambda>_. ErrText ''cannot open agent lock'')) (\<lambda>fd.
     andthen (on_error (flock me fd) (\<lambda>_. ErrText ''another agent is using this state directory'')) (\<lambda>_.
     ret fd))"

definition agent_start :: "'e agent_env_scheme \<Rightarrow> agent_flags \<Rightarrow> nat \<Rightarrow> ('z agent_process_scheme, nat) proc" where
  "agent_start E fl me = andthen (prepare E fl) (take_lock E me)"

text \<open>
  The whole run of the process \<open>me\<close>, \<open>None\<close> if it never ends; the printed version is not part of
  the world.
\<close>

definition agent_run ::
  "'e agent_env_scheme \<Rightarrow> agent_flags \<Rightarrow> nat \<Rightarrow> 'z agent_process_scheme \<Rightarrow> ((err + unit) \<times> 'z agent_process_scheme) option" where
  "agent_run E fl me w =
     (if fl_Version fl then Some (Inr (), w)
      else (case agent_start E fl me w of
          (Inl e, w1) \<Rightarrow> Some (Inl e, w1)
        | (Inr fd, w1) \<Rightarrow>
            if fl_Once fl then (case Sync E w1 of (r, w2) \<Rightarrow> Some (r, unlock_file fd w2))
            else map_option (\<lambda>w2. (Inr (), unlock_file fd w2)) (Run E w1)))"

section \<open>One agent at a time\<close>

text \<open>What an agent has done so far that others can notice, and the locks.\<close>

abbreviation traces :: "'z agent_process_scheme \<Rightarrow> api_call list \<times> hook_run list \<times> (nat \<rightharpoonup> nat)" where
  "traces w \<equiv> (sent w, ran w, locks w)"

lemma traces_disk: "host.more w' = host.more w \<Longrightarrow> traces w' = traces w"
  by (cases w; cases w'; simp)

lemma traces_aside: "steps (\<lambda>w w'. host.more w' = host.more w) m \<Longrightarrow> steps (\<lambda>w w'. traces w' = traces w) m"
  by (rule stepsI, rule wpreI, drule (1) stepsD) (rule traces_disk)

lemma traces_New: "steps (\<lambda>w w'. traces w' = traces w) (New E c)"
proof -
  have reads: "steps (\<lambda>w w'. traces w' = traces w) (privateRead E p)" "steps (\<lambda>w w'. traces w' = traces w) (Lstat E p)" for p
    unfolding privateRead_def
    by (rule traces_aside; (intro steps rest.steps_reads; (auto intro!: steps rest.steps_reads split: node.split)?))+
  show ?thesis
    unfolding New_def load_credentials_def load_revisions_def
    by (intro steps reads traces_aside [OF rest_HTTPClient] traces_aside [OF rest_MkdirAll] same.steps_modify) simp_all
qed

lemma traces_prepare: "steps (\<lambda>w w'. traces w' = traces w) (prepare E fl)"
proof -
  have "steps (\<lambda>w w'. traces w' = traces w) (LoadConfig E p)" for p
    unfolding LoadConfig_def by (rule traces_aside) (intro steps rest.steps_reads)
  then show ?thesis unfolding prepare_def by (intro steps traces_New)
qed

text \<open>New inodes stay new through the preparation.\<close>

interpretation fresh: host_relation "\<lambda>w w'. unused_above w \<longrightarrow> unused_above w'"
  by unfold_locales (simp add: unused_above_def, simp add: crash_confined)

lemma unused_set_entries: "unused_above w \<Longrightarrow> unused_above (set_entries d es w)"
  by (auto simp: unused_above_def set_entries_def split: option.split node.split)

lemma unused_new: "unused_above w \<Longrightarrow> unused_above (w\<lparr>nodes := (nodes w)(next_ino w \<mapsto> x), next_ino := Suc (next_ino w)\<rparr>)"
  by (simp add: unused_above_def)

lemma fresh_MkdirAll: "steps (\<lambda>w w'. unused_above w \<longrightarrow> unused_above w') (MkdirAll E path m)"
proof (induction E path m rule: MkdirAll.induct)
  case (1 E path m)
  have mkdir: "steps (\<lambda>w w'. unused_above w \<longrightarrow> unused_above w') (Mkdir E path m)"
    unfolding Mkdir_def
    by (rule fresh.steps_sys, rule stepsI)
       (auto simp: wpre_def Let_def unused_set_entries unused_new split: sum.split)
  show ?case
    by (subst MkdirAll.simps)
       (intro steps fresh.steps_reads mkdir 1; (auto intro!: steps fresh.steps_reads mkdir 1 split: node.split)?)
qed

lemma fresh_prepare: "steps (\<lambda>w w'. unused_above w \<longrightarrow> unused_above w') (prepare E fl)"
proof -
  have reads: "steps (\<lambda>w w'. unused_above w \<longrightarrow> unused_above w') (privateRead E p)"
    "steps (\<lambda>w w'. unused_above w \<longrightarrow> unused_above w') (LoadConfig E p)"
    "steps (\<lambda>w w'. unused_above w \<longrightarrow> unused_above w') (HTTPClient E p)" for p
    unfolding privateRead_def LoadConfig_def HTTPClient_def
    by (intro steps fresh.steps_reads; (auto intro!: steps fresh.steps_reads split: node.split)?)+
  have "steps (\<lambda>w w'. unused_above w \<longrightarrow> unused_above w') (New E c)" for c
    unfolding New_def load_credentials_def load_revisions_def
    by (intro steps reads fresh_MkdirAll fresh.steps_reads keeps.steps_modify) (simp_all add: unused_above_def)
  then show ?thesis unfolding prepare_def by (intro steps reads)
qed

lemma prepare_Inr:
  assumes "prepare E fl w = (Inr c, w')"
  shows "fst (LoadConfig E (fl_Config fl) w) = Inr c \<and> IsAbs (cf_StateDir c) \<and>
    (\<exists>p es. node_at E w' (cf_StateDir c) False = Inr (Directory p es))"
proof -
  obtain w1 i where "LoadConfig E (fl_Config fl) w = (Inr c, w1)" and new: "New E c w1 = (Inr i, w')"
    using assms by (auto simp: prepare_def did split: if_splits)
  moreover have "started E c w1 i w'" using wpreD [OF wpre_New new] by simp
  ultimately show ?thesis
    by (auto simp: started_def elim!: private_dir.elims)
qed

text \<open>Opening the lock of a state directory: its regular file \<open>agent.lock\<close>, found or created.\<close>

lemma Split_lock: "Split (dir @ ''/agent.lock'') slash = Split dir slash @ [''agent.lock'']"
  using Split_append [of dir slash "''agent.lock''"] by simp

lemma locate_aside [simp]:
  "locate E (w\<lparr>outcomes := os\<rparr>) p b = locate E w p b" "locate E (w\<lparr>locks := l\<rparr>) p b = locate E w p b"
  by (simp_all add: locate_def)

lemma locate_lock:
  assumes "IsAbs dir" and "arrives (nodes w) True 40 0 (Split dir slash) d" and "named (nodes w) d ''agent.lock'' i"
    and "nodes w i = Some (Reg f)"
  shows "locate E w (dir @ ''/agent.lock'') False = Inr i"
proof -
  have "IsAbs (dir @ ''/agent.lock'')" using assms(1) by (cases dir) (simp_all add: IsAbs_def HasPrefix_def)
  then show ?thesis
    using arrives_resolve [OF arrives_snoc [OF assms(2-4)]] by (simp add: locate_def Split_lock)
qed

lemma wpre_open_lock:
  assumes dir: "IsAbs dir" "node_at E w dir False = Inr (Directory p es)" and unused: "unused_above w"
    and found: "\<And>i f w'. traces w' = traces w \<Longrightarrow> nodes w' i = Some (Reg f) \<Longrightarrow>
      locate E w' (dir @ ''/agent.lock'') False = Inr i \<Longrightarrow> Q (Inr i) w'"
    and not: "\<And>e w'. traces w' = traces w \<Longrightarrow> Q (Inl e) w'"
  shows "wpre (open_lock E (dir @ ''/agent.lock'')) Q w"
proof -
  let ?l = "dir @ ''/agent.lock''"
  have abs: "IsAbs ?l" using dir(1) by (cases dir) (simp_all add: IsAbs_def HasPrefix_def)
  obtain d where d: "resolve (nodes w) 40 0 (Split dir slash) False = Inr d" "nodes w d = Some (Directory p es)"
    using dir by (auto simp: node_at_def locate_def split: if_splits sum.splits option.splits)
  then have walk: "resolve (nodes w) 40 0 (Split dir slash) True = Inr d" by (simp add: resolve_follow)
  note at = locate_lock [OF dir(1)]
  show ?thesis
    unfolding open_lock_def
  proof (rule wpre_sys, goal_cases)
    case (2 os)
    let ?w = "w\<lparr>outcomes := os\<rparr>" and ?f = "\<lparr>f_data = Bytes [], f_mode = 384, f_uid = self_uid E, f_gid = self_gid E, f_synced = False\<rparr>"
    show ?case
    proof (cases "es ''agent.lock''")
      case None
      let ?i = "next_ino w"
      let ?v = "set_entries d (\<lambda>es. es(''agent.lock'' \<mapsto> ?i)) (?w\<lparr>nodes := (nodes w)(?i \<mapsto> Reg ?f), next_ino := Suc ?i\<rparr>)"
      have new: "nodes w ?i = None" using unused by (simp add: unused_above_def)
      with d(2) have "?i \<noteq> d" by auto
      then have nodes: "nodes ?v = (nodes w)(?i \<mapsto> Reg ?f, d \<mapsto> Directory p (es(''agent.lock'' \<mapsto> ?i)))"
        using d(2) by (simp add: set_entries_def fun_upd_twist)
      have "arrives (nodes ?v) True 40 0 (Split dir slash) d"
        unfolding nodes by (rule arrives_grown [OF resolve_arrives [OF walk] grown_file [OF d(2) new None]])
      moreover have "named (nodes ?v) d ''agent.lock'' ?i" "nodes ?v ?i = Some (Reg ?f)"
        using \<open>?i \<noteq> d\<close> by (simp_all add: nodes named_def)
      ultimately have "locate E ?v ?l False = Inr ?i" by (rule at)
      moreover have "traces ?v = traces w" by (simp add: set_entries_def split: option.split node.split)
      ultimately have "Q (Inr ?i) ?v" using \<open>nodes ?v ?i = Some (Reg ?f)\<close> by (intro found)
      moreover have "child ?w d ''agent.lock'' = Inl ENOENT" using d(2) None by (simp add: child_def entries_def)
      ultimately show ?thesis
        using walk abs by (simp add: wpre_def Let_def Split_lock)
    next
      case (Some i)
      have child: "child ?w d ''agent.lock'' = Inr i" using d(2) Some by (simp add: child_def entries_def)
      have "Q (Inr i) ?w" if "nodes w i = Some (Reg f)" for f
        using that resolve_arrives [OF walk] d(2) Some
        by (intro found [of _ _ f] at [where d = d and f = f]) (simp_all add: named_def)
      moreover have "Q (Inl e) ?w" for e by (rule not) simp
      ultimately show ?thesis
        using walk abs child
        by (cases "nodes w i"; cases "the (nodes w i)") (simp_all add: wpre_def Let_def Split_lock)
    qed
  qed (auto simp: crash_def intro!: not)
qed

lemma wpre_take_lock:
  assumes dir: "IsAbs (cf_StateDir c)" "node_at E w (cf_StateDir c) False = Inr (Directory p es)" "unused_above w"
    and taken: "\<And>fd f w'. sent w' = sent w \<Longrightarrow> ran w' = ran w \<Longrightarrow> nodes w' fd = Some (Reg f) \<Longrightarrow>
      locate E w' (cf_StateDir c @ ''/agent.lock'') False = Inr fd \<Longrightarrow>
      locks w fd = None \<or> locks w fd = Some me \<Longrightarrow> locks w' = (locks w)(fd \<mapsto> me) \<Longrightarrow> Q (Inr fd) w'"
    and not: "\<And>e w'. traces w' = traces w \<Longrightarrow> Q (Inl e) w'"
  shows "wpre (take_lock E me c) Q w"
  unfolding take_lock_def lock_path_def wpre_andthen [of "on_error _ _"] wpre_on_error
proof (rule wpre_open_lock [OF dir], goal_cases)
  case (1 fd f w1)
  show ?case
    unfolding sum.case wpre_andthen wpre_on_error flock_def
  proof (rule wpre_sys, goal_cases)
    case (2 os)
    then show ?case
      using 1 taken not by (auto simp: wpre_def ret_def)
  qed (use 1 not in \<open>auto simp: crash_def\<close>)
next
  case (2 e w1)
  then show ?case using not by simp
qed

text \<open>C33: One agent at a time: an agent gets to work only once it holds the lock of its state
  directory. The locked file is the regular file that the path \<open>agent.lock\<close> under the state
  directory of the configuration it has loaded leads to, the same for every agent of that
  directory; no other process had a lock on it; and until then the agent has sent nothing and
  run nothing. If it does not get that far, the locks are as they were. (The machine is any whose
  next inode number is unused.)\<close>

theorem agent_start_exclusive:
  assumes "unused_above w"
  shows "case agent_start E fl me w of
     (Inl e, w') \<Rightarrow> traces w' = traces w
   | (Inr fd, w') \<Rightarrow> sent w' = sent w \<and> ran w' = ran w \<and>
       (\<exists>c. fst (LoadConfig E (fl_Config fl) w) = Inr c \<and>
          locate E w' (cf_StateDir c @ ''/agent.lock'') False = Inr fd) \<and>
       (\<exists>f. nodes w' fd = Some (Reg f)) \<and>
       (locks w fd = None \<or> locks w fd = Some me) \<and> locks w' = (locks w)(fd \<mapsto> me)"
    (is "case _ of (r, w') \<Rightarrow> ?P r w'")
proof -
  have "wpre (agent_start E fl me) ?P w"
    unfolding agent_start_def wpre_andthen
  proof (rule wpreI, goal_cases)
    case (1 r w1)
    have same: "traces w1 = traces w" by (rule stepsD [OF traces_prepare 1])
    have unused: "unused_above w1" using stepsD [OF fresh_prepare 1] assms by simp
    show ?case
    proof (cases r)
      case (Inr c)
      obtain p es where c: "fst (LoadConfig E (fl_Config fl) w) = Inr c" "IsAbs (cf_StateDir c)"
          "node_at E w1 (cf_StateDir c) False = Inr (Directory p es)"
        using prepare_Inr 1 unfolding Inr by blast
      show ?thesis
        unfolding Inr sum.case by (rule wpre_take_lock [OF c(2,3) unused]) (use same c(1) in auto)
    qed (use same in simp)
  qed
  then show ?thesis by (simp add: wpre_def split_beta)
qed

text \<open>On the concrete machine a first agent creates the lock file and locks it.\<close>

definition demo_process :: agent_process where
  "demo_process = agent_world.extend (demo_agent_world [] []) \<lparr>locks = Map.empty\<rparr>"

definition demo_flags :: agent_flags where
  "demo_flags = \<lparr>fl_Version = False, fl_Config = ''/run/key'', fl_Once = True\<rparr>"

lemma demo_process_parts: "nodes demo_process = demo_agent_nodes" "next_ino demo_process = 6" "outcomes demo_process = []"
    "\<not> crashed demo_process" "locks demo_process = Map.empty"
  by (simp_all add: demo_process_def demo_agent_world_def agent_world.defs)

lemma demo_prepare:
  "prepare demo_agent_env demo_flags demo_process = (Inr demo_config,
     demo_process\<lparr>Cfg := demo_config, Credentials := zero_credentials, applied_state := Map.empty\<rparr>)"
proof -
  have "resolve demo_agent_nodes 40 0 [[], ''run'', ''key''] True = Inr 4"
    by (simp add: demo_agent_nodes_def demo_dir_def)
  then have "node_at demo_agent_env demo_process ''/run/key'' True = Inr (the (demo_agent_nodes 4))"
    by (simp add: node_at_def locate_def demo_process_parts IsAbs_def HasPrefix_def del: resolve.simps)
       (simp add: demo_agent_nodes_def)
  then have "ReadBytes demo_agent_env ''/run/key'' demo_process = (Inr ''old'', demo_process)"
    by (simp add: ReadBytes_def ReadFile_def sys_def andthen_def lift_def file_bytes_def demo_process_parts demo_agent_nodes_def)
  moreover have "yaml_config demo_agent_env c b = Some demo_config" for c b
    by (simp add: demo_agent_env_def host_env.defs)
  ultimately have "LoadConfig demo_agent_env ''/run/key'' demo_process = (Inr demo_config, demo_process)"
    by (simp add: LoadConfig_def andthen_def ret_def)
  moreover have "level_ok (cf_LogLevel demo_config)" by code_simp
  moreover note demo_New [of demo_process]
  ultimately show ?thesis
    by (simp add: prepare_def andthen_def on_error_def demo_flags_def demo_process_parts calm_def ret_def)
qed

lemma agent_start_exclusive_witness:
  "\<exists>w'. agent_start demo_agent_env demo_flags 7 demo_process = (Inr 6, w') \<and>
     locate demo_agent_env w' ''/st/agent.lock'' False = Inr 6 \<and> locks w' = [6 \<mapsto> 7]"
proof -
  have st: "cf_StateDir demo_config = ''/st''" "lock_path demo_config = ''/st/agent.lock''"
    by (simp_all add: demo_config_def lock_path_def)
  have walk: "resolve demo_agent_nodes 40 0 [[], ''st''] True = Inr 2"
    by (simp add: demo_agent_nodes_def demo_dir_def)
  have lock: "fst (take_lock demo_agent_env 7 demo_config v) = Inr 6"
    if v: "nodes v = demo_agent_nodes" "next_ino v = 6" "outcomes v = []" "\<not> crashed v" "locks v = Map.empty" for v :: agent_process
  proof -
    have "child v 2 ''agent.lock'' = Inl ENOENT"
      by (simp add: child_def entries_def v) (simp add: demo_agent_nodes_def demo_dir_def)
    moreover have "outcomes (set_entries d es u) = outcomes u" "crashed (set_entries d es u) = crashed u"
      "locks (set_entries d es u) = locks u" for d es and u :: agent_process
      by (simp_all add: set_entries_def split: option.split node.split)
    ultimately show ?thesis
      by (simp add: take_lock_def andthen_def on_error_def ret_def st open_lock_def flock_def sys_def IsAbs_def HasPrefix_def
          Let_def walk v del: resolve.simps)
  qed
  have "fst (agent_start demo_agent_env demo_flags 7 demo_process) = Inr 6"
    unfolding agent_start_def andthen_def demo_prepare prod.case sum.case by (rule lock) (simp_all add: demo_process_parts)
  then obtain w' where run: "agent_start demo_agent_env demo_flags 7 demo_process = (Inr 6, w')"
    by (metis prod.collapse)
  have "unused_above demo_process"
    using demo_agent_unused [of "[]" "[]"] by (simp add: unused_above_def demo_process_parts demo_agent_world_def)
  from agent_start_exclusive [OF this, of demo_agent_env demo_flags 7, unfolded run prod.case sum.case] obtain c where
      "fst (LoadConfig demo_agent_env (fl_Config demo_flags) demo_process) = Inr c"
      "locate demo_agent_env w' (cf_StateDir c @ ''/agent.lock'') False = Inr 6" "locks w' = [6 \<mapsto> 7]"
    by (auto simp: demo_process_parts)
  moreover have "fst (LoadConfig demo_agent_env (fl_Config demo_flags) demo_process) = Inr demo_config"
    using prepare_Inr [OF demo_prepare] by simp
  ultimately show ?thesis using run by (simp add: st)
qed

end
