(* ===== verification/Marshal.thy ===== *)
theory Marshal
  imports Wire Times
begin

text \<open>
  Whole JSON documents as \<open>encoding/json\<close> writes them, from the tree the decoder of theory Json
  reads, and the proof that the decoder reads back what was written.
\<close>

section \<open>Writing\<close>

definition int_text :: "int \<Rightarrow> string" where
  "int_text i = (if i < 0 then CHR ''-'' # decimal (- i) else decimal i)"

text \<open>A number with a fraction or an exponent is never written by the programs.\<close>

fun marshal_json :: "json \<Rightarrow> string" where
  "marshal_json JNull = ''null''"
| "marshal_json (JBool b) = (if b then ''true'' else ''false'')"
| "marshal_json (JInt i) = int_text i"
| "marshal_json (JNumber s) = s"
| "marshal_json (JString s) = marshal_string s"
| "marshal_json (JArray vs) = CHR 0x5B # Join (map marshal_json vs) CHR '','' @ [CHR 0x5D]"
| "marshal_json (JObject kvs) = marshal_object (map (\<lambda>kv. (fst kv, marshal_json (snd kv))) kvs)"

fun writable :: "json \<Rightarrow> bool" where
  "writable (JNumber s) = False"
| "writable (JArray vs) = list_all writable vs"
| "writable (JObject kvs) = list_all (\<lambda>kv. writable (snd kv)) kvs"
| "writable v = True"

text \<open>The same document with every string made UTF-8.\<close>

fun texted :: "json \<Rightarrow> json" where
  "texted (JString s) = JString (text_of s)"
| "texted (JArray vs) = JArray (map texted vs)"
| "texted (JObject kvs) = JObject (map (\<lambda>kv. (text_of (fst kv), texted (snd kv))) kvs)"
| "texted v = v"

section \<open>Numbers\<close>

lemma decimal_digits: "0 \<le> n \<Longrightarrow> list_all digit (decimal n) \<and> decimal n \<noteq> []"
proof (induction n rule: decimal.induct)
  case (1 n)
  have d: "digit (char_of (48 + k :: int))" if "0 \<le> k" "k < 10" for k
  proof -
    have "list_all (\<lambda>k :: int. digit (char_of (48 + k))) [0..9]" by code_simp
    then show ?thesis using that by (simp add: list_all_iff)
  qed
  show ?case
    using 1 d [of n] d [of "n mod 10"] by (subst (1 2) decimal.simps) auto
qed

lemma number_of_decimal: "0 \<le> n \<Longrightarrow> number_of_digits (decimal n) = n"
proof (induction n rule: decimal.induct)
  case (1 n)
  have d: "(of_char (char_of (48 + k :: int) :: char) :: int) = 48 + k" if "0 \<le> k" "k < 10" for k
    using that by simp
  show ?case
  proof (cases "n < 10")
    case True
    then show ?thesis using 1(2) d [of n] by (subst decimal.simps) (simp add: number_of_digits_def)
  next
    case False
    then show ?thesis
      using 1 d [of "n mod 10"] by (subst decimal.simps) (simp add: number_of_digits_def)
  qed
qed

lemma decimal_positive: "0 < n \<Longrightarrow> hd (decimal n) \<noteq> CHR ''0''"
proof (induction n rule: decimal.induct)
  case (1 n)
  have d: "char_of (48 + n) \<noteq> CHR ''0''" if "n < 10"
  proof
    assume "char_of (48 + n) = CHR ''0''"
    then have "(of_char (char_of (48 + n) :: char) :: int) = of_char (CHR ''0'')" by simp
    then show False using that 1(2) by simp
  qed
  show ?case
  proof (cases "n < 10")
    case True
    then show ?thesis using d by (subst decimal.simps) simp
  next
    case False
    then have "decimal (n div 10) \<noteq> []" "0 < n div 10" using decimal_digits [of "n div 10"] by auto
    then show ?thesis using 1(1) False by (subst decimal.simps) simp
  qed
qed

text \<open>What may follow a value.\<close>

definition stops :: "string \<Rightarrow> bool" where
  "stops s \<longleftrightarrow> s = [] \<or> hd s \<in> {CHR '','', CHR 0x5D, CHR 0x7D, CHR 0x0A}"

lemma stops_fraction: "stops rest \<Longrightarrow> fraction rest = Some ([], rest) \<and> exponent rest = Some ([], rest)"
  by (cases rest) (auto simp: stops_def fraction_def exponent_def)

lemma stops_digit: "stops rest \<Longrightarrow> takeWhile digit rest = []"
  by (cases rest) (auto simp: stops_def digit_def less_eq_char_def)

lemma json_number_decimal:
  assumes "stops rest" and "0 \<le> m"
  shows "json_number (decimal m @ rest) = Some (JInt m, rest)"
    and "json_number (CHR ''-'' # decimal m @ rest) = Some (JInt (- m), rest)"
proof -
  obtain c cs where c: "decimal m = c # cs" "digit c" "list_all digit cs"
    using decimal_digits [OF assms(2)] by (cases "decimal m") auto
  have sign: "c \<noteq> CHR ''-''" using c(2) by (auto simp: digit_def less_eq_char_def)
  let ?i = "if HasPrefix (decimal m @ rest) ''0'' then ''0'' else takeWhile digit (decimal m @ rest)"
  have i: "?i = decimal m"
  proof (cases "m = 0")
    case True
    have "decimal 0 = ''0''" by code_simp
    with True show ?thesis by (simp add: HasPrefix_def)
  next
    case False
    then have "c \<noteq> CHR ''0''" using decimal_positive [of m] assms(2) c(1) by simp
    then show ?thesis
      using c stops_digit [OF assms(1)] by (simp add: HasPrefix_def takeWhile_append2 list_all_iff)
  qed
  have plain: "\<not> HasPrefix (decimal m @ rest) ''-''" using c sign by (simp add: HasPrefix_def)
  have minus: "HasPrefix (CHR ''-'' # s) ''-''" "drop 1 (CHR ''-'' # s) = s" for s by (simp_all add: HasPrefix_def)
  have behind: "drop (length (decimal m)) (decimal m @ rest) = rest" "decimal m \<noteq> []" using c by simp_all
  note facts = plain minus i behind stops_fraction [OF assms(1), THEN conjunct1]
    stops_fraction [OF assms(1), THEN conjunct2] number_of_decimal [OF assms(2)]
  show "json_number (decimal m @ rest) = Some (JInt m, rest)"
    "json_number (CHR ''-'' # decimal m @ rest) = Some (JInt (- m), rest)"
    by (simp_all only: json_number_def Let_def facts if_True if_False option.case prod.case simp_thms)
qed

lemma json_number_int: "stops rest \<Longrightarrow> json_number (int_text i @ rest) = Some (JInt i, rest)"
  using json_number_decimal [of rest "\<bar>i\<bar>"] by (auto simp: int_text_def)

section \<open>Reading back\<close>

text \<open>No value begins with white space or with a closing bracket.\<close>

definition starts :: "char \<Rightarrow> bool" where
  "starts c \<longleftrightarrow> c \<in> set ''ntf-0123456789'' \<or> c = CHR 0x22 \<or> c = CHR 0x5B \<or> c = CHR 0x7B"

lemma digit_cases: "digit c \<Longrightarrow> c \<in> set ''0123456789''"
proof -
  assume d: "digit c"
  then have "byte c \<in> {48 ..< 58}" by (auto simp: digit_def less_eq_char_def)
  moreover have "list_all (\<lambda>n :: nat. char_of n \<in> set ''0123456789'') [48..<58]" by code_simp
  ultimately have "char_of (byte c) \<in> set ''0123456789''" unfolding list_all_iff set_upt by blast
  then show ?thesis by simp
qed

lemma marshal_starts: "writable v \<Longrightarrow> \<exists>c cs. marshal_json v = c # cs \<and> starts c"
proof (cases v)
  case (JInt i)
  obtain c cs where "decimal \<bar>i\<bar> = c # cs" "digit c" using decimal_digits [of "\<bar>i\<bar>"] by (cases "decimal \<bar>i\<bar>") auto
  then show ?thesis using JInt digit_cases [of c] by (cases "i < 0") (auto simp: int_text_def starts_def)
qed (auto simp: starts_def marshal_string_def marshal_object_def)

lemma starts_skip: "starts c \<Longrightarrow> skip (c # cs) = c # cs" "starts c \<Longrightarrow> c \<noteq> CHR 0x5D"
  by (auto simp: starts_def skip_def json_space_def)

lemma stops_closing: "stops (CHR 0x5D # s)" "stops (CHR 0x7D # s)" "stops (CHR '','' # s)"
  by (simp_all add: stops_def)

definition reads_back :: "json \<Rightarrow> bool" where
  "reads_back v \<longleftrightarrow> (\<forall>rest n. stops rest \<longrightarrow> 2 * length (marshal_json v @ rest) + 1 \<le> n \<longrightarrow>
     json_value n (marshal_json v @ rest) = Some (texted v, rest))"

lemma reads_backD:
  "reads_back v \<Longrightarrow> stops rest \<Longrightarrow> 2 * length (marshal_json v @ rest) + 1 \<le> n \<Longrightarrow>
     json_value n (marshal_json v @ rest) = Some (texted v, rest)"
  by (simp add: reads_back_def)

lemma reads_backI:
  assumes "\<And>rest m. stops rest \<Longrightarrow> json_value (Suc m) (marshal_json v @ rest) = Some (texted v, rest)"
  shows "reads_back v"
  unfolding reads_back_def
proof (intro allI impI)
  fix rest n
  assume "stops rest" "2 * length (marshal_json v @ rest) + 1 \<le> n"
  then show "json_value n (marshal_json v @ rest) = Some (texted v, rest)" using assms by (cases n) auto
qed

lemma elements_read:
  assumes "list_all reads_back vs" and "vs \<noteq> []"
    and "2 * length (Join (map marshal_json vs) CHR '','' @ CHR 0x5D # rest) + 2 \<le> n"
  shows "json_elements n (Join (map marshal_json vs) CHR '','' @ CHR 0x5D # rest) = Some (map texted vs, rest)"
  using assms
proof (induction vs arbitrary: n)
  case (Cons v vs)
  obtain m where n: "n = Suc m" using Cons.prems(3) by (cases n) auto
  let ?more = "if vs = [] then CHR 0x5D # rest else CHR '','' # Join (map marshal_json vs) CHR '','' @ CHR 0x5D # rest"
  have written: "Join (map marshal_json (v # vs)) CHR '','' @ CHR 0x5D # rest = marshal_json v @ ?more"
    by (cases vs) simp_all
  have len: "2 * length (marshal_json v @ ?more) + 2 \<le> Suc m" using Cons.prems(3) unfolding written n .
  have val: "json_value m (marshal_json v @ ?more) = Some (texted v, ?more)"
    using Cons.prems(1) len by (intro reads_backD) (auto simp: stops_closing)
  have rest: "vs \<noteq> [] \<Longrightarrow> json_elements m (Join (map marshal_json vs) CHR '','' @ CHR 0x5D # rest) = Some (map texted vs, rest)"
    using Cons.prems(1) len by (intro Cons.IH) auto
  have skip: "skip ?more = ?more" by (simp add: skip_def json_space_def)
  show ?case
    unfolding written n json_elements.simps val option.case prod.case skip using rest by simp
qed simp

abbreviation written_members :: "(string \<times> json) list \<Rightarrow> string" where
  "written_members kvs \<equiv> members_text (map (\<lambda>kv. (fst kv, marshal_json (snd kv))) kvs)"

lemma marshal_members: "marshal_json (JObject kvs) = CHR 0x7B # written_members kvs @ [CHR 0x7D]"
  by (simp add: marshal_object_def members_text_def)

lemma members_read:
  assumes "list_all (\<lambda>kv. reads_back (snd kv)) kvs" and "kvs \<noteq> []"
    and "2 * length (written_members kvs @ CHR 0x7D # rest) + 2 \<le> n"
  shows "json_members n (written_members kvs @ CHR 0x7D # rest) =
    Some (map (\<lambda>kv. (text_of (fst kv), texted (snd kv))) kvs, rest)"
  using assms
proof (induction kvs arbitrary: n)
  case (Cons kv kvs)
  obtain k v where kv: "kv = (k, v)" by (cases kv)
  obtain m where n: "n = Suc m" using Cons.prems(3) by (cases n) auto
  let ?more = "if kvs = [] then CHR 0x7D # rest else CHR '','' # written_members kvs @ CHR 0x7D # rest"
  have written: "written_members (kv # kvs) @ CHR 0x7D # rest =
      CHR 0x22 # marshal_chars k @ CHR 0x22 # CHR '':'' # marshal_json v @ ?more"
    by (simp add: kv members_text_Cons marshal_string_def)
  have len: "2 * length (CHR 0x22 # marshal_chars k @ CHR 0x22 # CHR '':'' # marshal_json v @ ?more) + 2 \<le> Suc m"
    using Cons.prems(3) unfolding written n .
  have key: "json_string (marshal_chars k @ CHR 0x22 # CHR '':'' # marshal_json v @ ?more) =
      Some (text_of k, CHR '':'' # marshal_json v @ ?more)"
    by (rule json_string_marshal)
  have val: "json_value m (marshal_json v @ ?more) = Some (texted v, ?more)"
    using Cons.prems(1) len by (intro reads_backD) (auto simp: stops_closing kv)
  have rest: "kvs \<noteq> [] \<Longrightarrow> json_members m (written_members kvs @ CHR 0x7D # rest) =
      Some (map (\<lambda>kv. (text_of (fst kv), texted (snd kv))) kvs, rest)"
    using Cons.prems(1) len by (intro Cons.IH) auto
  show ?case
    unfolding written n json_members.simps skips list.case key option.case prod.case
    using val rest by (simp add: HasPrefix_def skips kv)
qed simp

lemma value_read: "writable v \<Longrightarrow> reads_back v"
proof (induction v)
  case (JNumber s)
  then show ?case by simp
next
  case (JInt i)
  show ?case
    unfolding reads_back_def
  proof (intro allI impI)
    fix rest n
    assume rest: "stops rest" and n: "2 * length (marshal_json (JInt i) @ rest) + 1 \<le> n"
    obtain m where m: "n = Suc m" using n by (cases n) auto
    obtain c cs where c: "int_text i = c # cs" "starts c" using marshal_starts [of "JInt i"] by auto
    have d: "c \<in> set ''-0123456789''"
    proof (cases "i < 0")
      case False
      then show ?thesis using decimal_digits [of i] c(1) digit_cases [of c] by (auto simp: int_text_def)
    qed (use c(1) in \<open>simp add: int_text_def\<close>)
    have "json_number (c # cs @ rest) = Some (JInt i, rest)" using json_number_int [OF rest, of i] c(1) by simp
    then show "json_value n (marshal_json (JInt i) @ rest) = Some (texted (JInt i), rest)"
      using d by (auto simp: m c(1) starts_skip(1) [OF c(2)] HasPrefix_def)
  qed
next
  case (JArray vs)
  have all: "list_all reads_back vs" using JArray by (auto simp: list_all_iff)
  show ?case
    unfolding reads_back_def
  proof (intro allI impI)
    fix rest n
    assume "stops rest" and len: "2 * length (marshal_json (JArray vs) @ rest) + 1 \<le> n"
    obtain m where m: "n = Suc m" using len by (cases n) auto
    let ?s = "Join (map marshal_json vs) CHR '','' @ CHR 0x5D # rest"
    have start: "skip (CHR 0x5B # ?s) = CHR 0x5B # ?s" by (simp add: skip_def json_space_def)
    show "json_value n (marshal_json (JArray vs) @ rest) = Some (texted (JArray vs), rest)"
    proof (cases vs)
      case Nil
      then show ?thesis by (simp add: m skip_def json_space_def HasPrefix_def)
    next
      case (Cons v ws)
      obtain c cs where "marshal_json v = c # cs" and c: "starts c" using marshal_starts [of v] JArray(2) Cons by auto
      then obtain t where s: "?s = c # t" using Cons by (cases ws) auto
      have "\<not> HasPrefix (skip ?s) [CHR 0x5D]" unfolding s starts_skip(1) [OF c] using starts_skip(2) [OF c] by (simp add: HasPrefix_def)
      moreover have "json_elements m ?s = Some (map texted vs, rest)"
        using elements_read [OF all, of rest m] Cons len m by simp
      ultimately show ?thesis using start by (simp add: m)
    qed
  qed
next
  case (JObject kvs)
  have all: "list_all (\<lambda>kv. reads_back (snd kv)) kvs"
    using JObject by (force simp: list_all_iff snds.simps)
  show ?case
    unfolding reads_back_def
  proof (intro allI impI)
    fix rest n
    assume "stops rest" and len: "2 * length (marshal_json (JObject kvs) @ rest) + 1 \<le> n"
    obtain m where m: "n = Suc m" using len by (cases n) auto
    let ?s = "written_members kvs @ CHR 0x7D # rest"
    have start: "skip (CHR 0x7B # ?s) = CHR 0x7B # ?s" by (simp add: skip_def json_space_def)
    have written: "marshal_json (JObject kvs) @ rest = CHR 0x7B # ?s" unfolding marshal_members by simp
    show "json_value n (marshal_json (JObject kvs) @ rest) = Some (texted (JObject kvs), rest)"
    proof (cases kvs)
      case Nil
      then show ?thesis unfolding written by (simp add: m skip_def json_space_def HasPrefix_def members_text_def)
    next
      case (Cons kv ws)
      then obtain t where s: "?s = CHR 0x22 # t" by (cases kv) (auto simp: members_text_Cons marshal_string_def)
      have "\<not> HasPrefix (skip ?s) [CHR 0x7D]" unfolding s skips by (simp add: HasPrefix_def)
      moreover have "json_members m ?s = Some (map (\<lambda>kv. (text_of (fst kv), texted (snd kv))) kvs, rest)"
        using members_read [OF all, of rest m] Cons len [unfolded written] m by simp
      ultimately show ?thesis unfolding written using start by (simp add: m)
    qed
  qed
next
  case (JString s)
  show ?case by (rule reads_backI) (simp only: marshal_json.simps texted.simps json_value_marshal)
qed (auto intro!: reads_backI simp: skip_def json_space_def HasPrefix_def)

lemma json_next_marshal_json:
  assumes "writable v" and "stops rest"
  shows "json_next (marshal_json v @ rest) = JValue (texted v) rest"
proof -
  obtain c cs where c: "marshal_json v = c # cs" "starts c" using marshal_starts [OF assms(1)] by blast
  have "skip (marshal_json v @ rest) \<noteq> []" unfolding c(1) append_Cons starts_skip(1) [OF c(2)] by simp
  moreover have "json_value (2 * length (marshal_json v @ rest) + 2) (marshal_json v @ rest) = Some (texted v, rest)"
    by (rule reads_backD [OF value_read [OF assms(1)] assms(2)]) simp
  ultimately show ?thesis by (simp add: json_next_def)
qed

text \<open>What has been made UTF-8 once stays as it is.\<close>

lemma text_of_text_of [simp]: "text_of (text_of s) = text_of s"
proof (induction s rule: length_induct)
  case (1 s)
  show ?case
  proof (cases s)
    case (Cons c cs)
    have IH: "length t < length s \<Longrightarrow> text_of (text_of t) = text_of t" for t using 1 by blast
    show ?thesis
    proof (cases "byte c < 0x80")
      case True
      then show ?thesis using IH [of cs] Cons by (simp add: text_of_ascii)
    next
      case False
      then have "0x80 \<le> byte c" by simp
      then show ?thesis
      proof (cases rule: DecodeRune_cases [of c cs])
        case (rune u t r)
        have "s = u @ t" "u \<noteq> []" using rune(1) Cons rune_bytes_length [OF rune(2)] by auto
        then show ?thesis using IH [of t] by (simp only: text_of_rune [OF rune(2)] length_append length_greater_0_conv less_add_same_cancel2 not_False_eq_True)
      next
        case bad
        have "rune_bytes [CHR 0xEF, CHR 0xBF, CHR 0xBD] ((byte CHR 0xEF - 0xE0) * 0x1000 + (byte CHR 0xBF - 0x80) * 0x40 + (byte CHR 0xBD - 0x80))"
          by (rule rune_bytes.three) (simp_all add: second_ok_def cont_def)
        then have rune: "rune_bytes [CHR 0xEF, CHR 0xBF, CHR 0xBD] RuneError" by (simp add: RuneError_def)
        note rep = EncodeRune_rune_bytes [OF rune]
        from text_of_rune [OF rune] IH [of cs] show ?thesis
          using Cons text_of_bad [OF bad] by (simp add: rep)
      qed
    qed
  qed simp
qed

end
