(* ===== verification/Service.thy ===== *)
theory Service
  imports Models Times
begin

text \<open>
  The state a request handler works on and the answers it gives. The state is the database
  of theory Storage together with the fields of \<open>Server\<close> (internal/server/server.go): the
  vault and the limiter; with the positions in the random source and the clock; and with the
  two variables \<open>identity\<close> and \<open>path\<close> that \<open>ServeHTTP\<close> hands to \<open>route\<close> by reference.
\<close>

section \<open>Server state\<close>

text \<open>
  The environment of the server: the primitives of theory Security, the configured session
  lifetime in nanoseconds, the version the build sets, and the files embedded in the binary.
\<close>

record senv = env +
  SessionTTL :: int
  Version :: string
  Assets :: "string \<Rightarrow> string option"

record server = "doc db" +
  Vault :: vault
  attempts :: int
  window :: time
  draws :: nat
  ticks :: nat
  identity :: string
  apath :: string

type_synonym 'a handler = "(server, 'a) proc"

lemma after_stmt_fields [simp]:
  fixes w :: server
  shows "Vault (after_stmt w) = Vault w" "attempts (after_stmt w) = attempts w"
    "window (after_stmt w) = window w" "draws (after_stmt w) = draws w"
    "ticks (after_stmt w) = ticks w" "identity (after_stmt w) = identity w"
    "apath (after_stmt w) = apath w"
  by (simp_all add: after_stmt_def)

lemma after_stmt_update [simp]:
  fixes w :: server
  shows "after_stmt (w\<lparr>Vault := k\<rparr>) = (after_stmt w)\<lparr>Vault := k\<rparr>"
    "after_stmt (w\<lparr>draws := i\<rparr>) = (after_stmt w)\<lparr>draws := i\<rparr>"
    "after_stmt (w\<lparr>ticks := i\<rparr>) = (after_stmt w)\<lparr>ticks := i\<rparr>"
    "after_stmt (w\<lparr>identity := x\<rparr>) = (after_stmt w)\<lparr>identity := x\<rparr>"
    "after_stmt (w\<lparr>apath := x\<rparr>) = (after_stmt w)\<lparr>apath := x\<rparr>"
  by (simp_all add: after_stmt_def)

text \<open>Calls into the security package run on the vault and the random source.\<close>

definition with_draws :: "(nat, 'a) proc \<Rightarrow> 'a handler" where
  "with_draws m = (\<lambda>w. case m (draws w) of (r, i) \<Rightarrow> (r, w\<lparr>draws := i\<rparr>))"

definition with_vault :: "(vault, 'a) proc \<Rightarrow> 'a handler" where
  "with_vault m = (\<lambda>w. case m (Vault w) of (r, k) \<Rightarrow> (r, w\<lparr>Vault := k\<rparr>))"

text \<open>\<open>time.Now()\<close>.\<close>

definition now :: "senv \<Rightarrow> time handler" where
  "now E = (\<lambda>w. (Inr (clock E (ticks w)), w\<lparr>ticks := Suc (ticks w)\<rparr>))"

definition fresh_token :: "senv \<Rightarrow> string handler" where
  "fresh_token E = with_draws (Token E)"

definition set_identity :: "string \<Rightarrow> unit handler" where
  "set_identity x = modify (\<lambda>w. w\<lparr>identity := x\<rparr>)"

definition set_path :: "string \<Rightarrow> unit handler" where
  "set_path x = modify (\<lambda>w. w\<lparr>apath := x\<rparr>)"

text \<open>\<open>t.Get\<close> into a variable of one of the record types.\<close>

definition get_as :: "(doc \<Rightarrow> err + 'a) \<Rightarrow> string \<Rightarrow> string \<Rightarrow> 'a handler" where
  "get_as as kd i = andthen (tx_Get kd i) (\<lambda>d. lift (as d))"

text \<open>\<open>t.List\<close> and the loop that unmarshals every row.\<close>

definition list_as :: "(doc \<Rightarrow> err + 'a) \<Rightarrow> string \<Rightarrow> 'a list handler" where
  "list_as as kd = andthen (tx_List kd) (\<lambda>ds. lift (collect as ds))"

lemma wpre_with_draws [wp]:
  "wpre (with_draws m) Q w \<longleftrightarrow> wpre m (\<lambda>r i. Q r (w\<lparr>draws := i\<rparr>)) (draws w)"
  by (simp add: wpre_def with_draws_def split: prod.split)

lemma wpre_with_vault [wp]:
  "wpre (with_vault m) Q w \<longleftrightarrow> wpre m (\<lambda>r k. Q r (w\<lparr>Vault := k\<rparr>)) (Vault w)"
  by (simp add: wpre_def with_vault_def split: prod.split)

lemma wpre_now [wp]:
  "wpre (now E) Q w \<longleftrightarrow> Q (Inr (clock E (ticks w))) (w\<lparr>ticks := Suc (ticks w)\<rparr>)"
  by (simp add: wpre_def now_def)

lemma wpre_fresh_token [wp]:
  "wpre (fresh_token E) Q w \<longleftrightarrow> Q (Inr (token_at E (draws w))) (w\<lparr>draws := Suc (draws w)\<rparr>)"
  by (simp add: fresh_token_def wp)

lemma wpre_set_identity [wp]: "wpre (set_identity x) Q w \<longleftrightarrow> Q (Inr ()) (w\<lparr>identity := x\<rparr>)"
  by (simp add: set_identity_def wp)

lemma wpre_set_path [wp]: "wpre (set_path x) Q w \<longleftrightarrow> Q (Inr ()) (w\<lparr>apath := x\<rparr>)"
  by (simp add: set_path_def wp)

lemma wpre_get_as [wp]:
  "wpre (get_as as kd i) Q w \<longleftrightarrow>
     (if faulty w then Q (Inl driver_error) (after_stmt w)
      else case map_of (rows w) (Key kd i) of
        None \<Rightarrow> Q (Inl ErrNotFound) (after_stmt w)
      | Some d \<Rightarrow> Q (as d) (after_stmt w))"
  by (simp add: get_as_def wp split: option.split)

lemma wpre_list_as [wp]:
  "wpre (list_as as kd) Q w \<longleftrightarrow>
     (if faulty w then Q (Inl driver_error) (after_stmt w)
      else Q (collect as (map snd (sql_kind kd (rows w)))) (after_stmt w))"
  by (simp add: list_as_def wp)

lemma get_as_run [runs]:
  "faults w = [] \<Longrightarrow> get_as as kd i w =
     ((case map_of (rows w) (Key kd i) of None \<Rightarrow> Inl ErrNotFound | Some d \<Rightarrow> as d), w)"
  by (simp add: get_as_def andthen_def runs lift_def split: option.split)

lemma list_as_run [runs]:
  "faults w = [] \<Longrightarrow> list_as as kd w = (collect as (map snd (sql_kind kd (rows w))), w)"
  by (simp add: list_as_def andthen_def runs lift_def)

lemma effect_run [runs]:
  "now E w = (Inr (clock E (ticks w)), w\<lparr>ticks := Suc (ticks w)\<rparr>)"
  "fresh_token E w = (Inr (token_at E (draws w)), w\<lparr>draws := Suc (draws w)\<rparr>)"
  "set_identity x w = (Inr (), w\<lparr>identity := x\<rparr>)"
  "set_path x w = (Inr (), w\<lparr>apath := x\<rparr>)"
  by (simp_all add: now_def fresh_token_def with_draws_def Token_at set_identity_def set_path_def modify_def)

text \<open>
  The operations in a run that ended without an error: the state afterwards by its fields,
  so that a chain of steps stays a chain of small equations.
\<close>

definition same_fields :: "server \<Rightarrow> server \<Rightarrow> bool" where
  "same_fields w w' \<longleftrightarrow> draws w' = draws w \<and> ticks w' = ticks w \<and> Vault w' = Vault w \<and>
     identity w' = identity w \<and> apath w' = apath w"

lemma did_tx:
  "tx_Put kd i d w = (Inr v, w') \<Longrightarrow> rows w' = row_put (Key kd i) d (rows w) \<and> same_fields w w'"
  "tx_Delete kd i w = (Inr u, w') \<Longrightarrow> rows w' = sql_delete (Key kd i) (rows w) \<and> same_fields w w'"
  "tx_List kd w = (Inr ds, w') \<Longrightarrow>
     ds = map snd (sql_kind kd (rows w)) \<and> rows w' = rows w \<and> same_fields w w'"
  by (auto simp: tx_Put_def tx_Delete_def tx_List_def stmt_def did row_put_def same_fields_def
      split: if_splits)

lemma did_get:
  "get_as as kd i w = (Inr x, w') \<Longrightarrow>
     (\<exists>d. map_of (rows w) (Key kd i) = Some d \<and> as d = Inr x) \<and> rows w' = rows w \<and> same_fields w w'"
  by (auto simp: get_as_def tx_Get_def stmt_def did same_fields_def split: if_splits
      intro: exI [of _ "the (map_of (rows w) (Key kd i))"] dest!: sym [of "Some _"])

lemma did_get_missing:
  "get_as as kd i w = (Inl e, w') \<Longrightarrow> rows w' = rows w \<and> same_fields w w'"
  by (auto simp: get_as_def tx_Get_def andthen_def stmt_def gets_def lift_def ret_def throw_def
      same_fields_def split: if_splits option.splits)

lemma did_effects:
  "now E w = (Inr t, w') \<Longrightarrow> t = clock E (ticks w) \<and> rows w' = rows w \<and> ticks w' = Suc (ticks w) \<and>
     draws w' = draws w \<and> Vault w' = Vault w"
  "fresh_token E w = (Inr k, w') \<Longrightarrow> k = token_at E (draws w) \<and> rows w' = rows w \<and>
     draws w' = Suc (draws w) \<and> ticks w' = ticks w \<and> Vault w' = Vault w"
  "set_identity x w = (Inr u, w') \<Longrightarrow> rows w' = rows w \<and> draws w' = draws w \<and> ticks w' = ticks w \<and>
     Vault w' = Vault w"
  "set_path x w = (Inr u, w') \<Longrightarrow> rows w' = rows w \<and> draws w' = draws w \<and> ticks w' = ticks w \<and>
     Vault w' = Vault w"
  by (auto simp: effect_run)

lemmas did_steps = did_tx did_get did_get_missing did_effects

section \<open>Answers\<close>

text \<open>
  The values the handlers hand to the JSON encoder, one constructor per shape of answer. A
  record whose hash or ciphertext was emptied encodes without that member.
\<close>

datatype reply =
    RSession session
  | REnrolled string string
  | ROk bool
  | RLockedIs bool
  | RStatus string bool
  | RSecret secret
  | RSecrets "secret list"
  | RValue string string int64 time time
  | RAgent agent
  | RAgents "agent list"
  | REnrollments "enrollment list"
  | RNewEnrollment string string string time
  | RNames "string list"
  | RRows "doc list"
  | RAuditDownload
  | RWriter write_credential
  | RWriters "write_credential list"
  | RNewWriter write_credential string

text \<open>\<open>http.Cookie\<close>; an expiry of 0 is the zero time, which the header leaves out.\<close>

record set_cookie =
  ck_Name :: string
  ck_Value :: string
  ck_Path :: string
  ck_Secure :: bool
  ck_HttpOnly :: bool
  ck_SameSite :: string
  ck_Expires :: time
  ck_MaxAge :: int

type_synonym answer = "reply \<times> int \<times> set_cookie option"

definition ok :: "reply \<Rightarrow> answer handler" where
  "ok v = ret (v, 200, None)"

lemma wpre_ok [wp]: "wpre (ok v) Q w \<longleftrightarrow> Q (Inr (v, 200, None)) w"
  by (simp add: ok_def wp)

lemma did_ok [did]: "ok v w = (Inr x, w') \<longleftrightarrow> x = (v, 200, None) \<and> w' = w"
  by (auto simp: ok_def did)

section \<open>Relations on the records\<close>

text \<open>
  A relation that holds whenever the records stay the same: reading, the clock, the random
  source, the vault and the two variables of a request never break it, and a transaction
  that rolls back restores it.
\<close>

locale row_relation = step_relation R for R :: "server \<Rightarrow> server \<Rightarrow> bool" +
  assumes R_rows: "rows w' = rows w \<Longrightarrow> R w w'"
begin

lemma steps_now: "steps R (now E)"
  by (rule stepsI) (simp add: wp R_rows)

lemma steps_fresh_token: "steps R (fresh_token E)"
  by (rule stepsI) (simp add: wp R_rows)

lemma steps_set_identity: "steps R (set_identity x)"
  by (rule stepsI) (simp add: wp R_rows)

lemma steps_set_path: "steps R (set_path x)"
  by (rule stepsI) (simp add: wp R_rows)

lemma steps_with_draws: "steps R (with_draws m)"
  by (rule stepsI) (simp add: wpre_def with_draws_def R_rows split: prod.split)

lemma steps_with_vault: "steps R (with_vault m)"
  by (rule stepsI) (simp add: wpre_def with_vault_def R_rows split: prod.split)

lemma steps_get_as: "steps R (get_as as kd i)"
  by (rule stepsI) (simp add: wp R_rows split: option.split)

lemma steps_list_as: "steps R (list_as as kd)"
  by (rule stepsI) (simp add: wp R_rows)

lemma steps_tx_List: "steps R (tx_List kd)"
  by (rule stepsI) (simp add: wp R_rows)

lemma steps_ok: "steps R (ok v)"
  by (simp add: ok_def steps_ret)

text \<open>A put or a delete keeps the relation if its effect on the rows does.\<close>

lemma steps_tx_Put:
  assumes "\<And>w w'. rows w' = row_put (Key kd i) d (rows w) \<Longrightarrow> R w w'"
  shows "steps R (tx_Put kd i d)"
  by (rule stepsI) (simp add: wp R_rows assms)

lemma steps_tx_Delete:
  assumes "\<And>w w'. rows w' = sql_delete (Key kd i) (rows w) \<Longrightarrow> R w w'"
  shows "steps R (tx_Delete kd i)"
  by (rule stepsI) (simp add: wp R_rows assms)

lemma steps_Update:
  assumes "steps R fn"
  shows "steps R (Update fn)"
proof (rule stepsI, rule wpreI)
  fix w r w' assume run: "Update fn w = (r, w')"
  show "R w w'"
  proof (cases r)
    case (Inl e)
    with run show ?thesis by (auto intro: R_rows dest: Update_Inl)
  next
    case (Inr v)
    with run obtain w1 where fn: "fn (after_stmt (after_stmt w)) = (Inr v, w1)" and w': "w' = after_stmt w1"
      by (auto dest: Update_Inr)
    have "R w (after_stmt (after_stmt w))" by (rule R_rows) simp
    moreover have "R (after_stmt (after_stmt w)) w1" by (rule stepsD [OF assms fn])
    moreover have "R w1 w'" by (rule R_rows) (simp add: w')
    ultimately show ?thesis by (blast intro: R_trans)
  qed
qed

lemmas steps_effects = steps_now steps_fresh_token steps_set_identity steps_set_path
  steps_with_draws steps_with_vault steps_get_as steps_list_as steps_tx_List steps_ok steps_Update

end

text \<open>Records of other kinds than \<open>K\<close> stay as they are.\<close>

definition same_outside :: "string set \<Rightarrow> server \<Rightarrow> server \<Rightarrow> bool" where
  "same_outside K w w' \<longleftrightarrow>
     (\<forall>kd i. kd \<notin> K \<longrightarrow> map_of (rows w') (Key kd i) = map_of (rows w) (Key kd i))"

interpretation frame: row_relation "same_outside K" for K
  by unfold_locales (auto simp: same_outside_def)

lemmas frame_steps [steps] = frame.steps_pure frame.steps_combine frame.steps_effects

lemma frame_Put [steps]: "kd \<in> K \<Longrightarrow> steps (same_outside K) (tx_Put kd i d)"
  by (rule frame.steps_tx_Put) (auto simp: same_outside_def row_simps)

lemma frame_Delete [steps]: "kd \<in> K \<Longrightarrow> steps (same_outside K) (tx_Delete kd i)"
  by (rule frame.steps_tx_Delete) (auto simp: same_outside_def row_simps)

lemma frame_weaken: "steps (same_outside K) m \<Longrightarrow> K \<subseteq> L \<Longrightarrow> steps (same_outside L) m"
  by (auto simp: steps_def wpre_def same_outside_def)

text \<open>One record stays as it is.\<close>

interpretation row_kept: row_relation "\<lambda>w w'. map_of (rows w') k = map_of (rows w) k" for k
  by unfold_locales auto

lemmas row_steps [steps] = row_kept.steps_effects

lemma row_Put [steps]:
  "k \<noteq> Key kd i \<Longrightarrow> steps (\<lambda>w w'. map_of (rows w') k = map_of (rows w) k) (tx_Put kd i d :: unit handler)"
  by (rule row_kept.steps_tx_Put) (simp add: row_simps)

lemma row_Delete [steps]:
  "k \<noteq> Key kd i \<Longrightarrow> steps (\<lambda>w w'. map_of (rows w') k = map_of (rows w) k) (tx_Delete kd i :: unit handler)"
  by (rule row_kept.steps_tx_Delete) (simp add: row_simps)

text \<open>The primary key stays unique.\<close>

interpretation pk_kept: row_relation "\<lambda>w w'. pk (rows w) \<longrightarrow> pk (rows w')"
  by unfold_locales auto

lemmas pk_steps [steps] = pk_kept.steps_effects

lemma pk_Put [steps]: "steps (\<lambda>w w'. pk (rows w) \<longrightarrow> pk (rows w')) (tx_Put kd i d :: unit handler)"
  by (rule pk_kept.steps_tx_Put) (simp add: pk_intros)

lemma pk_Delete [steps]: "steps (\<lambda>w w'. pk (rows w) \<longrightarrow> pk (rows w')) (tx_Delete kd i :: unit handler)"
  by (rule pk_kept.steps_tx_Delete) (simp add: pk_intros)

section \<open>Concrete environment, state and requests for the witnesses\<close>

definition demo_senv :: senv where
  "demo_senv = env.extend demo_env \<lparr>SessionTTL = 3600 * second_ns, Version = ''1.0.0'',
     Assets = map_of [(''web/index.html'', ''v{{VERSION}}'')]\<rparr>"

definition demo_state :: "doc table \<Rightarrow> server" where
  "demo_state rs =
     \<lparr>rows = rs, faults = [], Vault = replicate 32 CHR ''k'', attempts = 0, window = 0,
      draws = 0, ticks = 0, identity = ''anonymous'', apath = []\<rparr>"

definition demo_request :: "string \<Rightarrow> string \<Rightarrow> string \<Rightarrow> request" where
  "demo_request meth path body =
     \<lparr>Method = meth, UrlPath = path, UsesTLS = True, HostName = ''ssm'',
      Headers = [(''Authorization'', ''Bearer t''), (''X-CSRF-Token'', ''c'')],
      Cookies = [(''ssm_session'', ''t'')], RemoteAddr = ''10.0.0.1:4000'', Body = body\<rparr>"

text \<open>The body with these string members.\<close>

fun demo_members :: "(string \<times> string) list \<Rightarrow> string" where
  "demo_members [] = []"
| "demo_members ((k, v) # kvs) =
     [CHR 0x22] @ k @ [CHR 0x22] @ '':'' @ [CHR 0x22] @ v @ [CHR 0x22] @
     (if kvs = [] then [] else '','' @ demo_members kvs)"

definition demo_object :: "(string \<times> string) list \<Rightarrow> string" where
  "demo_object kvs = [CHR 0x7B] @ demo_members kvs @ [CHR 0x7D]"

lemma demo_request_simps [simp]:
  "Method (demo_request m p b) = m" "UrlPath (demo_request m p b) = p" "Body (demo_request m p b) = b"
  by (simp_all add: demo_request_def)

lemma demo_state_simps [simp]:
  "rows (demo_state rs) = rs" "faults (demo_state rs) = []" "draws (demo_state rs) = 0"
  "ticks (demo_state rs) = 0" "attempts (demo_state rs) = 0" "window (demo_state rs) = 0"
  by (simp_all add: demo_state_def)

lemma demo_senv_gcm: "gcm_law demo_senv"
  using demo_gcm_law by (simp add: gcm_law_def demo_senv_def env.defs)

lemma demo_senv_scrypt: "scrypt_law demo_senv"
  using demo_scrypt_law by (simp add: scrypt_law_def demo_senv_def env.defs)

lemma demo_senv_vault: "vault_usable demo_senv (Vault (demo_state rs))"
  by (simp add: vault_usable_def demo_senv_gcm demo_state_def aes_key_ok_def)

end
