(* ===== verification/Secrets.thy ===== *)
theory Secrets
  imports Service Paths
begin

text \<open>
  Reading, creating, updating and deleting one secret (internal/server/secrets.go), and the
  abstract store of values and revisions the handler implements.
\<close>

section \<open>The handler\<close>

definition value_struct :: "string \<Rightarrow> json \<Rightarrow> string option \<Rightarrow> string option option" where
  "value_struct = field ''value'' (set_pointer set_string []) (\<lambda>x. x) (\<lambda>v x. v) no_field"

definition method_not_allowed :: err where
  "method_not_allowed = ApiError 405 ''method not allowed''"

definition secret_read :: "senv \<Rightarrow> string \<Rightarrow> bool \<Rightarrow> secret \<Rightarrow> bool \<Rightarrow> reply handler" where
  "secret_read E p exists rcd metadata =
     (if \<not> exists then throw ErrNotFound
      else if metadata then ret (RSecret (rcd\<lparr>sec_Ciphertext := []\<rparr>))
      else andthen (gets Vault) (\<lambda>key.
        andthen (lift (Decrypt E key p (sec_Ciphertext rcd))) (\<lambda>value.
        ret (RValue value p (sec_Revision rcd) (sec_Created rcd) (sec_Updated rcd)))))"

definition secret_write :: "senv \<Rightarrow> request \<Rightarrow> string \<Rightarrow> bool \<Rightarrow> secret \<Rightarrow> reply handler" where
  "secret_write E r p exists rcd =
     (if Method r = ''POST'' \<and> exists then throw (ApiError 409 ''secret already exists'')
      else if Method r = ''PUT'' \<and> \<not> exists then throw ErrNotFound
      else andthen (lift (decode r value_struct None)) (\<lambda>value. case value of
        None \<Rightarrow> throw (bad ''value is required'')
      | Some value \<Rightarrow>
          andthen (gets Vault) (\<lambda>key.
          andthen (if exists
                   then andthen (lift (Decrypt E key p (sec_Ciphertext rcd))) (\<lambda>old. ret (old \<noteq> value))
                   else ret True) (\<lambda>changed.
          andthen (if changed
                   then andthen (with_draws (Encrypt E key p value)) (\<lambda>encrypted.
                     andthen (now E) (\<lambda>t.
                     let rcd = rcd\<lparr>
                           sec_Created := if sec_Created rcd = 0 then t else sec_Created rcd,
                           sec_Path := p, sec_Revision := sec_Revision rcd + 1, sec_Updated := t,
                           sec_Ciphertext := encrypted, sec_Algorithm := ''AES-256-GCM'',
                           sec_Deleted := False\<rparr>
                     in andthen (tx_Put ''secrets'' p (DSecret rcd)) (\<lambda>_. ret rcd)))
                   else ret rcd) (\<lambda>rcd.
          ret (RSecret (rcd\<lparr>sec_Ciphertext := []\<rparr>)))))))"

definition secret_delete :: "senv \<Rightarrow> string \<Rightarrow> bool \<Rightarrow> secret \<Rightarrow> reply handler" where
  "secret_delete E p exists rcd =
     (if \<not> exists then throw ErrNotFound
      else andthen (now E) (\<lambda>t.
        andthen (tx_Put ''secrets'' p
          (DSecret (rcd\<lparr>sec_Deleted := True, sec_Ciphertext := [], sec_Updated := t\<rparr>))) (\<lambda>_.
        ret (ROk True))))"

text \<open>The switch on the method, once it is known whether the path has a live secret.\<close>

definition secret_switch :: "senv \<Rightarrow> request \<Rightarrow> string \<Rightarrow> bool \<Rightarrow> bool \<Rightarrow> secret \<Rightarrow> reply handler" where
  "secret_switch E r p metadata exists rcd =
     (if Method r = ''GET'' then secret_read E p exists rcd metadata
      else if Method r = ''POST'' \<or> Method r = ''PUT'' then secret_write E r p exists rcd
      else if Method r = ''DELETE'' then secret_delete E p exists rcd
      else throw method_not_allowed)"

definition secret_handler :: "senv \<Rightarrow> request \<Rightarrow> string \<Rightarrow> bool \<Rightarrow> reply handler" where
  "secret_handler E r path metadata =
     andthen (on_error (lift (Normalize path)) (\<lambda>e. bad (Error e))) (\<lambda>p.
     andthen (gets Vault) (\<lambda>key.
       if Locked key then throw ErrLocked
       else andthen (attempt (get_as as_secret ''secrets'' p)) (\<lambda>got.
         case got of
           Inl e \<Rightarrow> if e \<noteq> ErrNotFound then throw e else secret_switch E r p metadata False zero_secret
         | Inr rcd \<Rightarrow> secret_switch E r p metadata (\<not> sec_Deleted rcd) rcd)))"

section \<open>The store it implements\<close>

text \<open>
  Abstractly a path is unused, or holds a live value with its revision and times, or is a
  tombstone that remembers the last revision and the creation time. The specification reads
  no ciphertext and no vault; its time is the clock's, its body the decoded request.
\<close>

datatype entry = Live string int64 time time | Gone int64 time

datatype result = Got string string int64 time time | Meta int64 time time | Done | Refused err

definition spec_put :: "string \<Rightarrow> err + string option \<Rightarrow> time \<Rightarrow> int64 \<Rightarrow> time \<Rightarrow> (string \<rightharpoonup> entry)
    \<Rightarrow> result \<times> (string \<rightharpoonup> entry)" where
  "spec_put p body t n c A =
     (case body of
        Inl e \<Rightarrow> (Refused e, A)
      | Inr None \<Rightarrow> (Refused (bad ''value is required''), A)
      | Inr (Some v) \<Rightarrow>
          (let c' = if c = 0 then t else c
           in (Meta (n + 1) c' t, A(p \<mapsto> Live v (n + 1) c' t))))"

definition spec_secret :: "string \<Rightarrow> bool \<Rightarrow> string \<Rightarrow> err + string option \<Rightarrow> time \<Rightarrow> (string \<rightharpoonup> entry)
    \<Rightarrow> result \<times> (string \<rightharpoonup> entry)" where
  "spec_secret meth metadata p body t A =
     (if meth = ''GET'' then
        (case A p of
           Some (Live v n c u) \<Rightarrow> (if metadata then Meta n c u else Got p v n c u, A)
         | _ \<Rightarrow> (Refused ErrNotFound, A))
      else if meth = ''POST'' then
        (case A p of
           Some (Live v n c u) \<Rightarrow> (Refused (ApiError 409 ''secret already exists''), A)
         | Some (Gone n c) \<Rightarrow> spec_put p body t n c A
         | None \<Rightarrow> spec_put p body t 0 0 A)
      else if meth = ''PUT'' then
        (case A p of
           Some (Live v n c u) \<Rightarrow>
             if body = Inr (Some v) then (Meta n c u, A) else spec_put p body t n c A
         | _ \<Rightarrow> (Refused ErrNotFound, A))
      else if meth = ''DELETE'' then
        (case A p of
           Some (Live v n c u) \<Rightarrow> (Done, A(p \<mapsto> Gone n c))
         | _ \<Rightarrow> (Refused ErrNotFound, A))
      else (Refused method_not_allowed, A))"

definition result_of :: "err + reply \<Rightarrow> result" where
  "result_of x = (case x of
      Inl e \<Rightarrow> Refused e
    | Inr (RValue v p n c u) \<Rightarrow> Got p v n c u
    | Inr (RSecret s) \<Rightarrow> Meta (sec_Revision s) (sec_Created s) (sec_Updated s)
    | Inr _ \<Rightarrow> Done)"

text \<open>The abstraction of a table under a vault key, and when every live secret can be read.\<close>

definition entry_of :: "senv \<Rightarrow> vault \<Rightarrow> string \<Rightarrow> secret \<Rightarrow> entry option" where
  "entry_of E key p s =
     (if sec_Deleted s then Some (Gone (sec_Revision s) (sec_Created s))
      else (case Decrypt E key p (sec_Ciphertext s) of
              Inl _ \<Rightarrow> None
            | Inr v \<Rightarrow> Some (Live v (sec_Revision s) (sec_Created s) (sec_Updated s))))"

definition secrets_of :: "senv \<Rightarrow> vault \<Rightarrow> doc table \<Rightarrow> string \<rightharpoonup> entry" where
  "secrets_of E key rs p =
     (case map_of rs (Key ''secrets'' p) of Some (DSecret s) \<Rightarrow> entry_of E key p s | _ \<Rightarrow> None)"

definition readable :: "senv \<Rightarrow> vault \<Rightarrow> doc table \<Rightarrow> bool" where
  "readable E key rs \<longleftrightarrow>
     (\<forall>p d. map_of rs (Key ''secrets'' p) = Some d \<longrightarrow> (\<exists>s. d = DSecret s \<and> entry_of E key p s \<noteq> None))"

lemma secrets_of_put:
  "secrets_of E key (row_put (Key ''secrets'' p) (DSecret s) rs) =
     (secrets_of E key rs)(p := entry_of E key p s)"
  by (simp add: secrets_of_def row_simps fun_eq_iff)

lemma readable_put:
  "readable E key rs \<Longrightarrow> entry_of E key p s \<noteq> None \<Longrightarrow>
     readable E key (row_put (Key ''secrets'' p) (DSecret s) rs)"
  by (auto simp: readable_def row_simps)

lemma readable_cases:
  assumes "readable E key rs"
  obtains (unused) "map_of rs (Key ''secrets'' p) = None" "secrets_of E key rs p = None"
  | (live) s v where "map_of rs (Key ''secrets'' p) = Some (DSecret s)" "\<not> sec_Deleted s"
      "Decrypt E key p (sec_Ciphertext s) = Inr v"
      "secrets_of E key rs p = Some (Live v (sec_Revision s) (sec_Created s) (sec_Updated s))"
  | (gone) s where "map_of rs (Key ''secrets'' p) = Some (DSecret s)" "sec_Deleted s"
      "secrets_of E key rs p = Some (Gone (sec_Revision s) (sec_Created s))"
proof (cases "map_of rs (Key ''secrets'' p)")
  case None
  then show ?thesis by (intro unused) (simp_all add: secrets_of_def)
next
  case (Some d)
  with assms obtain s where s: "d = DSecret s" "entry_of E key p s \<noteq> None"
    unfolding readable_def by blast
  show ?thesis
  proof (cases "sec_Deleted s")
    case True
    with Some s show ?thesis by (intro gone) (simp_all add: secrets_of_def entry_of_def)
  next
    case False
    with s obtain v where "Decrypt E key p (sec_Ciphertext s) = Inr v"
      by (auto simp: entry_of_def split: sum.splits)
    with False Some s show ?thesis by (intro live) (simp_all add: secrets_of_def entry_of_def)
  qed
qed

lemma usable_not_Locked: "vault_usable E key \<Longrightarrow> \<not> Locked key"
  by (auto simp: vault_usable_def Locked_def aes_key_ok_def)

text \<open>The parts of the handler against the parts of the specification.\<close>

lemma secret_put_refines:
  assumes usable: "vault_usable E (Vault w)" and "faults w = []" and read: "readable E (Vault w) (rows w)"
    and meth: "Method r = ''POST'' \<and> \<not> exists \<or> Method r = ''PUT'' \<and> exists"
    and old: "exists \<Longrightarrow> Decrypt E (Vault w) p (sec_Ciphertext rcd) = Inr v"
    and A: "A = secrets_of E (Vault w) (rows w)"
  shows "wpre (secret_write E r p exists rcd) (\<lambda>x w'.
     (result_of x, secrets_of E (Vault w') (rows w')) =
       (if exists \<and> decode r value_struct None = Inr (Some v)
        then (Meta (sec_Revision rcd) (sec_Created rcd) (sec_Updated rcd), A)
        else spec_put p (decode r value_struct None) (clock E (ticks w)) (sec_Revision rcd)
               (sec_Created rcd) A) \<and>
     readable E (Vault w') (rows w') \<and> faults w' = [] \<and> Vault w' = Vault w) w"
proof (cases "decode r value_struct None")
  case (Inl e)
  with assms show ?thesis
    by (auto simp: secret_write_def spec_put_def result_of_def wp)
next
  case (Inr body)
  show ?thesis
  proof (cases body)
    case None
    with Inr assms show ?thesis
      by (auto simp: secret_write_def spec_put_def result_of_def wp)
  next
    case (Some x)
    obtain b where "Encrypt E (Vault w) p x (draws w) = (Inr b, Suc (draws w))"
      using Encrypt_usable [OF usable] by blast
    then have b: "Decrypt E (Vault w) p b = Inr x"
      and enc: "wpre (Encrypt E (Vault w) p x) Q (draws w) \<longleftrightarrow> Q (Inr b) (Suc (draws w))" for Q
      by (auto intro: Decrypt_Encrypt [OF usable] simp: wpre_run)
    show ?thesis
      using assms
      by (auto simp: Inr Some b enc secret_write_def spec_put_def result_of_def wp Let_def
          secrets_of_put entry_of_def intro!: readable_put)
  qed
qed

lemma secret_handler_run:
  assumes "Normalize path = Inr p" and "\<not> Locked (Vault w)" and "faults w = []"
  shows "map_of (rows w) (Key ''secrets'' p) = None \<Longrightarrow>
      wpre (secret_handler E r path metadata) Q w \<longleftrightarrow>
      wpre (secret_switch E r p metadata False zero_secret) Q w"
    and "map_of (rows w) (Key ''secrets'' p) = Some (DSecret s) \<Longrightarrow>
      wpre (secret_handler E r path metadata) Q w \<longleftrightarrow>
      wpre (secret_switch E r p metadata (\<not> sec_Deleted s) s) Q w"
  using assms by (simp_all add: secret_handler_def wp)

lemma secret_frame [steps]: "steps (same_outside {''secrets''}) (secret_handler E r path metadata)"
  unfolding secret_handler_def secret_switch_def secret_read_def secret_write_def secret_delete_def
  by (intro steps) simp_all

lemma secret_pk [steps]:
  "steps (\<lambda>w w'. pk (rows w) \<longrightarrow> pk (rows w')) (secret_handler E r path metadata)"
  unfolding secret_handler_def secret_switch_def secret_read_def secret_write_def secret_delete_def
  by (intro steps)

section \<open>How the record of a secret evolves\<close>

text \<open>
  What one request may do to the record of a path: nothing; create it with revision 1; store
  a new value under the next revision; or turn a live record into a tombstone that keeps the
  revision and drops the ciphertext. A known creation time never changes.
\<close>

definition evolves :: "doc option \<Rightarrow> doc option \<Rightarrow> bool" where
  "evolves before after \<longleftrightarrow>
     after = before \<or>
     (\<exists>s'. after = Some (DSecret s') \<and>
        (case before of
           None \<Rightarrow> sec_Revision s' = 1 \<and> \<not> sec_Deleted s'
         | Some (DSecret s) \<Rightarrow>
             (if sec_Deleted s'
              then \<not> sec_Deleted s \<and> sec_Revision s' = sec_Revision s \<and> sec_Ciphertext s' = []
              else sec_Revision s' = sec_Revision s + 1) \<and>
             (sec_Created s = 0 \<or> sec_Created s' = sec_Created s)
         | Some _ \<Rightarrow> False))"

abbreviation secret_row :: "server \<Rightarrow> string \<Rightarrow> doc option" where
  "secret_row w p \<equiv> map_of (rows w) (Key ''secrets'' p)"

lemma evolves_refl [simp]: "evolves d d"
  by (simp add: evolves_def)

lemma wpre_Encrypt_any:
  "(\<And>r j. Q r j) \<Longrightarrow> wpre (Encrypt E key p v) Q i"
  by (simp add: wpre_def)

text \<open>The record the switch works on is the one it loaded.\<close>

definition loaded :: "server \<Rightarrow> string \<Rightarrow> bool \<Rightarrow> secret \<Rightarrow> bool" where
  "loaded w p exists rcd \<longleftrightarrow>
     secret_row w p = None \<and> rcd = zero_secret \<and> \<not> exists \<or>
     secret_row w p = Some (DSecret rcd) \<and> (exists \<longleftrightarrow> \<not> sec_Deleted rcd)"

lemma secret_write_evolves:
  assumes "loaded w p exists rcd"
  shows "wpre (secret_write E r p exists rcd) (\<lambda>x w'. evolves (secret_row w q) (secret_row w' q)) w"
proof -
  have put: "evolves (secret_row w p) (Some (DSecret s))"
    if "sec_Revision s = sec_Revision rcd + 1" "\<not> sec_Deleted s"
      "sec_Created rcd = 0 \<or> sec_Created s = sec_Created rcd" for s
    using assms that by (auto simp: loaded_def evolves_def zero_secret_def)
  show ?thesis
    by (simp add: secret_write_def wp Let_def row_simps put split: sum.split option.split)
       (auto intro!: wpre_Encrypt_any simp: put split: sum.split)
qed

lemma secret_delete_evolves:
  assumes "loaded w p exists rcd"
  shows "wpre (secret_delete E p exists rcd) (\<lambda>x w'. evolves (secret_row w q) (secret_row w' q)) w"
  using assms by (auto simp: secret_delete_def wp row_simps loaded_def evolves_def)

lemma secret_switch_evolves:
  assumes "loaded w p exists rcd"
  shows "wpre (secret_switch E r p metadata exists rcd)
     (\<lambda>x w'. evolves (secret_row w q) (secret_row w' q)) w"
  using secret_write_evolves [OF assms] secret_delete_evolves [OF assms]
  by (simp add: secret_switch_def secret_read_def wp split: sum.split)

lemma secret_handler_evolves:
  "wpre (secret_handler E r path metadata) (\<lambda>x w'. evolves (secret_row w q) (secret_row w' q)) w"
proof (cases "Normalize path")
  case (Inr p)
  have "wpre (secret_switch E r p metadata exists s)
      (\<lambda>x w'. evolves (secret_row w q) (secret_row w' q)) (after_stmt w)"
    if "loaded w p exists s" for exists s
    using secret_switch_evolves [of "after_stmt w" p exists s] that by (simp add: loaded_def)
  then show ?thesis
    by (auto simp: Inr secret_handler_def wp loaded_def split: option.split sum.split)
qed (simp add: secret_handler_def wp)

text \<open>Only the record of the requested path can change.\<close>

lemma secret_handler_elsewhere:
  assumes "Normalize path \<noteq> Inr q"
  shows "steps (\<lambda>w w'. secret_row w' q = secret_row w q) (secret_handler E r path metadata)"
proof (cases "Normalize path")
  case (Inl e)
  then show ?thesis by (simp add: secret_handler_def steps_def wp)
next
  case (Inr p)
  with assms have "Key ''secrets'' q \<noteq> Key ''secrets'' p" by simp
  moreover have "andthen (on_error (lift (Inr p)) h) f = f p" for h and f :: "string \<Rightarrow> reply handler"
    by (simp add: andthen_def on_error_def lift_def fun_eq_iff)
  ultimately show ?thesis
    unfolding secret_handler_def secret_switch_def secret_read_def secret_write_def secret_delete_def Inr
    by (simp only:) (intro steps)
qed

section \<open>Properties\<close>

text \<open>C2: The secret handler implements the abstract store: with a usable vault, no driver
  fault and every live secret readable, each method on each path answers what the
  specification answers (value, metadata, 404, 405, 409, 400), leaves the specification's
  store behind, and keeps every live secret readable.\<close>

theorem secret_refines_store:
  assumes usable: "vault_usable E (Vault w)" and ok: "faults w = []"
    and read: "readable E (Vault w) (rows w)" and p: "Normalize path = Inr p"
  shows "wpre (secret_handler E r path metadata) (\<lambda>x w'.
     (result_of x, secrets_of E (Vault w') (rows w')) =
       spec_secret (Method r) metadata p (decode r value_struct None) (clock E (ticks w))
         (secrets_of E (Vault w) (rows w)) \<and>
     readable E (Vault w') (rows w') \<and> faults w' = [] \<and> Vault w' = Vault w) w"
proof -
  let ?A = "secrets_of E (Vault w) (rows w)"
  note run = secret_handler_run [OF p usable_not_Locked [OF usable] ok]
  note put = secret_put_refines [OF usable ok read _ _ refl, where r = r and p = p]
  note parts = secret_switch_def secret_read_def secret_delete_def spec_secret_def result_of_def wp
  from read show ?thesis
  proof (cases rule: readable_cases [where p = p])
    case unused
    show ?thesis
      using unused ok read put [where ?exists = False and ?rcd = zero_secret]
      by (auto simp: run parts zero_secret_def secret_write_def)
  next
    case (live s v)
    show ?thesis
      using live ok read put [where ?exists = True and ?rcd = s and ?v = v]
      by (auto simp: run parts secret_write_def secrets_of_put entry_of_def intro!: readable_put)
  next
    case (gone s)
    show ?thesis
      using gone ok read put [where ?exists = False and ?rcd = s]
      by (auto simp: run parts secret_write_def)
  qed
qed


lemma demo_value_body:
  "decode (demo_request m p (demo_object [(''value'', ''v1'')])) value_struct None = Inr (Some ''v1'')"
proof -
  have "decode_bytes (demo_object [(''value'', ''v1'')]) value_struct None = Inr (Some ''v1'')"
    by code_simp
  then show ?thesis by (simp add: decode_short demo_object_def)
qed

lemma demo_path: "Normalize ''a/b'' = Inr ''a/b''"
  by code_simp

lemma demo_readable: "readable demo_senv key []"
  by (simp add: readable_def)

lemma secret_refines_store_witness:
  "wpre (secret_handler demo_senv (demo_request ''POST'' ''x'' (demo_object [(''value'', ''v1'')])) ''a/b'' False)
     (\<lambda>x w'. result_of x = Meta 1 1 1 \<and>
        secrets_of demo_senv (Vault w') (rows w') ''a/b'' = Some (Live ''v1'' 1 1 1)) (demo_state [])"
proof -
  have c: "clock demo_senv 0 = 1" by (simp add: demo_senv_def demo_env_def env.defs)
  have a: "secrets_of demo_senv k [] = (\<lambda>_. None)" for k
    by (simp add: secrets_of_def fun_eq_iff)
  show ?thesis
    using secret_refines_store [OF demo_senv_vault _ _ demo_path, of "[]"
        "demo_request ''POST'' ''x'' (demo_object [(''value'', ''v1'')])" False]
    by (auto simp: demo_readable demo_value_body spec_secret_def spec_put_def a c elim!: wpre_mono)
qed

text \<open>A value that was stored is the value that is read: after a successful POST or PUT
  of a value, a GET of the same path answers that value under the normalised path.\<close>

theorem write_then_read:
  assumes usable: "vault_usable E (Vault w)" and ok: "faults w = []"
    and read: "readable E (Vault w) (rows w)" and p: "Normalize path = Inr p"
    and wrote: "secret_handler E r path metadata w = (Inr x, w')"
    and meth: "Method r = ''POST'' \<or> Method r = ''PUT''"
    and body: "decode r value_struct None = Inr (Some v)" and get: "Method g = ''GET''"
  shows "\<exists>n c u. fst (secret_handler E g path False w') = Inr (RValue v p n c u)"
proof -
  let ?A = "secrets_of E (Vault w) (rows w)" and ?A' = "secrets_of E (Vault w') (rows w')"
  have after: "(result_of (Inr x), ?A') =
      spec_secret (Method r) metadata p (Inr (Some v)) (clock E (ticks w)) ?A"
    "readable E (Vault w') (rows w')" "faults w' = []" "Vault w' = Vault w"
    using wpreD [OF secret_refines_store [OF usable ok read p] wrote] unfolding body by blast+
  have "result_of (Inr x) \<noteq> Refused e" for e
    by (simp add: result_of_def split: reply.split)
  then obtain n c u where "?A' p = Some (Live v n c u)"
    using after(1) meth
    by (auto simp: spec_secret_def spec_put_def Let_def split: option.splits entry.splits if_splits)
  moreover have "vault_usable E (Vault w')" using usable after(4) by simp
  from secret_refines_store [OF this after(3,2) p, of g False]
  have "result_of (fst (secret_handler E g path False w')) =
      fst (spec_secret ''GET'' False p (decode g value_struct None) (clock E (ticks w')) ?A')"
    unfolding get by (simp add: wpre_def prod_eq_iff)
  ultimately have "result_of (fst (secret_handler E g path False w')) = Got p v n c u"
    by (simp add: spec_secret_def)
  then show ?thesis
    by (auto simp: result_of_def split: sum.splits reply.splits)
qed

lemma write_then_read_witness:
  "\<exists>x w'. secret_handler demo_senv (demo_request ''POST'' ''x'' (demo_object [(''value'', ''v1'')]))
       ''a/b'' False (demo_state []) = (Inr x, w') \<and>
     (\<exists>n c u. fst (secret_handler demo_senv (demo_request ''GET'' ''x'' []) ''a/b'' False w')
        = Inr (RValue ''v1'' ''a/b'' n c u))"
proof -
  let ?r = "demo_request ''POST'' ''x'' (demo_object [(''value'', ''v1'')])"
  obtain y w' where run: "secret_handler demo_senv ?r ''a/b'' False (demo_state []) = (y, w')"
    by (cases "secret_handler demo_senv ?r ''a/b'' False (demo_state [])")
  have "result_of y = Meta 1 1 1"
    using secret_refines_store_witness run by (simp add: wpre_def)
  then obtain x where "y = Inr x" by (cases y) (auto simp: result_of_def)
  with run show ?thesis
    using write_then_read [OF demo_senv_vault _ _ demo_path, of "[]" ?r False x w' "''v1''"
        "demo_request ''GET'' ''x'' []"]
    by (auto simp: demo_readable demo_value_body)
qed

text \<open>While the vault is locked the handler reveals and changes nothing: a normalised
  path gets \<open>ErrLocked\<close> whatever the method, body and stored records are, any other path the
  400 error, and the state stays exactly as it was.\<close>

theorem secret_locked:
  assumes "Locked (Vault w)"
  shows "secret_handler E r path metadata w =
    ((case Normalize path of Inl e \<Rightarrow> Inl (bad (Error e)) | Inr p \<Rightarrow> Inl ErrLocked), w)"
  using assms
  by (simp add: secret_handler_def andthen_def on_error_def lift_def gets_def throw_def split: sum.split)

lemma secret_locked_witness:
  "secret_handler demo_senv (demo_request ''GET'' ''x'' []) ''a/b'' False ((demo_state [])\<lparr>Vault := []\<rparr>) =
     (Inl ErrLocked, (demo_state [])\<lparr>Vault := []\<rparr>)"
  using secret_locked [of "(demo_state [])\<lparr>Vault := []\<rparr>" demo_senv "demo_request ''GET'' ''x'' []"
      "''a/b''" False]
  by (simp add: Locked_def demo_path)

text \<open>No answer carries a ciphertext, and a value is disclosed by a GET that does not ask
  for metadata only: writes, deletions and metadata requests never return a value.\<close>

theorem secret_discloses:
  "wpre (secret_handler E r path metadata) (\<lambda>x w'. case x of
      Inl e \<Rightarrow> True
    | Inr (RValue v p n c u) \<Rightarrow> Method r = ''GET'' \<and> \<not> metadata \<and> Normalize path = Inr p
    | Inr (RSecret s) \<Rightarrow> sec_Ciphertext s = []
    | Inr y \<Rightarrow> y = ROk True) w"
proof -
  note defs = secret_switch_def secret_read_def secret_write_def secret_delete_def wp Let_def
  show ?thesis
    by (auto simp: secret_handler_def defs split: sum.split option.split intro!: wpre_Encrypt_any)
qed

text \<open>C36: The history of a secret is monotonic even across driver faults: a request leaves
  every secret's record alone, or creates it at revision 1, or replaces the value under the
  next revision, or makes it a tombstone with the same revision and no ciphertext; no record
  disappears, so a deleted and recreated secret never reuses a revision.\<close>

theorem secret_history:
  "wpre (secret_handler E r path metadata)
     (\<lambda>x w'. (\<forall>q. evolves (secret_row w q) (secret_row w' q)) \<and>
        (\<forall>q. Normalize path = Inr q \<or> secret_row w' q = secret_row w q)) w"
proof -
  have "Normalize path \<noteq> Inr q \<Longrightarrow>
      wpre (secret_handler E r path metadata) (\<lambda>x w'. secret_row w' q = secret_row w q) w" for q
    by (rule steps_wpre) (rule secret_handler_elsewhere)
  then show ?thesis
    using secret_handler_evolves [where w = w] by (auto simp: wpre_def)
qed

end
