(* ===== verification/Auth.thy ===== *)
theory Auth
  imports Service
begin

text \<open>
  Who is asking (internal/server/auth.go): administrators by session cookie and CSRF token,
  agents and writers by bearer token. The two bearer checks share a contract, stated once as
  a locale and provided by both functions.
\<close>

section \<open>Administrators\<close>

definition zero_session :: session where
  "zero_session = \<lparr>se_Hash = [], se_Admin = [], se_CSRF = [], se_Expires = 0\<rparr>"

text \<open>The function returns a session and an error, and its caller uses both.\<close>

definition authenticateAdmin :: "senv \<Rightarrow> request \<Rightarrow> (session \<times> err option) handler" where
  "authenticateAdmin E r =
     (case cookie r ''ssm_session'' of
        None \<Rightarrow> ret (zero_session, Some ErrUnauth)
      | Some c \<Rightarrow>
          andthen (attempt (get_as as_session ''sessions'' (Hash E c))) (\<lambda>got. case got of
            Inl _ \<Rightarrow> ret (zero_session, Some ErrUnauth)
          | Inr s \<Rightarrow>
              andthen (now E) (\<lambda>t.
              if \<not> t < se_Expires s then ret (zero_session, Some ErrUnauth)
              else andthen (attempt (get_as as_admin ''admins'' (se_Admin s))) (\<lambda>got. case got of
                Inl _ \<Rightarrow> ret (zero_session, Some ErrUnauth)
              | Inr a \<Rightarrow>
                  if \<not> safe_method r \<and> header r ''X-CSRF-Token'' \<noteq> se_CSRF s
                  then ret (s, Some ErrForbidden)
                  else ret (s, None)))))"

section \<open>Bearer tokens\<close>

definition bearer_token :: "request \<Rightarrow> string option" where
  "bearer_token r =
     (let auth = header r ''Authorization''; token = TrimPrefix auth ''Bearer ''
      in if token = [] \<or> token = auth then None else Some token)"

definition authenticateAgent :: "senv \<Rightarrow> request \<Rightarrow> agent handler" where
  "authenticateAgent E r =
     (case bearer_token r of
        None \<Rightarrow> throw ErrUnauth
      | Some token \<Rightarrow>
          andthen (attempt (get_as as_index ''credentials'' (Hash E token))) (\<lambda>got. case got of
            Inl _ \<Rightarrow> throw ErrUnauth
          | Inr i \<Rightarrow>
              andthen (attempt (get_as as_agent ''agents'' i)) (\<lambda>got. case got of
                Inl _ \<Rightarrow> throw ErrUnauth
              | Inr a \<Rightarrow>
                  if ag_Revoked a \<or> ag_Hash a \<noteq> Hash E token then throw ErrUnauth else ret a)))"

definition authenticateWriter :: "senv \<Rightarrow> request \<Rightarrow> write_credential handler" where
  "authenticateWriter E r =
     (case bearer_token r of
        None \<Rightarrow> throw ErrUnauth
      | Some token \<Rightarrow>
          let hash = Hash E token in
          andthen (attempt (get_as as_index ''writer_tokens'' hash)) (\<lambda>got. case got of
            Inl _ \<Rightarrow> throw ErrUnauth
          | Inr i \<Rightarrow>
              andthen (attempt (get_as as_writer ''writers'' i)) (\<lambda>got. case got of
                Inl _ \<Rightarrow> throw ErrUnauth
              | Inr c \<Rightarrow>
                  if wc_Revoked c \<or> wc_Hash c \<noteq> hash then throw ErrUnauth else ret c)))"

text \<open>
  The contract: the caller is the record that the token's index entry names, if that record
  is not revoked and carries the token's hash; every other outcome is the one error, and
  only the fault list changes. \<open>holds\<close> is the record a token stands for.
\<close>

definition holds ::
  "senv \<Rightarrow> string \<Rightarrow> string \<Rightarrow> (doc \<Rightarrow> err + 'a) \<Rightarrow> ('a \<Rightarrow> bool) \<Rightarrow> ('a \<Rightarrow> string)
   \<Rightarrow> server \<Rightarrow> request \<Rightarrow> 'a option" where
  "holds E index_kind record_kind as revoked hash_of w r =
     (case bearer_token r of
        None \<Rightarrow> None
      | Some token \<Rightarrow>
          (case map_of (rows w) (Key index_kind (Hash E token)) of
             Some (DIndex i) \<Rightarrow>
               (case map_of (rows w) (Key record_kind i) of
                  None \<Rightarrow> None
                | Some d \<Rightarrow>
                    (case as d of
                       Inl _ \<Rightarrow> None
                     | Inr a \<Rightarrow> if revoked a \<or> hash_of a \<noteq> Hash E token then None else Some a))
           | _ \<Rightarrow> None))"

locale bearer =
  fixes auth :: "senv \<Rightarrow> request \<Rightarrow> 'a handler"
    and holder :: "senv \<Rightarrow> server \<Rightarrow> request \<Rightarrow> 'a option"
    and index_kind record_kind :: string
    and as :: "doc \<Rightarrow> err + 'a"
    and revoked :: "'a \<Rightarrow> bool"
    and hash_of :: "'a \<Rightarrow> string"
  assumes holder_def: "holder E w r = holds E index_kind record_kind as revoked hash_of w r"
    and only_faults: "\<exists>fs. snd (auth E r w) = w\<lparr>faults := fs\<rparr>"
    and sound: "fst (auth E r w) = Inr a \<Longrightarrow> holder E w r = Some a"
    and refuses: "fst (auth E r w) = Inl e \<Longrightarrow> e = ErrUnauth"
    and complete: "faults w = [] \<Longrightarrow> holder E w r = Some a \<Longrightarrow> fst (auth E r w) = Inr a"
begin

lemma outcome: "auth E r w = (x, w') \<Longrightarrow>
  (case x of Inl e \<Rightarrow> e = ErrUnauth | Inr a \<Rightarrow> holder E w r = Some a) \<and> (\<exists>fs. w' = w\<lparr>faults := fs\<rparr>)"
  using sound [of E r w] refuses [of E r w] only_faults [of E r w] by (auto split: sum.split)

lemma wpre_auth:
  assumes "\<And>fs. Q (Inl ErrUnauth) (w\<lparr>faults := fs\<rparr>)"
    and "\<And>a fs. holder E w r = Some a \<Longrightarrow> Q (Inr a) (w\<lparr>faults := fs\<rparr>)"
  shows "wpre (auth E r) Q w"
  by (rule wpreI, drule outcome) (auto simp: assms split: sum.splits)

lemma steps_auth:
  assumes "\<And>w fs. R w (w\<lparr>faults := fs\<rparr>)"
  shows "steps R (auth E r)"
  by (rule stepsI, rule wpre_auth) (rule assms)+

text \<open>A caller without an index entry, or whose record is gone or revoked, is refused.\<close>

lemma refused_None: "holder E w r = None \<Longrightarrow> fst (auth E r w) = Inl ErrUnauth"
  using sound [of E r w] refuses [of E r w] by (cases "fst (auth E r w)") auto

lemma no_index: "bearer_token r = Some token \<Longrightarrow>
    map_of (rows w) (Key index_kind (Hash E token)) = None \<Longrightarrow> fst (auth E r w) = Inl ErrUnauth"
  by (rule refused_None) (simp add: holder_def holds_def)

lemma accepted_not_revoked:
  "fst (auth E r w) = Inr a \<Longrightarrow> \<not> revoked a \<and> (\<exists>token. bearer_token r = Some token \<and> hash_of a = Hash E token)"
  by (drule sound) (auto simp: holder_def holds_def split: option.splits doc.splits sum.splits if_splits)

text \<open>The decision depends on the records of the two kinds only.\<close>

lemma holder_cong:
  assumes "\<And>i. map_of (rows w') (Key index_kind i) = map_of (rows w) (Key index_kind i)"
    and "\<And>i. map_of (rows w') (Key record_kind i) = map_of (rows w) (Key record_kind i)"
  shows "holder E w' r = holder E w r"
  by (simp only: holder_def holds_def assms)

end

abbreviation agent_holder :: "senv \<Rightarrow> server \<Rightarrow> request \<Rightarrow> agent option" where
  "agent_holder E w r \<equiv> holds E ''credentials'' ''agents'' as_agent ag_Revoked ag_Hash w r"

abbreviation writer_holder :: "senv \<Rightarrow> server \<Rightarrow> request \<Rightarrow> write_credential option" where
  "writer_holder E w r \<equiv> holds E ''writer_tokens'' ''writers'' as_writer wc_Revoked wc_Hash w r"

lemma holds_Some:
  "holds E ik rk as rvk h w r = Some a \<longleftrightarrow>
     (\<exists>token i d. bearer_token r = Some token \<and> map_of (rows w) (Key ik (Hash E token)) = Some (DIndex i) \<and>
        map_of (rows w) (Key rk i) = Some d \<and> as d = Inr a \<and> \<not> rvk a \<and> h a = Hash E token)"
  by (auto simp: holds_def split: option.split doc.split sum.split)

lemma after_stmt_faults: "after_stmt w = w\<lparr>faults := tl (faults w)\<rparr>"
  by (simp add: after_stmt_def)

interpretation agents: bearer authenticateAgent agent_holder "''credentials''" "''agents''" as_agent
  ag_Revoked ag_Hash
proof (unfold_locales, goal_cases)
  case (1 E w r) show ?case by simp
next
  case (2 E r w)
  have "wpre (authenticateAgent E r) (\<lambda>x w'. \<exists>fs. w' = w\<lparr>faults := fs\<rparr>) w"
    by (auto simp: authenticateAgent_def wp after_stmt_faults intro: exI [of _ "faults w"]
        split: option.split sum.split)
  then show ?case by (simp add: wpre_def)
next
  case (3 E r w a)
  have "wpre (authenticateAgent E r) (\<lambda>x w'. x = Inr a \<longrightarrow> agent_holder E w r = Some a) w"
    unfolding holds_Some by (auto simp: authenticateAgent_def wp split: option.split sum.split)
  with 3 show ?case by (simp add: wpre_def)
next
  case (4 E r w e)
  have "wpre (authenticateAgent E r) (\<lambda>x w'. x = Inl e \<longrightarrow> e = ErrUnauth) w"
    by (auto simp: authenticateAgent_def wp split: option.split sum.split)
  with 4 show ?case by (simp add: wpre_def)
next
  case (5 w E r a)
  then have "wpre (authenticateAgent E r) (\<lambda>x w'. x = Inr a) w"
    unfolding holds_Some by (auto simp: authenticateAgent_def wp)
  then show ?case by (simp add: wpre_def)
qed

interpretation writers: bearer authenticateWriter writer_holder "''writer_tokens''" "''writers''" as_writer
  wc_Revoked wc_Hash
proof (unfold_locales, goal_cases)
  case (1 E w r) show ?case by simp
next
  case (2 E r w)
  have "wpre (authenticateWriter E r) (\<lambda>x w'. \<exists>fs. w' = w\<lparr>faults := fs\<rparr>) w"
    by (auto simp: authenticateWriter_def wp after_stmt_faults intro: exI [of _ "faults w"]
        split: option.split sum.split)
  then show ?case by (simp add: wpre_def)
next
  case (3 E r w a)
  have "wpre (authenticateWriter E r) (\<lambda>x w'. x = Inr a \<longrightarrow> writer_holder E w r = Some a) w"
    unfolding holds_Some by (auto simp: authenticateWriter_def wp split: option.split sum.split)
  with 3 show ?case by (simp add: wpre_def)
next
  case (4 E r w e)
  have "wpre (authenticateWriter E r) (\<lambda>x w'. x = Inl e \<longrightarrow> e = ErrUnauth) w"
    by (auto simp: authenticateWriter_def wp split: option.split sum.split)
  with 4 show ?case by (simp add: wpre_def)
next
  case (5 w E r a)
  then have "wpre (authenticateWriter E r) (\<lambda>x w'. x = Inr a) w"
    unfolding holds_Some by (auto simp: authenticateWriter_def wp)
  then show ?case by (simp add: wpre_def)
qed

section \<open>What the administrator check decides\<close>

text \<open>The session a request's cookie stands for at time \<open>t\<close>: stored, unexpired, of an
  administrator that exists.\<close>

definition valid_session :: "senv \<Rightarrow> server \<Rightarrow> request \<Rightarrow> time \<Rightarrow> session option" where
  "valid_session E w r t =
     (case cookie r ''ssm_session'' of
        None \<Rightarrow> None
      | Some c \<Rightarrow>
          (case map_of (rows w) (Key ''sessions'' (Hash E c)) of
             Some (DSession s) \<Rightarrow>
               (if t < se_Expires s
                then (case map_of (rows w) (Key ''admins'' (se_Admin s)) of
                        Some (DAdmin a) \<Rightarrow> Some s
                      | _ \<Rightarrow> None)
                else None)
           | _ \<Rightarrow> None))"

lemma valid_session_Some:
  "valid_session E w r t = Some s \<longleftrightarrow>
     (\<exists>c a. cookie r ''ssm_session'' = Some c \<and>
        map_of (rows w) (Key ''sessions'' (Hash E c)) = Some (DSession s) \<and> t < se_Expires s \<and>
        map_of (rows w) (Key ''admins'' (se_Admin s)) = Some (DAdmin a))"
  by (auto simp: valid_session_def split: option.split doc.split)

definition csrf_ok :: "request \<Rightarrow> session \<Rightarrow> bool" where
  "csrf_ok r s \<longleftrightarrow> safe_method r \<or> header r ''X-CSRF-Token'' = se_CSRF s"

definition admin_decision :: "request \<Rightarrow> session option \<Rightarrow> session \<times> err option" where
  "admin_decision r v =
     (case v of
        None \<Rightarrow> (zero_session, Some ErrUnauth)
      | Some s \<Rightarrow> (s, if csrf_ok r s then None else Some ErrForbidden))"

lemma wpre_authenticateAdmin:
  assumes "\<And>fs n. Q (Inr (zero_session, Some ErrUnauth)) (w\<lparr>faults := fs, ticks := n\<rparr>)"
    and "\<And>s fs n. valid_session E w r (clock E (ticks w)) = Some s \<Longrightarrow>
       Q (Inr (s, if csrf_ok r s then None else Some ErrForbidden)) (w\<lparr>faults := fs, ticks := n\<rparr>)"
  shows "wpre (authenticateAdmin E r) Q w"
proof -
  have "wpre (authenticateAdmin E r) (\<lambda>x w'. w' = w\<lparr>faults := faults w', ticks := ticks w'\<rparr> \<and>
      (x = Inr (zero_session, Some ErrUnauth) \<or>
       (\<exists>s. valid_session E w r (clock E (ticks w)) = Some s \<and>
          x = Inr (s, if csrf_ok r s then None else Some ErrForbidden)))) w"
    unfolding valid_session_Some
    by (auto simp: authenticateAdmin_def wp after_stmt_faults csrf_ok_def
        split: option.split sum.split)
  then show ?thesis
    by (rule wpre_mono) (metis assms)
qed

lemma authenticateAdmin_exact:
  assumes "faults w = []"
  shows "fst (authenticateAdmin E r w) =
    Inr (admin_decision r (valid_session E w r (clock E (ticks w))))"
proof -
  have "wpre (authenticateAdmin E r)
      (\<lambda>x w'. x = Inr (admin_decision r (valid_session E w r (clock E (ticks w))))) w"
    using assms
    by (auto simp: authenticateAdmin_def admin_decision_def valid_session_def csrf_ok_def wp as_defs
        split: option.split sum.split doc.split)
  then show ?thesis by (simp add: wpre_def)
qed

section \<open>The limiter\<close>

text \<open>
  \<open>limit\<close> of internal/server/server.go: a fixed window of one minute with at most 30
  attempts. It runs under the server's mutex, so a call is one step.
\<close>

definition limit :: "senv \<Rightarrow> bool handler" where
  "limit E =
     andthen (now E) (\<lambda>t.
     andthen (gets window) (\<lambda>start.
     andthen (if t - start > 60 * second_ns
              then andthen (now E) (\<lambda>t'. modify (\<lambda>w. w\<lparr>window := t', attempts := 0\<rparr>))
              else ret ()) (\<lambda>_.
     andthen (modify (\<lambda>w. w\<lparr>attempts := attempts w + 1\<rparr>)) (\<lambda>_.
     gets (\<lambda>w. attempts w \<le> 30)))))"

lemma wpre_limit:
  "wpre (limit E) Q w \<longleftrightarrow>
     (if clock E (ticks w) - window w > 60 * second_ns
      then Q (Inr True) (w\<lparr>ticks := Suc (Suc (ticks w)), window := clock E (Suc (ticks w)), attempts := 1\<rparr>)
      else Q (Inr (attempts w + 1 \<le> 30)) (w\<lparr>ticks := Suc (ticks w), attempts := attempts w + 1\<rparr>))"
  by (simp add: limit_def wp)

lemma limit_run:
  "limit E w =
     (if clock E (ticks w) - window w > 60 * second_ns
      then (Inr True, w\<lparr>ticks := Suc (Suc (ticks w)), window := clock E (Suc (ticks w)), attempts := 1\<rparr>)
      else (Inr (attempts w + 1 \<le> 30), w\<lparr>ticks := Suc (ticks w), attempts := attempts w + 1\<rparr>))"
  by (simp add: limit_def andthen_def now_def gets_def modify_def ret_def)

context row_relation begin

lemma steps_limit: "steps R (limit E)"
  by (rule stepsI) (simp add: wpre_limit R_rows)

lemma steps_authenticateAdmin: "steps R (authenticateAdmin E r)"
  by (rule stepsI, rule wpre_authenticateAdmin) (simp_all add: R_rows)

lemma steps_authenticateAgent: "steps R (authenticateAgent E r)"
  by (rule agents.steps_auth) (simp add: R_rows)

lemma steps_authenticateWriter: "steps R (authenticateWriter E r)"
  by (rule writers.steps_auth) (simp add: R_rows)

lemmas steps_checks = steps_limit steps_authenticateAdmin steps_authenticateAgent
  steps_authenticateWriter

end

lemmas check_steps [steps] = frame.steps_checks row_kept.steps_checks pk_kept.steps_checks

text \<open>The next \<open>n\<close> calls: how many were allowed, and the state behind them.\<close>

fun limit_calls :: "senv \<Rightarrow> nat \<Rightarrow> server \<Rightarrow> int \<times> server" where
  "limit_calls E 0 w = (0, w)"
| "limit_calls E (Suc n) w =
     (case limit E w of
        (x, w1) \<Rightarrow> (case limit_calls E n w1 of (k, w2) \<Rightarrow> (if x = Inr True then k + 1 else k, w2)))"

lemma limit_calls_bound:
  assumes "mono (clock E)" and "0 \<le> attempts w"
  shows "fst (limit_calls E n w) \<le>
    max 0 (30 - attempts w) + 30 * ((window (snd (limit_calls E n w)) - window w) div (60 * second_ns))"
  using assms(2)
proof (induction n arbitrary: w)
  case (Suc n)
  let ?m = "60 * second_ns"
  have m: "?m > 0" by (simp add: second_ns_def)
  show ?case
  proof (cases "clock E (ticks w) - window w > ?m")
    case True
    let ?w = "w\<lparr>ticks := Suc (Suc (ticks w)), window := clock E (Suc (ticks w)), attempts := 1\<rparr>"
    obtain k w' where run: "limit_calls E n ?w = (k, w')" by (cases "limit_calls E n ?w")
    have "clock E (ticks w) \<le> clock E (Suc (ticks w))" using assms(1) by (simp add: monoD)
    with True have "(window w' - window ?w + ?m) div ?m \<le> (window w' - window w) div ?m"
      by (intro zdiv_mono1) (simp_all add: m)
    moreover have "(window w' - window ?w + ?m) div ?m = (window w' - window ?w) div ?m + 1"
      using m by (intro div_add_self2) simp
    moreover have "k \<le> 29 + 30 * ((window w' - window ?w) div ?m)"
      using Suc.IH [of ?w] run by simp
    ultimately show ?thesis
      using True by (simp add: limit_run run)
  next
    case False
    let ?w = "w\<lparr>ticks := Suc (ticks w), attempts := attempts w + 1\<rparr>"
    from False Suc.prems Suc.IH [of ?w] show ?thesis
      by (cases "limit_calls E n ?w") (simp add: limit_run max_def split: if_splits)
  qed
qed simp

section \<open>Properties\<close>

text \<open>C35: An administrator is authenticated exactly by the cookie of a stored, unexpired
  session whose administrator still exists, and for a method other than GET and HEAD also by
  the session's CSRF token; a driver fault can only refuse, never accept; and the check
  itself changes no record.\<close>

theorem admin_authentication:
  "(faults w = [] \<longrightarrow>
      fst (authenticateAdmin E r w) = Inr (admin_decision r (valid_session E w r (clock E (ticks w))))) \<and>
   (fst (authenticateAdmin E r w) = Inr (s, None) \<longrightarrow>
      valid_session E w r (clock E (ticks w)) = Some s \<and> csrf_ok r s) \<and>
   rows (snd (authenticateAdmin E r w)) = rows w"
proof -
  have "wpre (authenticateAdmin E r) (\<lambda>x w'. (x = Inr (s, None) \<longrightarrow>
      valid_session E w r (clock E (ticks w)) = Some s \<and> csrf_ok r s) \<and> rows w' = rows w) w"
    by (rule wpre_authenticateAdmin) auto
  then show ?thesis by (auto simp: authenticateAdmin_exact wpre_def)
qed

definition demo_session :: session where
  "demo_session = \<lparr>se_Hash = Hash demo_senv ''t'', se_Admin = ''root'', se_CSRF = ''c'', se_Expires = 99 * second_ns\<rparr>"

definition demo_agent :: agent where
  "demo_agent = \<lparr>ag_ID = ''a1'', ag_Name = ''web'', ag_Paths = [''a/*''],
     ag_Hash = Hash demo_senv ''t'', ag_Revoked = False, ag_Created = 5\<rparr>"

definition demo_rows :: "doc table" where
  "demo_rows =
     [(Key ''admins'' ''root'', DAdmin \<lparr>ad_Name = ''root'', ad_Password = ''$pw''\<rparr>),
      (Key ''sessions'' (Hash demo_senv ''t''), DSession demo_session),
      (Key ''credentials'' (Hash demo_senv ''t''), DIndex ''a1''),
      (Key ''agents'' ''a1'', DAgent demo_agent)]"

lemma demo_hash: "Hash demo_senv ''t'' = ''74''"
  by (simp add: Hash_def demo_senv_def demo_env_def env.defs hex_digits_def)

lemma demo_cookie: "cookie (demo_request m p b) ''ssm_session'' = Some ''t''"
  by (simp add: cookie_def demo_request_def)

lemma demo_bearer: "bearer_token (demo_request m p b) = Some ''t''"
  by (simp add: bearer_token_def header_def demo_request_def TrimPrefix_def HasPrefix_def)

lemma demo_csrf: "header (demo_request m p b) ''X-CSRF-Token'' = se_CSRF demo_session"
  by (simp add: header_def demo_request_def demo_session_def)

lemma demo_clock: "clock demo_senv i = int i * 1000000000 + 1"
  by (simp add: demo_senv_def demo_env_def env.defs)

lemma demo_valid_session:
  "valid_session demo_senv (demo_state demo_rows) (demo_request m p b) 1 = Some demo_session"
  by (simp add: valid_session_def demo_cookie demo_rows_def demo_session_def second_ns_def)

lemma admin_authentication_witness:
  "fst (authenticateAdmin demo_senv (demo_request ''POST'' ''x'' []) (demo_state demo_rows)) =
     Inr (demo_session, None)"
  using admin_authentication [of "demo_state demo_rows" demo_senv "demo_request ''POST'' ''x'' []"]
  by (auto simp: demo_clock demo_valid_session admin_decision_def csrf_ok_def demo_csrf)

text \<open>A bearer token authenticates exactly the agent, or the writer, whose own index entry
  for the token's hash names a record that is not revoked and carries that hash; each check
  reads its own token namespace only, every refusal is the one error, and no record
  changes.\<close>

theorem bearer_authentication:
  assumes "faults w = []"
  shows "fst (authenticateAgent E r w) =
      (case agent_holder E w r of None \<Rightarrow> Inl ErrUnauth | Some a \<Rightarrow> Inr a) \<and>
    fst (authenticateWriter E r w) =
      (case writer_holder E w r of None \<Rightarrow> Inl ErrUnauth | Some c \<Rightarrow> Inr c) \<and>
    rows (snd (authenticateAgent E r w)) = rows w \<and> rows (snd (authenticateWriter E r w)) = rows w"
proof (intro conjI)
  show "fst (authenticateAgent E r w) =
      (case agent_holder E w r of None \<Rightarrow> Inl ErrUnauth | Some a \<Rightarrow> Inr a)"
    using agents.complete [OF assms, of E r] agents.refused_None [of E w r]
    by (simp split: option.split)
  show "fst (authenticateWriter E r w) =
      (case writer_holder E w r of None \<Rightarrow> Inl ErrUnauth | Some c \<Rightarrow> Inr c)"
    using writers.complete [OF assms, of E r] writers.refused_None [of E w r]
    by (simp split: option.split)
  show "rows (snd (authenticateAgent E r w)) = rows w"
    using agents.only_faults [of E r w] by auto
  show "rows (snd (authenticateWriter E r w)) = rows w"
    using writers.only_faults [of E r w] by auto
qed

lemma bearer_authentication_witness:
  "(case fst (authenticateAgent demo_senv (demo_request ''GET'' ''x'' []) (demo_state demo_rows)) of
      Inl e \<Rightarrow> False | Inr a \<Rightarrow> ag_ID a = ''a1'') \<and>
   fst (authenticateWriter demo_senv (demo_request ''GET'' ''x'' []) (demo_state demo_rows)) = Inl ErrUnauth"
  using bearer_authentication [of "demo_state demo_rows" demo_senv "demo_request ''GET'' ''x'' []"]
  by (simp add: holds_def demo_bearer demo_rows_def demo_agent_def)

text \<open>C37: The limiter bounds password and token guesses: among any calls in a row, from any
  state and with a clock that does not run backwards, at most 30 are allowed plus 30 for
  every full minute the window has moved on.\<close>

theorem limiter_rate:
  assumes "mono (clock E)" and "0 \<le> attempts w" and "limit_calls E n w = (k, w')"
  shows "k \<le> 30 + 30 * ((window w' - window w) div (60 * second_ns))"
  using limit_calls_bound [OF assms(1,2), of n] assms(2,3) by (simp add: max_def split: if_splits)

lemma limiter_rate_witness:
  "fst (limit_calls demo_senv 3 (demo_state [])) \<le>
     30 + 30 * (window (snd (limit_calls demo_senv 3 (demo_state []))) div (60 * second_ns))"
proof -
  have "mono (clock demo_senv)" by (simp add: mono_def demo_clock)
  from limiter_rate [OF this, of "demo_state []" 3 "fst (limit_calls demo_senv 3 (demo_state []))"
      "snd (limit_calls demo_senv 3 (demo_state []))"]
  show ?thesis by simp
qed

end
