(* ===== verification/Writers.thy ===== *)
theory Writers
  imports Secrets Auth
begin

text \<open>
  Write credentials (internal/server/write_credentials.go): their management by
  administrators and the write-only endpoint that uses them.
\<close>

section \<open>Management\<close>

definition writers_base :: string where
  "writers_base = ''/api/v1/admin/write-credentials''"

text \<open>\<open>if e := f(); e != nil { return bad(e.Error()) }\<close>.\<close>

definition or_bad :: "err + 'a \<Rightarrow> 'a handler" where
  "or_bad r = on_error (lift r) (\<lambda>e. bad (Error e))"

lemma wpre_or_bad [wp]:
  "wpre (or_bad r) Q w \<longleftrightarrow> Q (case r of Inl e \<Rightarrow> Inl (bad (Error e)) | Inr v \<Rightarrow> Inr v) w"
  by (simp add: or_bad_def wp)

lemma steps_or_bad [steps]:
  "steps (same_outside K) (or_bad r)"
  "steps (\<lambda>w w'. map_of (rows w') k = map_of (rows w) k) (or_bad r)"
  "steps (\<lambda>w w'. I w \<longrightarrow> I w') (or_bad r)"
  "steps (\<lambda>w w'. f w' = f w) (or_bad r)"
  unfolding or_bad_def by (intro steps)+

record new_writer =
  nw_AllowCreate :: bool
  nw_Name :: string
  nw_Paths :: "string list"

definition new_writer_struct :: "string \<Rightarrow> json \<Rightarrow> new_writer \<Rightarrow> new_writer option" where
  "new_writer_struct =
     field ''allow_create'' set_bool nw_AllowCreate (\<lambda>a. nw_AllowCreate_update (\<lambda>_. a))
     (field ''name'' set_string nw_Name (\<lambda>a. nw_Name_update (\<lambda>_. a))
     (field ''paths'' set_strings nw_Paths (\<lambda>a. nw_Paths_update (\<lambda>_. a)) no_field))"

record writer_change =
  ch_Paths :: "string list option"
  ch_AllowCreate :: "bool option"

definition writer_change_struct :: "string \<Rightarrow> json \<Rightarrow> writer_change \<Rightarrow> writer_change option" where
  "writer_change_struct =
     field ''paths'' (set_pointer set_strings []) ch_Paths (\<lambda>a. ch_Paths_update (\<lambda>_. a))
     (field ''allow_create'' (set_pointer set_bool False) ch_AllowCreate
       (\<lambda>a. ch_AllowCreate_update (\<lambda>_. a)) no_field)"

definition writers_list :: "reply handler" where
  "writers_list =
     andthen (list_as as_writer ''writers'') (\<lambda>cs.
     ret (RWriters (map (\<lambda>c. c\<lparr>wc_Hash := []\<rparr>) cs)))"

definition writers_create :: "senv \<Rightarrow> request \<Rightarrow> reply handler" where
  "writers_create E r =
     andthen (lift (decode r new_writer_struct \<lparr>nw_AllowCreate = False, nw_Name = [], nw_Paths = []\<rparr>)) (\<lambda>inp.
     if TrimSpace (nw_Name inp) = [] then throw (bad ''name required'')
     else andthen (or_bad (ValidateRules (nw_Paths inp))) (\<lambda>_.
       andthen (fresh_token E) (\<lambda>token.
       andthen (fresh_token E) (\<lambda>i.
       andthen (now E) (\<lambda>t.
       let c = \<lparr>wc_AllowCreate = nw_AllowCreate inp, wc_ID = i, wc_Name = nw_Name inp,
                wc_Paths = nw_Paths inp, wc_Hash = Hash E token, wc_Revoked = False, wc_Created = t\<rparr>
       in andthen (tx_Put ''writers'' (wc_ID c) (DWriter c)) (\<lambda>_.
          andthen (tx_Put ''writer_tokens'' (wc_Hash c) (DIndex (wc_ID c))) (\<lambda>_.
          ret (RNewWriter (c\<lparr>wc_Hash := []\<rparr>) token))))))))"

definition writers_store :: "write_credential \<Rightarrow> reply handler" where
  "writers_store c =
     andthen (tx_Put ''writers'' (wc_ID c) (DWriter c)) (\<lambda>_. ret (RWriter (c\<lparr>wc_Hash := []\<rparr>)))"

definition writers_update :: "request \<Rightarrow> write_credential \<Rightarrow> reply handler" where
  "writers_update r c =
     andthen (lift (decode r writer_change_struct \<lparr>ch_Paths = None, ch_AllowCreate = None\<rparr>)) (\<lambda>inp.
     andthen (case ch_Paths inp of
         None \<Rightarrow> ret c
       | Some paths \<Rightarrow> andthen (or_bad (ValidateRules paths)) (\<lambda>_. ret (c\<lparr>wc_Paths := paths\<rparr>))) (\<lambda>c.
     writers_store (case ch_AllowCreate inp of None \<Rightarrow> c | Some b \<Rightarrow> c\<lparr>wc_AllowCreate := b\<rparr>)))"

definition writers_revoke :: "write_credential \<Rightarrow> reply handler" where
  "writers_revoke c =
     andthen (tx_Delete ''writer_tokens'' (wc_Hash c)) (\<lambda>_. writers_store (c\<lparr>wc_Revoked := True\<rparr>))"

definition manageWriteCredentials :: "senv \<Rightarrow> request \<Rightarrow> reply handler" where
  "manageWriteCredentials E r =
     (if UrlPath r = writers_base then
        (if Method r = ''GET'' then writers_list
         else if Method r = ''POST'' then writers_create E r
         else throw method_not_allowed)
      else andthen (get_as as_writer ''writers'' (TrimPrefix (UrlPath r) (writers_base @ ''/''))) (\<lambda>c.
        if Method r = ''PUT'' then writers_update r c
        else if Method r = ''DELETE'' then writers_revoke c
        else throw method_not_allowed))"

section \<open>The write endpoint\<close>

text \<open>
  A POST becomes an update, or a creation if the credential may create and the secret is
  missing or deleted; \<open>write_method\<close> is the method the cloned request gets.
\<close>

definition write_method :: "write_credential \<Rightarrow> string \<Rightarrow> string handler" where
  "write_method c p =
     (if wc_AllowCreate c then
        andthen (attempt (get_as as_secret ''secrets'' p)) (\<lambda>got. case got of
          Inl e \<Rightarrow> if e \<noteq> ErrNotFound then throw e else ret ''POST''
        | Inr existing \<Rightarrow> ret (if sec_Deleted existing then ''POST'' else ''PUT''))
      else ret ''PUT'')"

definition writeSecret :: "senv \<Rightarrow> request \<Rightarrow> reply handler" where
  "writeSecret E r =
     andthen (authenticateWriter E r) (\<lambda>c.
     andthen (set_identity (''writer:'' @ wc_ID c)) (\<lambda>_.
     let raw = TrimPrefix (UrlPath r) ''/api/v1/write/'' in
     andthen (set_path raw) (\<lambda>_.
     andthen (or_bad (Normalize raw)) (\<lambda>normalized.
     andthen (set_path normalized) (\<lambda>_.
     if \<not> Allowed normalized (wc_Paths c) then throw ErrForbidden
     else if Method r \<noteq> ''POST'' then throw method_not_allowed
     else andthen (write_method c normalized) (\<lambda>m.
       secret_handler E (r\<lparr>Method := m\<rparr>) normalized False))))))"

section \<open>Frames\<close>

lemmas writers_defs = manageWriteCredentials_def writers_list_def writers_create_def
  writers_update_def writers_revoke_def writers_store_def

lemma manageWriteCredentials_frame [steps]:
  "steps (same_outside {''writers'', ''writer_tokens''}) (manageWriteCredentials E r)"
  unfolding writers_defs by (intro steps) simp_all

lemma manageWriteCredentials_pk [steps]:
  "steps (\<lambda>w w'. pk (rows w) \<longrightarrow> pk (rows w')) (manageWriteCredentials E r)"
  unfolding writers_defs by (intro steps)

lemma writeSecret_frame [steps]: "steps (same_outside {''secrets''}) (writeSecret E r)"
  unfolding writeSecret_def write_method_def by (intro steps)

lemma writeSecret_pk [steps]:
  "steps (\<lambda>w w'. pk (rows w) \<longrightarrow> pk (rows w')) (writeSecret E r)"
  unfolding writeSecret_def write_method_def by (intro steps)

end
