(* ===== verification/Maintenance.thy ===== *)
theory Maintenance
  imports Auth
begin

text \<open>
  Removing an agent with all its tokens, removing an administrator's sessions, and the
  streaming download of the audit log (internal/server/maintenance.go and \<open>deleteSessions\<close>
  of internal/server/server.go).
\<close>

section \<open>Removing agents and sessions\<close>

definition deleteAgent :: "string \<Rightarrow> unit handler" where
  "deleteAgent i =
     andthen (get_as as_agent ''agents'' i) (\<lambda>ag.
     andthen (tx_List ''enrollment'') (\<lambda>ds.
     andthen (foreach ds (\<lambda>d.
       andthen (lift (as_enrollment d)) (\<lambda>token.
       if en_AgentID token = i then tx_Delete ''enrollment'' (en_Hash token) else ret ()))) (\<lambda>_.
     andthen (if ag_Hash ag \<noteq> [] then tx_Delete ''credentials'' (ag_Hash ag) else ret ()) (\<lambda>_.
     tx_Delete ''agents'' i))))"

definition deleteSessions :: "string \<Rightarrow> unit handler" where
  "deleteSessions name =
     andthen (tx_List ''sessions'') (\<lambda>ds.
     foreach ds (\<lambda>d.
       andthen (lift (as_session d)) (\<lambda>s.
       if se_Admin s = name then tx_Delete ''sessions'' (se_Hash s) else ret ())))"

lemma deleteAgent_frame [steps]:
  "steps (same_outside {''agents'', ''credentials'', ''enrollment''}) (deleteAgent i)"
  unfolding deleteAgent_def by (intro steps) simp_all

lemma deleteSessions_frame [steps]: "steps (same_outside {''sessions''}) (deleteSessions name)"
  unfolding deleteSessions_def by (intro steps) simp_all

lemma delete_pk [steps]:
  "steps (\<lambda>w w'. pk (rows w) \<longrightarrow> pk (rows w')) (deleteAgent i)"
  "steps (\<lambda>w w'. pk (rows w) \<longrightarrow> pk (rows w')) (deleteSessions name)"
  unfolding deleteAgent_def deleteSessions_def by (intro steps)+

section \<open>The audit download\<close>

text \<open>
  What the connection does while the log is streamed: for the \<open>n\<close>-th record, the errors of
  \<open>SetWriteDeadline\<close>, of encoding the line and of \<open>Flush\<close>, and whether the request was
  cancelled before it. The state of the callback is what was sent so far.
\<close>

record wire =
  deadline_error :: "nat \<Rightarrow> err option"
  encode_error :: "nat \<Rightarrow> err option"
  flush_error :: "nat \<Rightarrow> err option"
  cancelled :: "nat \<Rightarrow> err option"

record progress =
  visited :: nat
  started :: bool
  sent :: "doc list"

definition ErrNotSupported :: err where
  "ErrNotSupported = ErrText ''feature not supported''"

definition send_record :: "wire \<Rightarrow> doc \<Rightarrow> progress \<Rightarrow> err option \<times> progress" where
  "send_record n raw st =
     (let i = visited st; st = st\<lparr>visited := i + 1\<rparr> in
      if deadline_error n i \<noteq> None \<and> deadline_error n i \<noteq> Some ErrNotSupported
      then (deadline_error n i, st)
      else
        (let st = st\<lparr>started := True\<rparr> in
         if encode_error n i \<noteq> None then (encode_error n i, st)
         else
           (let st = st\<lparr>sent := sent st @ [raw]\<rparr> in
            if flush_error n i = Some ErrNotSupported then (None, st)
            else (flush_error n i, st))))"

text \<open>
  How the download ends: with all lines, with a 503 before anything was sent, or by aborting
  the response, so that the client sees an incomplete transfer.
\<close>

datatype download = Complete "doc list" | Unavailable | Aborted "doc list"

definition downloadAudit :: "doc snapshots \<Rightarrow> wire \<Rightarrow> download option" where
  "downloadAudit snap n =
     map_option (\<lambda>(stop, st). case stop of
         None \<Rightarrow> Complete (sent st)
       | Some e \<Rightarrow> if started st then Aborted (sent st) else Unavailable)
       (Scan snap (\<lambda>st. cancelled n (visited st)) (send_record n) ''audit''
         \<lparr>visited = 0, started = False, sent = []\<rparr>)"

text \<open>The records a download is about: those of kind audit, by id.\<close>

definition audit_log :: "doc table \<Rightarrow> doc list" where
  "audit_log rs = map snd (filter (\<lambda>(k, d). id_of k \<noteq> []) (sql_kind ''audit'' rs))"

lemma send_record_sent:
  "send_record n raw st = (None, st') \<Longrightarrow> sent st' = sent st @ [raw] \<and> visited st' = visited st + 1"
  by (auto simp: send_record_def Let_def split: if_splits)

lemma send_all_sent:
  "visit_all stop (send_record n) ds st = (None, st') \<Longrightarrow> sent st' = sent st @ ds"
  by (induction ds arbitrary: st)
     (auto dest: send_record_sent split: option.splits prod.splits)

lemma send_record_stuck:
  "send_record n raw st = (e, st') \<Longrightarrow>
     (\<exists>more. sent st' = sent st @ more \<and> (more = [] \<or> more = [raw])) \<and> (sent st' \<noteq> sent st \<longrightarrow> started st')
      \<and> (started st \<longrightarrow> started st')"
  by (auto simp: send_record_def Let_def split: if_splits)

lemma send_all_prefix:
  "visit_all stop (send_record n) ds st = (e, st') \<Longrightarrow>
     (\<exists>k. sent st' = sent st @ take k ds) \<and> (started st \<longrightarrow> started st') \<and>
     (sent st' \<noteq> sent st \<longrightarrow> started st')"
proof (induction ds arbitrary: st)
  case (Cons d ds)
  show ?case
  proof (cases "stop st")
    case None
    obtain x st1 where one: "send_record n d st = (x, st1)" by (cases "send_record n d st")
    show ?thesis
    proof (cases x)
      case None
      with one have "sent st1 = sent st @ [d]" "started st1"
        using send_record_sent [of n d st st1] send_record_stuck [of n d st None st1] by auto
      moreover obtain k where "sent st' = sent st1 @ take k ds" "started st1 \<longrightarrow> started st'"
        using Cons.IH [of st1] Cons.prems \<open>stop st = None\<close> one None by auto
      ultimately show ?thesis
        by (auto intro: exI [of _ "Suc k"])
    next
      case (Some e')
      then have "st' = st1" using Cons.prems \<open>stop st = None\<close> one by simp
      moreover obtain more where "sent st1 = sent st @ more" "more = [] \<or> more = [d]"
        "sent st1 \<noteq> sent st \<longrightarrow> started st1" "started st \<longrightarrow> started st1"
        using send_record_stuck [OF one] by blast
      ultimately show ?thesis
        by (auto intro: exI [of _ "0::nat"] exI [of _ "1::nat"])
    qed
  qed (use Cons.prems in \<open>auto intro: exI [of _ "0::nat"]\<close>)
qed (auto intro: exI [of _ "0::nat"])

text \<open>A connection on which nothing goes wrong.\<close>

definition clear_wire :: wire where
  "clear_wire = \<lparr>deadline_error = (\<lambda>_. None), encode_error = (\<lambda>_. None), flush_error = (\<lambda>_. None),
     cancelled = (\<lambda>_. None)\<rparr>"

lemma clear_wire_completes:
  "fst (visit_all (\<lambda>st. cancelled clear_wire (visited st)) (send_record clear_wire) ds st) = None"
  by (induction ds arbitrary: st) (simp_all add: send_record_def clear_wire_def)

section \<open>The deletion loops\<close>

text \<open>
  A loop that unmarshals every listed row and deletes those that satisfy a test, run without
  driver faults over rows of the right type, is one fold of deletions.
\<close>

lemma delete_loop_run:
  assumes "faults w = []" and "\<forall>d \<in> set ds. \<exists>x. as d = Inr x"
  shows "foreach ds (\<lambda>d. andthen (lift (as d)) (\<lambda>x. if P x then tx_Delete kd (key x) else ret ())) w =
    (Inr (), w\<lparr>rows := fold sql_delete
        (map (\<lambda>d. Key kd (key (projr (as d)))) (filter (\<lambda>d. P (projr (as d))) ds)) (rows w)\<rparr>)"
  using assms
proof (induction ds arbitrary: w)
  case Nil
  then show ?case by (simp add: ret_def)
next
  case (Cons d ds)
  then obtain x where x: "as d = Inr x" by auto
  let ?w = "if P x then w\<lparr>rows := sql_delete (Key kd (key x)) (rows w)\<rparr> else w"
  have step: "andthen (lift (Inr x)) (\<lambda>x. if P x then tx_Delete kd (key x) else ret ()) w = (Inr (), ?w)"
    using Cons.prems(1) by (simp add: andthen_def lift_def tx_Delete_def stmt_def modify_def ret_def)
  show ?case
    using Cons.IH [of ?w] Cons.prems
    by (subst foreach_Cons_run [of _ d w ?w]) (simp_all add: x step)
qed

text \<open>
  When every row of the kind is stored under its own key, exactly the rows of the kind that
  satisfy the test are gone afterwards.
\<close>

lemma delete_loop_lookup:
  assumes "pk rs"
    and own: "\<And>i d. map_of rs (Key kd i) = Some d \<Longrightarrow> \<exists>x. as d = Inr x \<and> key x = i"
  shows "map_of (fold sql_delete
      (map (\<lambda>d. Key kd (key (projr (as d)))) (filter (\<lambda>d. P (projr (as d))) (map snd (sql_kind kd rs)))) rs) k =
    (case map_of rs k of
       None \<Rightarrow> None
     | Some d \<Rightarrow> if kind_of k = kd \<and> P (projr (as d)) then None else Some d)"
proof -
  have ownkey: "Key kd (key (projr (as d))) = k" if "(k, d) \<in> set (sql_kind kd rs)" for k d
  proof -
    have "kind_of k = kd" "map_of rs k = Some d"
      using that sql.listing_set [OF assms(1), of kd] by auto
    then have "k = Key kd (id_of k)" "map_of rs (Key kd (id_of k)) = Some d" by (cases k; simp)+
    with own [of "id_of k" d] show ?thesis by auto
  qed
  have "map (\<lambda>d. Key kd (key (projr (as d)))) (filter (\<lambda>d. P (projr (as d))) (map snd xs)) =
      map fst (filter (\<lambda>(k, d). P (projr (as d))) xs)" if "set xs \<subseteq> set (sql_kind kd rs)" for xs
    using that by (induction xs) (auto simp: ownkey)
  then show ?thesis
    using sql.purge_kind [OF assms(1), of "\<lambda>d. P (projr (as d))" kd k] by simp
qed

text \<open>Every row of the kind is of its type and stored under its own key.\<close>

definition own_rows :: "(doc \<Rightarrow> err + 'a) \<Rightarrow> ('a \<Rightarrow> string) \<Rightarrow> string \<Rightarrow> doc table \<Rightarrow> bool" where
  "own_rows as key kd rs \<longleftrightarrow>
     (\<forall>i d. map_of rs (Key kd i) = Some d \<longrightarrow> (\<exists>x. as d = Inr x \<and> key x = i))"

lemma own_rows_listed:
  "pk rs \<Longrightarrow> own_rows as key kd rs \<Longrightarrow> \<forall>d \<in> set (map snd (sql_kind kd rs)). \<exists>x. as d = Inr x"
proof
  fix d assume ok: "pk rs" "own_rows as key kd rs" "d \<in> set (map snd (sql_kind kd rs))"
  then obtain k where "kind_of k = kd" "map_of rs k = Some d"
    using sql.listing_set [OF ok(1), of kd] by auto
  then have "map_of rs (Key kd (id_of k)) = Some d" by (cases k) simp
  with ok(2) show "\<exists>x. as d = Inr x" unfolding own_rows_def by blast
qed

section \<open>Properties\<close>

text \<open>Purging an agent is complete and exact: with no driver fault and well-formed
  enrollment rows, it succeeds exactly if the agent exists, and then removes the agent, its
  credential index and every enrollment token issued for it, used, expired or not, and no
  other record.\<close>

theorem deleteAgent_exact:
  assumes "faults w = []" and "pk (rows w)" and "own_rows as_enrollment en_Hash ''enrollment'' (rows w)"
    and "map_of (rows w) (Key ''agents'' i) = Some (DAgent ag)"
  shows "\<exists>w'. deleteAgent i w = (Inr (), w') \<and>
    map_of (rows w') = (\<lambda>k.
      if k = Key ''agents'' i \<or> ag_Hash ag \<noteq> [] \<and> k = Key ''credentials'' (ag_Hash ag) then None
      else (case map_of (rows w) k of
          Some (DEnrollment en) \<Rightarrow>
            if kind_of k = ''enrollment'' \<and> en_AgentID en = i then None else Some (DEnrollment en)
        | d \<Rightarrow> d))"
proof -
  let ?ds = "map snd (sql_kind ''enrollment'' (rows w))"
  have types: "\<forall>d \<in> set ?ds. \<exists>x. as_enrollment d = Inr x"
    by (rule own_rows_listed [OF assms(2,3)])
  note loop = delete_loop_run [OF assms(1) types,
      where P = "\<lambda>en. en_AgentID en = i" and kd = "''enrollment''" and key = en_Hash]
  note look = delete_loop_lookup [OF assms(2) assms(3) [unfolded own_rows_def, rule_format],
      where P = "\<lambda>en. en_AgentID en = i"]
  have type: "\<exists>en. d = DEnrollment en" if "map_of (rows w) k = Some d" "kind_of k = ''enrollment''" for k d
    using that assms(3) by (cases k) (auto simp: own_rows_def)
  have got: "get_as as_agent ''agents'' i w = (Inr ag, w)"
    using assms(1,4) by (simp add: runs)
  have listed: "tx_List ''enrollment'' w = (Inr ?ds, w)"
    using assms(1) by (simp add: runs)
  let ?loop = "foreach ?ds (\<lambda>d. andthen (lift (as_enrollment d)) (\<lambda>en.
      if en_AgentID en = i then tx_Delete ''enrollment'' (en_Hash en) else ret ()))"
  obtain w1 where w1: "?loop w = (Inr (), w1)" "faults w1 = []" and
    rows1: "map_of (rows w1) k = (case map_of (rows w) k of None \<Rightarrow> None
      | Some d \<Rightarrow> if kind_of k = ''enrollment'' \<and> en_AgentID (projr (as_enrollment d)) = i
          then None else Some d)" for k
    using loop look assms(1) by simp
  show ?thesis
    unfolding deleteAgent_def andthen_Inr [of "get_as as_agent ''agents'' i" w ag w, OF got]
      andthen_Inr [of "tx_List ''enrollment''" w ?ds w, OF listed] andthen_Inr [of ?loop w "()" w1, OF w1(1)]
    using w1(2)
    by (auto simp: andthen_def runs ret_def row_simps rows1 fun_eq_iff
        split: option.split doc.split dest: type)
qed

lemma deleteAgent_exact_witness:
  "\<exists>w'. deleteAgent ''a1'' (demo_state demo_rows) = (Inr (), w') \<and>
    map_of (rows w') (Key ''credentials'' (Hash demo_senv ''t'')) = None"
proof -
  have ag: "map_of (rows (demo_state demo_rows)) (Key ''agents'' ''a1'') = Some (DAgent demo_agent)"
    by (simp add: demo_rows_def)
  have "pk (rows (demo_state demo_rows))"
    "own_rows as_enrollment en_Hash ''enrollment'' (rows (demo_state demo_rows))"
    by (simp_all add: demo_rows_def own_rows_def)
  from deleteAgent_exact [OF _ this ag] show ?thesis
    by (auto simp: demo_agent_def demo_hash)
qed


text \<open>A password change or a deleted administrator leaves no session of that name: with
  no driver fault and well-formed session rows, \<open>deleteSessions\<close> succeeds, removes every
  session of the name and no other record.\<close>

theorem deleteSessions_exact:
  assumes "faults w = []" and "pk (rows w)" and "own_rows as_session se_Hash ''sessions'' (rows w)"
  shows "\<exists>w'. deleteSessions name w = (Inr (), w') \<and>
    map_of (rows w') = (\<lambda>k. case map_of (rows w) k of
        Some (DSession s) \<Rightarrow> if kind_of k = ''sessions'' \<and> se_Admin s = name then None else Some (DSession s)
      | d \<Rightarrow> d)"
proof -
  let ?ds = "map snd (sql_kind ''sessions'' (rows w))"
  have types: "\<forall>d \<in> set ?ds. \<exists>x. as_session d = Inr x"
    by (rule own_rows_listed [OF assms(2,3)])
  have list: "tx_List ''sessions'' w = (Inr ?ds, w)"
    using assms(1) by (simp add: tx_List_def stmt_def gets_def)
  note loop = delete_loop_run [OF assms(1) types,
      where P = "\<lambda>s. se_Admin s = name" and kd = "''sessions''" and key = se_Hash]
  note look = delete_loop_lookup [OF assms(2) assms(3) [unfolded own_rows_def, rule_format],
      where P = "\<lambda>s. se_Admin s = name"]
  have type: "\<exists>s. d = DSession s" if "map_of (rows w) k = Some d" "kind_of k = ''sessions''" for k d
    using that assms(3) by (cases k) (auto simp: own_rows_def)
  show ?thesis
    unfolding deleteSessions_def andthen_Inr [of "tx_List ''sessions''" w ?ds w, OF list] loop
    by (auto simp: look fun_eq_iff split: option.split doc.split dest: type)
qed

lemma deleteSessions_exact_witness:
  "\<exists>w'. deleteSessions ''root'' (demo_state demo_rows) = (Inr (), w') \<and>
    map_of (rows w') (Key ''sessions'' (Hash demo_senv ''t'')) = None"
proof -
  have "pk (rows (demo_state demo_rows))"
    "own_rows as_session se_Hash ''sessions'' (rows (demo_state demo_rows))"
    by (simp_all add: demo_rows_def own_rows_def demo_session_def)
  from deleteSessions_exact [OF _ this, of "''root''"] show ?thesis
    by (auto simp: demo_rows_def demo_session_def)
qed

text \<open>C38: A download that ends normally is the whole log: if later queries see, up to the
  upper id, the records of the first one, the download always ends, a complete one sent every
  audit record present at its start once and in the order of the ids, an aborted one a prefix
  of them, and a connection without errors always completes.\<close>

theorem download_whole_log:
  assumes "pk rs" and "snap 0 = Inr rs" and "appends_above ''audit'' snap rs"
  shows "\<exists>d. downloadAudit snap n = Some d \<and>
    (case d of
       Complete ds \<Rightarrow> ds = audit_log rs
     | Aborted ds \<Rightarrow> prefix ds (audit_log rs) \<and> n \<noteq> clear_wire
     | Unavailable \<Rightarrow> n \<noteq> clear_wire)"
proof -
  let ?start = "\<lparr>visited = 0, started = False, sent = []\<rparr>"
  obtain e st where run: "visit_all (\<lambda>st. cancelled n (visited st)) (send_record n) (audit_log rs) ?start = (e, st)"
    by fastforce
  have scan: "Scan snap (\<lambda>st. cancelled n (visited st)) (send_record n) ''audit'' ?start = Some (e, st)"
    unfolding Scan_visits [OF assms] run [unfolded audit_log_def] ..
  have "n \<noteq> clear_wire" if "e = Some e'" for e'
    using run that clear_wire_completes [of "audit_log rs" ?start] by auto
  moreover have "sent st = audit_log rs" if "e = None"
    using send_all_sent [of _ n "audit_log rs" ?start st] run that by simp
  moreover have "prefix (sent st) (audit_log rs)"
    using send_all_prefix [OF run] by (auto simp: take_is_prefix)
  ultimately show ?thesis
    by (cases e) (simp_all add: downloadAudit_def scan)
qed

lemma download_whole_log_witness:
  "\<exists>d. downloadAudit (\<lambda>_. Inr [(Key ''audit'' ''1'', DIndex ''x'')]) clear_wire = Some d \<and>
     (case d of Complete ds \<Rightarrow> ds = audit_log [(Key ''audit'' ''1'', DIndex ''x'')] | _ \<Rightarrow> False)"
proof -
  let ?rs = "[(Key ''audit'' ''1'', DIndex ''x'')]"
  have "appends_above ''audit'' (\<lambda>_. Inr ?rs) ?rs" by (simp add: appends_above_def)
  from download_whole_log [OF _ _ this, of clear_wire] show ?thesis
    by (auto split: download.splits)
qed

end
