(* ===== verification/Routes.thy ===== *)
theory Routes
  imports Writers Maintenance
begin

text \<open>
  The API's endpoints (\<open>route\<close> in internal/server/server.go), one definition per case of the
  route, and the route that selects them.
\<close>

section \<open>Login and enrollment\<close>

text \<open>\<open>if !s.limit() { return fail(&apiError{429, ...}) }\<close>.\<close>

definition limited :: "senv \<Rightarrow> 'a handler \<Rightarrow> 'a handler" where
  "limited E m =
     andthen (limit E) (\<lambda>allowed. if \<not> allowed then throw (ApiError 429 ''try again later'') else m)"

record credentials =
  cr_Name :: string
  cr_Password :: string

definition credentials_struct :: "string \<Rightarrow> json \<Rightarrow> credentials \<Rightarrow> credentials option" where
  "credentials_struct =
     field ''name'' set_string cr_Name (\<lambda>a. cr_Name_update (\<lambda>_. a))
     (field ''password'' set_string cr_Password (\<lambda>a. cr_Password_update (\<lambda>_. a)) no_field)"

text \<open>A struct with the one string field \<open>name\<close>.\<close>

definition string_struct :: "string \<Rightarrow> string \<Rightarrow> json \<Rightarrow> string \<Rightarrow> string option" where
  "string_struct name = field name set_string (\<lambda>x. x) (\<lambda>a x. a) no_field"

definition session_cookie :: "string \<Rightarrow> time \<Rightarrow> int \<Rightarrow> set_cookie" where
  "session_cookie v expires age =
     \<lparr>ck_Name = ''ssm_session'', ck_Value = v, ck_Path = ''/'', ck_Secure = True, ck_HttpOnly = True,
      ck_SameSite = ''Strict'', ck_Expires = expires, ck_MaxAge = age\<rparr>"

definition h_login :: "senv \<Rightarrow> request \<Rightarrow> answer handler" where
  "h_login E r =
     limited E (
     andthen (lift (decode r credentials_struct \<lparr>cr_Name = [], cr_Password = []\<rparr>)) (\<lambda>inp.
     andthen (attempt (get_as as_admin ''admins'' (cr_Name inp))) (\<lambda>got. case got of
       Inl _ \<Rightarrow> throw ErrUnauth
     | Inr a \<Rightarrow>
         if \<not> bcrypt_match E (ad_Password a) (cr_Password inp) then throw ErrUnauth
         else andthen (set_identity (''admin:'' @ ad_Name a)) (\<lambda>_.
           andthen (fresh_token E) (\<lambda>token.
           andthen (fresh_token E) (\<lambda>csrf.
           andthen (now E) (\<lambda>t.
           let session = \<lparr>se_Hash = Hash E token, se_Admin = ad_Name a, se_CSRF = csrf,
                          se_Expires = t + SessionTTL E\<rparr>
           in andthen (tx_Put ''sessions'' (Hash E token) (DSession session)) (\<lambda>_.
              ret (RSession session, 200, Some (session_cookie token (se_Expires session) 0)))))))))) "

definition h_enroll :: "senv \<Rightarrow> request \<Rightarrow> answer handler" where
  "h_enroll E r =
     limited E (
     andthen (lift (decode r (string_struct ''token'') [])) (\<lambda>inp.
     andthen (attempt (get_as as_enrollment ''enrollment'' (Hash E inp))) (\<lambda>got. case got of
       Inl _ \<Rightarrow> throw ErrUnauth
     | Inr en \<Rightarrow>
         if en_Used en then throw ErrUnauth
         else andthen (now E) (\<lambda>t.
           if \<not> t < en_Expires en then throw ErrUnauth
           else andthen (attempt (get_as as_agent ''agents'' (en_AgentID en))) (\<lambda>got. case got of
             Inl _ \<Rightarrow> throw ErrUnauth
           | Inr a \<Rightarrow>
               if ag_Revoked a \<or> ag_Hash a \<noteq> [] then throw ErrUnauth
               else andthen (fresh_token E) (\<lambda>token.
                 let a = a\<lparr>ag_Hash := Hash E token\<rparr>; en = en\<lparr>en_Used := True\<rparr> in
                 andthen (set_identity (''agent:'' @ ag_ID a)) (\<lambda>_.
                 andthen (tx_Put ''agents'' (ag_ID a) (DAgent a)) (\<lambda>_.
                 andthen (tx_Put ''credentials'' (ag_Hash a) (DIndex (ag_ID a))) (\<lambda>_.
                 andthen (tx_Put ''enrollment'' (en_Hash en) (DEnrollment en)) (\<lambda>_.
                 ok (REnrolled (ag_ID a) token)))))))))))"

section \<open>The vault and the master key\<close>

definition h_unlock :: "senv \<Rightarrow> request \<Rightarrow> answer handler" where
  "h_unlock E r =
     limited E (
     andthen (lift (decode r (string_struct ''master'') [])) (\<lambda>master.
     andthen (get_as as_envelope ''config'' ''envelope'') (\<lambda>en.
     andthen (on_error (with_vault (Unlock E master en)) (\<lambda>_. ErrUnauth)) (\<lambda>_.
     ok (RLockedIs False)))))"

definition h_lock :: "answer handler" where
  "h_lock = andthen (with_vault Lock) (\<lambda>_. ok (RLockedIs True))"

record master_change =
  mc_Old :: string
  mc_New :: string

definition master_change_struct :: "string \<Rightarrow> json \<Rightarrow> master_change \<Rightarrow> master_change option" where
  "master_change_struct =
     field ''old'' set_string mc_Old (\<lambda>a. mc_Old_update (\<lambda>_. a))
     (field ''new'' set_string mc_New (\<lambda>a. mc_New_update (\<lambda>_. a)) no_field)"

definition h_master :: "senv \<Rightarrow> request \<Rightarrow> answer handler" where
  "h_master E r =
     limited E (
     andthen (lift (decode r master_change_struct \<lparr>mc_Old = [], mc_New = []\<rparr>)) (\<lambda>inp.
     andthen (get_as as_envelope ''config'' ''envelope'') (\<lambda>en.
     andthen (on_error (with_draws (Rewrap E (mc_Old inp) (mc_New inp) en))
        (\<lambda>_. bad ''master key change failed; verify old key and new key length'')) (\<lambda>en.
     andthen (tx_Put ''config'' ''envelope'' (DEnvelope en)) (\<lambda>_.
     ok (ROk True))))))"

section \<open>Lists\<close>

definition h_secrets :: "answer handler" where
  "h_secrets =
     andthen (list_as as_secret ''secrets'') (\<lambda>ss.
     ok (RSecrets (map (\<lambda>s. s\<lparr>sec_Ciphertext := []\<rparr>) (filter (\<lambda>s. \<not> sec_Deleted s) ss))))"

definition h_agents :: "answer handler" where
  "h_agents =
     andthen (list_as as_agent ''agents'') (\<lambda>ags.
     ok (RAgents (map (\<lambda>a. a\<lparr>ag_Hash := []\<rparr>) ags)))"

definition h_enrollments :: "answer handler" where
  "h_enrollments =
     andthen (list_as as_enrollment ''enrollment'') (\<lambda>ens.
     ok (REnrollments (map (\<lambda>en. en\<lparr>en_Hash := []\<rparr>) ens)))"

definition h_administrators :: "answer handler" where
  "h_administrators =
     andthen (list_as as_admin ''admins'') (\<lambda>ads. ok (RNames (map ad_Name ads)))"

definition h_audit :: "answer handler" where
  "h_audit = andthen (tx_List ''audit'') (\<lambda>ds. ok (RRows ds))"

section \<open>Agents\<close>

record new_agent =
  na_Name :: string
  na_Paths :: "string list"

definition new_agent_struct :: "string \<Rightarrow> json \<Rightarrow> new_agent \<Rightarrow> new_agent option" where
  "new_agent_struct =
     field ''name'' set_string na_Name (\<lambda>a. na_Name_update (\<lambda>_. a))
     (field ''paths'' set_strings na_Paths (\<lambda>a. na_Paths_update (\<lambda>_. a)) no_field)"

definition h_agent_create :: "senv \<Rightarrow> request \<Rightarrow> answer handler" where
  "h_agent_create E r =
     andthen (lift (decode r new_agent_struct \<lparr>na_Name = [], na_Paths = []\<rparr>)) (\<lambda>inp.
     if na_Name inp = [] then throw (bad ''name required'')
     else andthen (or_bad (ValidateRules (na_Paths inp))) (\<lambda>_.
       andthen (fresh_token E) (\<lambda>i.
       andthen (now E) (\<lambda>t.
       let a = \<lparr>ag_ID = i, ag_Name = na_Name inp, ag_Paths = na_Paths inp, ag_Hash = [],
                ag_Revoked = False, ag_Created = t\<rparr>
       in andthen (tx_Put ''agents'' (ag_ID a) (DAgent a)) (\<lambda>_. ok (RAgent a))))))"

definition paths_struct :: "string \<Rightarrow> json \<Rightarrow> string list \<Rightarrow> string list option" where
  "paths_struct = field ''paths'' set_strings (\<lambda>x. x) (\<lambda>a x. a) no_field"

definition h_agent_change :: "request \<Rightarrow> answer handler" where
  "h_agent_change r =
     andthen (get_as as_agent ''agents'' (TrimPrefix (UrlPath r) ''/api/v1/admin/agents/'')) (\<lambda>a.
     andthen (if Method r = ''DELETE'' then
           andthen (if ag_Hash a \<noteq> [] then tx_Delete ''credentials'' (ag_Hash a) else ret ()) (\<lambda>_.
           ret (a\<lparr>ag_Revoked := True\<rparr>))
         else if Method r = ''PUT'' then
           andthen (lift (decode r paths_struct [])) (\<lambda>paths.
           andthen (or_bad (ValidateRules paths)) (\<lambda>_.
           ret (a\<lparr>ag_Paths := paths\<rparr>)))
         else throw method_not_allowed) (\<lambda>a.
     andthen (tx_Put ''agents'' (ag_ID a) (DAgent a)) (\<lambda>_.
     ok (RAgent (a\<lparr>ag_Hash := []\<rparr>)))))"

definition h_agent_purge :: "request \<Rightarrow> answer handler" where
  "h_agent_purge r =
     andthen (deleteAgent (TrimSuffix (TrimPrefix (UrlPath r) ''/api/v1/admin/agents/'') ''/purge'')) (\<lambda>_.
     ok (ROk True))"

section \<open>Enrollment tokens\<close>

record new_enrollment =
  ne_AgentID :: string
  ne_TTL :: int64

definition new_enrollment_struct :: "string \<Rightarrow> json \<Rightarrow> new_enrollment \<Rightarrow> new_enrollment option" where
  "new_enrollment_struct =
     field ''agent_id'' set_string ne_AgentID (\<lambda>a. ne_AgentID_update (\<lambda>_. a))
     (field ''ttl_seconds'' set_int ne_TTL (\<lambda>a. ne_TTL_update (\<lambda>_. a)) no_field)"

text \<open>\<open>time.Duration(in.TTL) * time.Second\<close> multiplies 64-bit integers.\<close>

definition ttl_duration :: "int64 \<Rightarrow> int" where
  "ttl_duration ttl = sint (ttl * 1000000000)"

definition h_enrollment_create :: "senv \<Rightarrow> request \<Rightarrow> answer handler" where
  "h_enrollment_create E r =
     andthen (lift (decode r new_enrollment_struct \<lparr>ne_AgentID = [], ne_TTL = 0\<rparr>)) (\<lambda>inp.
     if sint (ne_TTL inp) < 1 \<or> sint (ne_TTL inp) > 86400
     then throw (bad ''TTL must be 1..86400 seconds'')
     else andthen (get_as as_agent ''agents'' (ne_AgentID inp)) (\<lambda>a.
       if ag_Revoked a \<or> ag_Hash a \<noteq> [] then throw (bad ''agent already enrolled or revoked'')
       else andthen (fresh_token E) (\<lambda>token.
         andthen (fresh_token E) (\<lambda>i.
         andthen (now E) (\<lambda>t.
         let en = \<lparr>en_ID = i, en_AgentID = ag_ID a, en_Hash = Hash E token,
                   en_Expires = t + ttl_duration (ne_TTL inp), en_Used = False\<rparr>
         in andthen (tx_Put ''enrollment'' (en_Hash en) (DEnrollment en)) (\<lambda>_.
            ok (RNewEnrollment token (en_ID en) (en_AgentID en) (en_Expires en))))))))"

text \<open>The loop over the stored tokens, which returns at the first with the id.\<close>

fun revoke_enrollment :: "string \<Rightarrow> doc list \<Rightarrow> answer handler" where
  "revoke_enrollment i [] = throw ErrNotFound"
| "revoke_enrollment i (d # ds) =
     andthen (lift (as_enrollment d)) (\<lambda>en.
     if en_ID en = i then andthen (tx_Delete ''enrollment'' (en_Hash en)) (\<lambda>_. ok (ROk True))
     else revoke_enrollment i ds)"

definition h_enrollment_delete :: "request \<Rightarrow> answer handler" where
  "h_enrollment_delete r =
     andthen (tx_List ''enrollment'') (\<lambda>ds.
     revoke_enrollment (TrimPrefix (UrlPath r) ''/api/v1/admin/enrollment/'') ds)"

section \<open>Administrators\<close>

text \<open>\<open>bcrypt.GenerateFromPassword\<close> draws its own salt.\<close>

definition bcrypt_hash :: "senv \<Rightarrow> string \<Rightarrow> string handler" where
  "bcrypt_hash E password =
     with_draws (\<lambda>i. case bcrypt_gen E i password of
        None \<Rightarrow> (Inl (ErrText ''bcrypt''), i)
      | Some h \<Rightarrow> (Inr h, Suc i))"

definition h_administrator_put :: "senv \<Rightarrow> request \<Rightarrow> answer handler" where
  "h_administrator_put E r =
     andthen (lift (decode r credentials_struct \<lparr>cr_Name = [], cr_Password = []\<rparr>)) (\<lambda>inp.
     if cr_Name inp = [] \<or> length (cr_Password inp) < 12
     then throw (bad ''name and password of at least 12 characters required'')
     else andthen (on_error (bcrypt_hash E (cr_Password inp)) (\<lambda>_. bad ''invalid password length'')) (\<lambda>h.
       andthen (tx_Put ''admins'' (cr_Name inp)
         (DAdmin \<lparr>ad_Name = cr_Name inp, ad_Password = h\<rparr>)) (\<lambda>_.
       andthen (deleteSessions (cr_Name inp)) (\<lambda>_.
       ok (ROk True)))))"

definition h_administrator_delete :: "request \<Rightarrow> session \<Rightarrow> answer handler" where
  "h_administrator_delete r s =
     (let name = TrimPrefix (UrlPath r) ''/api/v1/admin/administrators/'' in
      if name = se_Admin s then throw (bad ''cannot delete your own administrator'')
      else andthen (tx_Delete ''admins'' name) (\<lambda>_.
        andthen (deleteSessions name) (\<lambda>_.
        ok (ROk True))))"

definition h_logout :: "senv \<Rightarrow> request \<Rightarrow> answer handler" where
  "h_logout E r =
     andthen (tx_Delete ''sessions''
        (Hash E (case cookie r ''ssm_session'' of None \<Rightarrow> [] | Some c \<Rightarrow> c))) (\<lambda>_.
     ret (ROk True, 200, Some (session_cookie [] 0 (- 1))))"

section \<open>Selecting the endpoint\<close>

definition admin_secret :: "senv \<Rightarrow> request \<Rightarrow> answer handler" where
  "admin_secret E r =
     (let p = TrimPrefix (UrlPath r) ''/api/v1/admin/secrets/'' in
      andthen (set_path p) (\<lambda>_. andthen (secret_handler E r p False) (\<lambda>v. ok v)))"

definition admin_route :: "senv \<Rightarrow> request \<Rightarrow> session \<Rightarrow> answer handler" where
  "admin_route E r session =
     (let p = UrlPath r; m = Method r in
      if p = writers_base \<or> HasPrefix p (writers_base @ ''/'')
        then andthen (manageWriteCredentials E r) (\<lambda>v. ok v)
      else if p = ''/api/v1/admin/session'' \<and> m = ''GET'' then ok (RSession session)
      else if p = ''/api/v1/admin/logout'' \<and> m = ''POST'' then h_logout E r
      else if p = ''/api/v1/admin/status'' \<and> m = ''GET''
        then andthen (gets Vault) (\<lambda>key. ok (RStatus (Version E) (Locked key)))
      else if p = ''/api/v1/admin/unlock'' \<and> m = ''POST'' then h_unlock E r
      else if p = ''/api/v1/admin/lock'' \<and> m = ''POST'' then h_lock
      else if p = ''/api/v1/admin/master'' \<and> m = ''POST'' then h_master E r
      else if p = ''/api/v1/admin/secrets'' \<and> m = ''GET'' then h_secrets
      else if p = ''/api/v1/admin/agents'' \<and> m = ''GET'' then h_agents
      else if p = ''/api/v1/admin/agents'' \<and> m = ''POST'' then h_agent_create E r
      else if p = ''/api/v1/admin/enrollment'' \<and> m = ''GET'' then h_enrollments
      else if p = ''/api/v1/admin/enrollment'' \<and> m = ''POST'' then h_enrollment_create E r
      else if p = ''/api/v1/admin/administrators'' \<and> m = ''GET'' then h_administrators
      else if p = ''/api/v1/admin/administrators'' \<and> m = ''POST'' then h_administrator_put E r
      else if p = ''/api/v1/admin/audit/download'' \<and> m = ''GET'' then ok RAuditDownload
      else if p = ''/api/v1/admin/audit'' \<and> m = ''GET'' then h_audit
      else if HasPrefix p ''/api/v1/admin/administrators/'' \<and> m = ''DELETE''
        then h_administrator_delete r session
      else if HasPrefix p ''/api/v1/admin/enrollment/'' \<and> m = ''DELETE'' then h_enrollment_delete r
      else if HasPrefix p ''/api/v1/admin/agents/'' \<and> HasSuffix p ''/purge'' \<and> m = ''DELETE''
        then h_agent_purge r
      else if HasPrefix p ''/api/v1/admin/agents/'' then h_agent_change r
      else if HasPrefix p ''/api/v1/admin/secrets/'' then admin_secret E r
      else throw (ApiError 405 ''unknown route or method''))"

definition h_admin :: "senv \<Rightarrow> request \<Rightarrow> answer handler" where
  "h_admin E r =
     andthen (authenticateAdmin E r) (\<lambda>(session, e).
     andthen (if se_Admin session \<noteq> [] then set_identity (''admin:'' @ se_Admin session) else ret ()) (\<lambda>_.
     case e of
       Some e \<Rightarrow> throw e
     | None \<Rightarrow>
         andthen (set_identity (''admin:'' @ se_Admin session)) (\<lambda>_. admin_route E r session)))"

definition h_agent :: "senv \<Rightarrow> request \<Rightarrow> answer handler" where
  "h_agent E r =
     (let metadata = HasPrefix (UrlPath r) ''/api/v1/metadata/'';
          raw = TrimPrefix (UrlPath r) (if metadata then ''/api/v1/metadata/'' else ''/api/v1/secrets/'') in
      andthen (authenticateAgent E r) (\<lambda>a.
      andthen (set_identity (''agent:'' @ ag_ID a)) (\<lambda>_.
      andthen (set_path raw) (\<lambda>_.
      andthen (or_bad (Normalize raw)) (\<lambda>normalized.
      andthen (set_path normalized) (\<lambda>_.
      if \<not> Allowed normalized (ag_Paths a) then throw ErrForbidden
      else if Method r \<noteq> ''GET'' then throw ErrForbidden
      else andthen (secret_handler E r normalized metadata) (\<lambda>v. ok v)))))))"

definition route :: "senv \<Rightarrow> request \<Rightarrow> answer handler" where
  "route E r =
     (let p = UrlPath r in
      if p = ''/api/v1/login'' \<and> Method r = ''POST'' then h_login E r
      else if p = ''/api/v1/enroll'' \<and> Method r = ''POST'' then h_enroll E r
      else if HasPrefix p ''/api/v1/admin/'' then h_admin E r
      else if HasPrefix p ''/api/v1/write/'' then andthen (writeSecret E r) (\<lambda>v. ok v)
      else if HasPrefix p ''/api/v1/metadata/'' \<or> HasPrefix p ''/api/v1/secrets/'' then h_agent E r
      else throw (ApiError 404 ''not found''))"

end
