(* ===== verification/Effects.thy ===== *)
theory Effects
  imports Routes
begin

text \<open>
  Which kinds of record each endpoint of the route can change, and that requests with a safe
  method change none. The bounds hold for every outcome and under every driver fault, so they
  also bound what a transaction could commit.
\<close>

section \<open>What each endpoint may touch\<close>

lemma limited_frame [steps]: "steps (same_outside K) m \<Longrightarrow> steps (same_outside K) (limited E m)"
  unfolding limited_def by (intro steps)

lemma revoke_enrollment_frame [steps]: "''enrollment'' \<in> K \<Longrightarrow> steps (same_outside K) (revoke_enrollment i ds)"
  by (induction ds) (simp, intro steps, simp, intro steps)

lemma bcrypt_hash_frame [steps]: "steps (same_outside K) (bcrypt_hash E password)"
  unfolding bcrypt_hash_def by (intro steps)

lemma deletions_frame [steps]:
  "''sessions'' \<in> K \<Longrightarrow> steps (same_outside K) (deleteSessions name)"
  "{''agents'', ''credentials'', ''enrollment''} \<subseteq> K \<Longrightarrow> steps (same_outside K) (deleteAgent i)"
  by (rule frame_weaken, rule deleteSessions_frame, simp) (rule frame_weaken, rule deleteAgent_frame)

lemmas endpoint_defs = h_login_def h_enroll_def h_unlock_def h_lock_def h_master_def h_secrets_def
  h_agents_def h_enrollments_def h_administrators_def h_audit_def h_agent_create_def h_agent_change_def
  h_agent_purge_def h_enrollment_create_def h_enrollment_delete_def h_administrator_put_def
  h_administrator_delete_def h_logout_def admin_secret_def

lemma endpoint_frames:
  "steps (same_outside {''sessions''}) (h_login E r)"
  "steps (same_outside {''agents'', ''credentials'', ''enrollment''}) (h_enroll E r)"
  "steps (same_outside {}) (h_unlock E r)"
  "steps (same_outside {}) h_lock"
  "steps (same_outside {''config''}) (h_master E r)"
  "steps (same_outside {}) h_secrets"
  "steps (same_outside {}) h_agents"
  "steps (same_outside {}) h_enrollments"
  "steps (same_outside {}) h_administrators"
  "steps (same_outside {}) h_audit"
  "steps (same_outside {''agents''}) (h_agent_create E r)"
  "steps (same_outside {''agents'', ''credentials''}) (h_agent_change r)"
  "steps (same_outside {''agents'', ''credentials'', ''enrollment''}) (h_agent_purge r)"
  "steps (same_outside {''enrollment''}) (h_enrollment_create E r)"
  "steps (same_outside {''enrollment''}) (h_enrollment_delete r)"
  "steps (same_outside {''admins'', ''sessions''}) (h_administrator_put E r)"
  "steps (same_outside {''admins'', ''sessions''}) (h_administrator_delete r s)"
  "steps (same_outside {''sessions''}) (h_logout E r)"
  "steps (same_outside {''secrets''}) (admin_secret E r)"
  unfolding endpoint_defs by (intro steps; simp)+

lemmas endpoint_weaken = endpoint_frames [THEN frame_weaken] manageWriteCredentials_frame [THEN frame_weaken]
  writeSecret_frame [THEN frame_weaken] secret_frame [THEN frame_weaken]

text \<open>With a safe method nothing is touched at all.\<close>

lemma safe_frames:
  assumes "safe_method r"
  shows "steps (same_outside {}) (manageWriteCredentials E r)"
    and "steps (same_outside {}) (secret_handler E r path metadata)"
  using assms
  unfolding writers_defs secret_handler_def secret_switch_def secret_read_def secret_write_def
    secret_delete_def
  by (intro steps; simp add: safe_method_def)+

lemma safe_agent_change:
  assumes "safe_method r"
  shows "steps (same_outside {}) (h_agent_change r)"
proof -
  have "Method r \<noteq> ''DELETE''" "Method r \<noteq> ''PUT''" using assms by (auto simp: safe_method_def)
  then show ?thesis
    by (intro stepsI) (simp add: h_agent_change_def wp same_outside_def split: option.split sum.split)
qed

lemma writeSecret_safe:
  assumes "safe_method r"
  shows "steps (same_outside {}) (writeSecret E r)"
proof -
  have "Method r \<noteq> ''POST''" using assms by (auto simp: safe_method_def)
  then show ?thesis
    unfolding writeSecret_def write_method_def by (intro steps; simp)
qed

text \<open>The kinds of record a request may change, by its method and path.\<close>

definition touched :: "request \<Rightarrow> string set" where
  "touched r =
     (let p = UrlPath r; at = (\<lambda>x. p = ''/api/v1/admin/'' @ x);
          below = (\<lambda>x. HasPrefix p (''/api/v1/admin/'' @ x)) in
      if safe_method r then {}
      else if p = ''/api/v1/login'' then {''sessions''}
      else if p = ''/api/v1/enroll'' then {''agents'', ''credentials'', ''enrollment''}
      else if HasPrefix p ''/api/v1/write/'' then {''secrets''}
      else if at ''write-credentials'' \<or> below ''write-credentials/'' then {''writers'', ''writer_tokens''}
      else if at ''logout'' then {''sessions''}
      else if at ''master'' then {''config''}
      else if at ''administrators'' \<or> below ''administrators/'' then {''admins'', ''sessions''}
      else if at ''enrollment'' \<or> below ''enrollment/'' then {''enrollment''}
      else if at ''agents'' then {''agents''}
      else if below ''agents/'' \<and> HasSuffix p ''/purge'' then {''agents'', ''credentials'', ''enrollment''}
      else if below ''agents/'' then {''agents'', ''credentials''}
      else if below ''secrets/'' then {''secrets''}
      else {})"

section \<open>The administrators' endpoints\<close>

text \<open>The selection and the table again, over what follows the common prefix of the path.\<close>

lemma admin_route_below:
  assumes "UrlPath r = ''/api/v1/admin/'' @ q"
  shows "admin_route E r s =
     (let m = Method r in
      if q = ''write-credentials'' \<or> HasPrefix q ''write-credentials/''
        then andthen (manageWriteCredentials E r) (\<lambda>v. ok v)
      else if q = ''session'' \<and> m = ''GET'' then ok (RSession s)
      else if q = ''logout'' \<and> m = ''POST'' then h_logout E r
      else if q = ''status'' \<and> m = ''GET''
        then andthen (gets Vault) (\<lambda>key. ok (RStatus (Version E) (Locked key)))
      else if q = ''unlock'' \<and> m = ''POST'' then h_unlock E r
      else if q = ''lock'' \<and> m = ''POST'' then h_lock
      else if q = ''master'' \<and> m = ''POST'' then h_master E r
      else if q = ''secrets'' \<and> m = ''GET'' then h_secrets
      else if q = ''agents'' \<and> m = ''GET'' then h_agents
      else if q = ''agents'' \<and> m = ''POST'' then h_agent_create E r
      else if q = ''enrollment'' \<and> m = ''GET'' then h_enrollments
      else if q = ''enrollment'' \<and> m = ''POST'' then h_enrollment_create E r
      else if q = ''administrators'' \<and> m = ''GET'' then h_administrators
      else if q = ''administrators'' \<and> m = ''POST'' then h_administrator_put E r
      else if q = ''audit/download'' \<and> m = ''GET'' then ok RAuditDownload
      else if q = ''audit'' \<and> m = ''GET'' then h_audit
      else if HasPrefix q ''administrators/'' \<and> m = ''DELETE'' then h_administrator_delete r s
      else if HasPrefix q ''enrollment/'' \<and> m = ''DELETE'' then h_enrollment_delete r
      else if HasPrefix q ''agents/'' \<and> HasSuffix (UrlPath r) ''/purge'' \<and> m = ''DELETE''
        then h_agent_purge r
      else if HasPrefix q ''agents/'' then h_agent_change r
      else if HasPrefix q ''secrets/'' then admin_secret E r
      else throw (ApiError 405 ''unknown route or method''))"
  unfolding admin_route_def Let_def assms writers_base_def
  by (simp only: HasPrefix_step append.simps list.inject simp_thms)

lemma touched_below:
  assumes "UrlPath r = ''/api/v1/admin/'' @ q" and "\<not> safe_method r"
  shows "touched r =
     (if q = ''write-credentials'' \<or> HasPrefix q ''write-credentials/'' then {''writers'', ''writer_tokens''}
      else if q = ''logout'' then {''sessions''}
      else if q = ''master'' then {''config''}
      else if q = ''administrators'' \<or> HasPrefix q ''administrators/'' then {''admins'', ''sessions''}
      else if q = ''enrollment'' \<or> HasPrefix q ''enrollment/'' then {''enrollment''}
      else if q = ''agents'' then {''agents''}
      else if HasPrefix q ''agents/'' \<and> HasSuffix (UrlPath r) ''/purge''
        then {''agents'', ''credentials'', ''enrollment''}
      else if HasPrefix q ''agents/'' then {''agents'', ''credentials''}
      else if HasPrefix q ''secrets/'' then {''secrets''}
      else {})"
  using assms(2) unfolding touched_def Let_def assms(1)
  by (simp add: HasPrefix_step)

lemma steps_if_pos: "(c \<Longrightarrow> steps R a) \<Longrightarrow> steps R b \<Longrightarrow> steps R (if c then a else b)"
  by simp

lemma admin_route_frame:
  assumes "HasPrefix (UrlPath r) ''/api/v1/admin/''"
  shows "steps (same_outside (touched r)) (admin_route E r s)"
proof (cases "safe_method r")
  case True
  then have t: "touched r = {}" by (simp add: touched_def)
  from True show ?thesis
    unfolding admin_route_def t Let_def admin_secret_def
    by (intro steps safe_frames safe_agent_change endpoint_frames; (simp add: safe_method_def)?)
next
  case False
  obtain q where q: "UrlPath r = ''/api/v1/admin/'' @ q" using assms by (rule HasPrefixE)
  show ?thesis
    unfolding admin_route_below [OF q] touched_below [OF q False] Let_def
    by (intro steps_if_pos frame.steps_andthen frame.steps_pure frame.steps_effects endpoint_weaken)
       (auto simp: HasPrefix_step elim!: HasPrefixE)
qed

lemma h_agent_frame: "steps (same_outside {}) (h_agent E r)"
  unfolding h_agent_def Let_def
  by (intro steps safe_frames; (simp add: safe_method_def)?)

section \<open>What the answers hold\<close>

text \<open>
  An answer gives nothing away that is meant to stay in the store: no ciphertext, no hash of
  an agent's or writer's credential, no hash of an enrollment token. Administrators are
  listed by name, and the rows of the audit log are the only documents handed out whole.
\<close>

fun discreet :: "reply \<Rightarrow> bool" where
  "discreet (RSecret s) \<longleftrightarrow> sec_Ciphertext s = []"
| "discreet (RSecrets ss) \<longleftrightarrow> list_all (\<lambda>s. sec_Ciphertext s = [] \<and> \<not> sec_Deleted s) ss"
| "discreet (RAgent a) \<longleftrightarrow> ag_Hash a = []"
| "discreet (RAgents as) \<longleftrightarrow> list_all (\<lambda>a. ag_Hash a = []) as"
| "discreet (REnrollments es) \<longleftrightarrow> list_all (\<lambda>e. en_Hash e = []) es"
| "discreet (RWriter c) \<longleftrightarrow> wc_Hash c = []"
| "discreet (RWriters cs) \<longleftrightarrow> list_all (\<lambda>c. wc_Hash c = []) cs"
| "discreet (RNewWriter c token) \<longleftrightarrow> wc_Hash c = []"
| "discreet v \<longleftrightarrow> True"

text \<open>The answers that hold a session, a token, a value or documents belong to one endpoint each.\<close>

abbreviation asks_for :: "request \<Rightarrow> string \<Rightarrow> string \<Rightarrow> bool" where
  "asks_for r m p \<equiv> Method r = m \<and> UrlPath r = p"

fun entitled :: "request \<Rightarrow> reply \<Rightarrow> bool" where
  "entitled r (RSession s) \<longleftrightarrow> asks_for r ''POST'' ''/api/v1/login'' \<or> asks_for r ''GET'' ''/api/v1/admin/session''"
| "entitled r (REnrolled i token) \<longleftrightarrow> asks_for r ''POST'' ''/api/v1/enroll''"
| "entitled r (RNewEnrollment token i a t) \<longleftrightarrow> asks_for r ''POST'' ''/api/v1/admin/enrollment''"
| "entitled r (RNewWriter c token) \<longleftrightarrow> asks_for r ''POST'' ''/api/v1/admin/write-credentials''"
| "entitled r (RValue x p n c u) \<longleftrightarrow> Method r = ''GET'' \<and>
     (HasPrefix (UrlPath r) ''/api/v1/secrets/'' \<or> HasPrefix (UrlPath r) ''/api/v1/admin/secrets/'')"
| "entitled r (RRows ds) \<longleftrightarrow> asks_for r ''GET'' ''/api/v1/admin/audit''"
| "entitled r RAuditDownload \<longleftrightarrow> asks_for r ''GET'' ''/api/v1/admin/audit/download''"
| "entitled r v \<longleftrightarrow> True"

definition plain :: "request \<Rightarrow> reply \<Rightarrow> bool" where
  "plain r v \<longleftrightarrow> discreet v \<and> entitled r v"

text \<open>Every answer of the route has code 200.\<close>

definition proper :: "request \<Rightarrow> answer \<Rightarrow> bool" where
  "proper r = (\<lambda>(v, code, ck). plain r v \<and> code = 200)"

lemma proper_simp [simp]: "proper r (v, code, ck) \<longleftrightarrow> plain r v \<and> code = 200"
  by (simp add: proper_def)

lemma answers_ok [answers]: "plain r v \<Longrightarrow> answers (proper r) (ok v)"
  unfolding ok_def by (rule answers_ret) simp

lemma secret_answers:
  assumes "Method r = ''GET'' \<Longrightarrow> \<not> metadata \<Longrightarrow> \<forall>x p n c u. entitled r0 (RValue x p n c u)"
  shows "answers (plain r0) (secret_handler E r path metadata)"
  unfolding secret_handler_def secret_switch_def secret_read_def secret_write_def secret_delete_def
  by (intro answers answers_andthen) (use assms in \<open>simp_all add: plain_def\<close>)

lemma manageWriteCredentials_answers: "answers (plain r) (manageWriteCredentials E r)"
  unfolding writers_defs by (intro answers answers_andthen) (simp_all add: list_all_iff plain_def writers_base_def)

lemma writeSecret_answers: "answers (plain r) (writeSecret E r)"
proof -
  have "answers (\<lambda>m. m = ''POST'' \<or> m = ''PUT'') (write_method c p)" for c p
    unfolding write_method_def by (intro answers answers_andthen) auto
  then have to_handler: "answers (plain r) (andthen (write_method c p) (\<lambda>m. secret_handler E (r\<lparr>Method := m\<rparr>) p False))" for c p
    by (rule answers_through) (auto intro: secret_answers)
  show ?thesis
    unfolding writeSecret_def Let_def by (rule to_handler answers_if answers_throw answers_andthen)+
qed

lemma revoke_enrollment_answers: "answers (proper r) (revoke_enrollment i ds)"
  by (induction ds) (simp, intro answers, simp, intro answers answers_andthen, simp add: plain_def)

lemma endpoint_answers:
  "answers (proper r) (h_unlock E r)" "answers (proper r) h_lock" "answers (proper r) (h_master E r)"
  "answers (proper r) h_secrets" "answers (proper r) h_agents" "answers (proper r) h_enrollments"
  "answers (proper r) h_administrators" "answers (proper r) (h_agent_create E r)" "answers (proper r) (h_agent_change r)"
  "answers (proper r) (h_agent_purge r)" "answers (proper r) (h_enrollment_delete r)"
  "answers (proper r) (h_administrator_put E r)" "answers (proper r) (h_administrator_delete r s)"
  "answers (proper r) (h_logout E r)"
  "asks_for r ''POST'' ''/api/v1/login'' \<Longrightarrow> answers (proper r) (h_login E r)"
  "asks_for r ''POST'' ''/api/v1/enroll'' \<Longrightarrow> answers (proper r) (h_enroll E r)"
  "asks_for r ''GET'' ''/api/v1/admin/audit'' \<Longrightarrow> answers (proper r) h_audit"
  "asks_for r ''POST'' ''/api/v1/admin/enrollment'' \<Longrightarrow> answers (proper r) (h_enrollment_create E r)"
  unfolding endpoint_defs limited_def
  by (intro answers answers_andthen revoke_enrollment_answers; simp add: list_all_iff plain_def)+

lemma through_answers:
  "HasPrefix (UrlPath r) ''/api/v1/admin/secrets/'' \<Longrightarrow> answers (proper r) (admin_secret E r)"
  "HasPrefix (UrlPath r) ''/api/v1/metadata/'' \<or> HasPrefix (UrlPath r) ''/api/v1/secrets/'' \<Longrightarrow> answers (proper r) (h_agent E r)"
  "answers (proper r) (andthen (writeSecret E r) (\<lambda>v. ok v))"
  "answers (proper r) (andthen (manageWriteCredentials E r) (\<lambda>v. ok v))"
proof -
  have through: "answers (plain r) m \<Longrightarrow> answers (proper r) (andthen m (\<lambda>v. ok v))" for m
    by (erule answers_through) (rule answers_ok)
  show "answers (proper r) (admin_secret E r)" if "HasPrefix (UrlPath r) ''/api/v1/admin/secrets/''"
    unfolding admin_secret_def Let_def by (intro answers_andthen through secret_answers) (simp add: that)
  show "answers (proper r) (h_agent E r)"
    if "HasPrefix (UrlPath r) ''/api/v1/metadata/'' \<or> HasPrefix (UrlPath r) ''/api/v1/secrets/''"
    unfolding h_agent_def Let_def
    by (intro answers_if answers_throw answers_andthen through secret_answers) (use that in simp)
  show "answers (proper r) (andthen (writeSecret E r) (\<lambda>v. ok v))"
    by (rule through [OF writeSecret_answers])
  show "answers (proper r) (andthen (manageWriteCredentials E r) (\<lambda>v. ok v))"
    by (rule through [OF manageWriteCredentials_answers])
qed

lemma route_answers: "answers (proper r) (route E r)"
  unfolding route_def h_admin_def admin_route_def Let_def
  by (intro answers_if through_answers endpoint_answers answers answers_andthen) (simp_all add: plain_def)

section \<open>What the route touches\<close>

lemma route_frame: "steps (same_outside (touched r)) (route E r)"
proof (cases "safe_method r")
  case True
  then have t: "touched r = {}" by (simp add: touched_def)
  from True admin_route_frame [of r E] show ?thesis
    unfolding route_def t Let_def h_admin_def
    by (intro steps h_agent_frame writeSecret_safe; (simp add: safe_method_def)?)
next
  case False
  then show ?thesis
    unfolding route_def Let_def h_admin_def
    by (intro steps admin_route_frame endpoint_weaken h_agent_frame [THEN frame_weaken])
       (auto simp: touched_def HasPrefix_step Let_def elim!: HasPrefixE)
qed

section \<open>Properties\<close>

text \<open>Every request stays within the record kinds of its endpoint, whatever its outcome
  and under every driver fault: a GET or HEAD request changes no record; the audit log is
  never touched by a route; only the secret endpoints touch secrets, only the master-key
  endpoint the envelope, only the administrator endpoints administrators, and so on.\<close>

theorem route_touches:
  "wpre (route E r) (\<lambda>x w'. same_outside (touched r) w w') w"
  by (rule steps_wpre [OF route_frame])

end
