(* ===== verification/Server.thy ===== *)
theory Server
  imports Effects
begin

text \<open>
  A whole HTTP request (\<open>ServeHTTP\<close> in internal/server/server.go): transport and origin
  checks, the route in one transaction, the audit records in a second one, the answer; the
  embedded user interface (internal/server/ui.go); and the offline \<open>Setup\<close>.
\<close>

section \<open>Responses\<close>

datatype body =
    NoBody
  | JError string
  | JOk bool
  | JReply reply
  | Text string
  | Streamed "download option"

record response =
  re_Status :: int
  re_Headers :: "(string \<times> string) list"
  re_Cookie :: "set_cookie option"
  re_Body :: body

definition quoted :: "string \<Rightarrow> string" where
  "quoted s = [CHR 0x27] @ s @ [CHR 0x27]"

definition base_headers :: "(string \<times> string) list" where
  "base_headers =
     [(''Cache-Control'', ''no-store''),
      (''X-Content-Type-Options'', ''nosniff''),
      (''Referrer-Policy'', ''no-referrer''),
      (''Content-Security-Policy'',
       ''default-src '' @ quoted ''self'' @ ''; script-src '' @ quoted ''self'' @
       ''; style-src '' @ quoted ''self'' @ ''; frame-ancestors '' @ quoted ''none'' @
       ''; base-uri '' @ quoted ''none'' @ ''; form-action '' @ quoted ''self'')]"

definition tls_headers :: "(string \<times> string) list" where
  "tls_headers = base_headers @ [(''Strict-Transport-Security'', ''max-age=31536000'')]"

text \<open>\<open>write\<close>: a status and a JSON body.\<close>

definition write_json :: "(string \<times> string) list \<Rightarrow> int \<Rightarrow> body \<Rightarrow> response" where
  "write_json hs code b =
     \<lparr>re_Status = code, re_Headers = hs @ [(''Content-Type'', ''application/json'')],
      re_Cookie = None, re_Body = b\<rparr>"

section \<open>The user interface\<close>

definition ui :: "senv \<Rightarrow> request \<Rightarrow> response" where
  "ui E r =
     (if Method r \<noteq> ''GET''
      then \<lparr>re_Status = 405, re_Headers = tls_headers, re_Cookie = None, re_Body = NoBody\<rparr>
      else
        (let p = UrlPath r;
             script = (p = ''/app.js'' \<or> p = ''/browse.js'');
             file = (if p = ''/style.css'' then ''style.css''
                     else if script then TrimPrefix p ''/'' else ''index.html'');
             mime = (if p = ''/style.css'' then ''text/css''
                     else if script then ''application/javascript'' else ''text/html; charset=utf-8'')
         in case Assets E (''web/'' @ file) of
              None \<Rightarrow> \<lparr>re_Status = 500, re_Headers = tls_headers, re_Cookie = None, re_Body = NoBody\<rparr>
            | Some b \<Rightarrow>
                \<lparr>re_Status = 200, re_Headers = tls_headers @ [(''Content-Type'', mime)], re_Cookie = None,
                 re_Body = Text (ReplaceAll ''{{VERSION}}'' (Version E) b)\<rparr>))"

section \<open>Auditing\<close>

definition audit_id :: "senv \<Rightarrow> string handler" where
  "audit_id E =
     andthen (now E) (\<lambda>t. andthen (fresh_token E) (\<lambda>k. ret (RFC3339Nano t @ ''-'' @ k)))"

text \<open>
  The two records of a request, written in a transaction of their own: what was asked for,
  and whether the caller was somebody.
\<close>

definition write_audit :: "senv \<Rightarrow> request \<Rightarrow> audit \<Rightarrow> unit handler" where
  "write_audit E r a =
     andthen (audit_id E) (\<lambda>i.
     andthen (tx_Put ''audit'' i (DAudit a)) (\<lambda>_.
     andthen (now E) (\<lambda>t.
     let authentication = \<lparr>au_Time = t, au_Identity = au_Identity a, au_Path = [],
            au_Operation = ''authentication'', au_Success = (au_Identity a \<noteq> ''anonymous''),
            au_Source = RemoteAddr r\<rparr>
     in andthen (audit_id E) (\<lambda>j.
        tx_Put ''audit'' j (DAudit authentication)))))"

definition record_audit :: "senv \<Rightarrow> request \<Rightarrow> bool \<Rightarrow> unit handler" where
  "record_audit E r success =
     andthen (now E) (\<lambda>t.
     andthen (gets identity) (\<lambda>who.
     andthen (gets apath) (\<lambda>p.
     Update (write_audit E r
       \<lparr>au_Time = t, au_Identity = who, au_Path = p,
        au_Operation = Method r @ '' '' @ UrlPath r, au_Success = success,
        au_Source = RemoteAddr r\<rparr>))))"

section \<open>ServeHTTP\<close>

text \<open>
  While the audit log is streamed, other connections may commit: \<open>seen\<close> gives the tables the
  queries of the download see, \<open>conn\<close> what the connection does.
\<close>

record streaming =
  seen :: "doc table \<Rightarrow> doc snapshots"
  conn :: wire

definition download_response :: "senv \<Rightarrow> streaming \<Rightarrow> response handler" where
  "download_response E dl =
     andthen (now E) (\<lambda>t.
     andthen (gets rows) (\<lambda>rs.
     let out = downloadAudit (seen dl rs) (conn dl);
         name = ''attachment; filename='' @ [CHR 0x22] @ ''ssm-audit-'' @ compact_stamp t @ ''.txt'' @ [CHR 0x22]
     in ret (if out = Some Unavailable
        then write_json (tls_headers @ [(''X-Accel-Buffering'', ''no'')]) 503
               (JError ''audit download unavailable'')
        else \<lparr>re_Status = 200,
               re_Headers = tls_headers @ [(''Content-Type'', ''text/plain; charset=utf-8''),
                 (''Content-Disposition'', name), (''X-Accel-Buffering'', ''no'')],
               re_Cookie = None, re_Body = Streamed out\<rparr>)))"

definition demo_stream :: streaming where
  "demo_stream = \<lparr>seen = (\<lambda>rs n. Inr rs), conn = clear_wire\<rparr>"

text \<open>The answer to an error; a 500 hides the error's own message.\<close>

definition error_response :: "err \<Rightarrow> response" where
  "error_response e =
     write_json tls_headers (status e)
       (JError (if status e = 500 then ''internal server error'' else Error e))"

definition serve_api :: "senv \<Rightarrow> streaming \<Rightarrow> request \<Rightarrow> response handler" where
  "serve_api E dl r =
     andthen (set_identity ''anonymous'') (\<lambda>_.
     andthen (set_path []) (\<lambda>_.
     andthen (attempt (Update (route E r))) (\<lambda>result.
     andthen (attempt (record_audit E r (case result of Inl _ \<Rightarrow> False | Inr _ \<Rightarrow> True))) (\<lambda>audited.
     case audited of
       Inl _ \<Rightarrow> ret (error_response (ErrText ''audit unavailable''))
     | Inr _ \<Rightarrow>
         (case result of
            Inl e \<Rightarrow> ret (error_response e)
          | Inr (v, code, ck) \<Rightarrow>
              andthen (if v = RAuditDownload then download_response E dl
                       else ret (write_json tls_headers code (JReply v))) (\<lambda>res.
              ret (res\<lparr>re_Cookie := ck\<rparr>)))))))"

definition ping :: "unit handler" where
  "ping = stmt (ret ())"

definition ServeHTTP :: "senv \<Rightarrow> streaming \<Rightarrow> request \<Rightarrow> response handler" where
  "ServeHTTP E dl r =
     (let p = UrlPath r in
      if \<not> UsesTLS r then ret (write_json base_headers 400 (JError ''HTTPS required''))
      else if p = ''/audit'' then
        ret \<lparr>re_Status = 303, re_Headers = tls_headers @ [(''Location'', ''/api/v1/admin/audit/download'')],
             re_Cookie = None, re_Body = NoBody\<rparr>
      else if p = ''/'' \<or> p = ''/app.js'' \<or> p = ''/style.css'' \<or> p = ''/browse.js'' then ret (ui E r)
      else if p = ''/api/v1/health'' \<or> p = ''/api/v1/ready'' then
        (if Method r \<noteq> ''GET'' then ret (write_json tls_headers 405 (JError ''method not allowed''))
         else andthen (if p = ''/api/v1/ready''
               then andthen (gets Vault) (\<lambda>key.
                 if Locked key then ret (503 :: int)
                 else andthen (attempt ping) (\<lambda>x. ret (case x of Inl _ \<Rightarrow> 503 | Inr _ \<Rightarrow> 200)))
               else ret 200) (\<lambda>code. ret (write_json tls_headers code (JOk (code = 200)))))
      else if \<not> safe_method r \<and> header r ''Origin'' \<noteq> [] \<and> header r ''Origin'' \<noteq> ''https://'' @ HostName r
        then ret (write_json tls_headers 403 (JError ''origin rejected''))
      else serve_api E dl r)"

section \<open>Setup\<close>

text \<open>The transaction of \<open>Setup\<close>, for the password's hash and the new envelope.\<close>

definition setup_tx :: "string \<Rightarrow> string \<Rightarrow> envelope \<Rightarrow> unit handler" where
  "setup_tx name p en =
     andthen (attempt (get_as as_envelope ''config'' ''envelope'')) (\<lambda>old. case old of
       Inr _ \<Rightarrow> throw (ErrText ''already initialized'')
     | Inl e \<Rightarrow>
         if e \<noteq> ErrNotFound then throw e
         else andthen (tx_Put ''config'' ''envelope'' (DEnvelope en)) (\<lambda>_.
           tx_Put ''admins'' name (DAdmin \<lparr>ad_Name = name, ad_Password = p\<rparr>)))"

definition Setup :: "senv \<Rightarrow> string \<Rightarrow> string \<Rightarrow> string \<Rightarrow> unit handler" where
  "Setup E name password master =
     (if TrimSpace name = [] \<or> length password < 12
      then throw (ErrText ''administrator name and password of at least 12 characters required'')
      else andthen (bcrypt_hash E password) (\<lambda>p.
        andthen (with_draws (NewEnvelope E master)) (\<lambda>en.
        Update (setup_tx name p en))))"

end
