(* ===== verification/Replies.thy ===== *)
theory Replies
  imports Marshal Server
begin

text \<open>
  The answers as bytes: the JSON documents of the types of internal/server/models.go and of
  the handlers' maps, and the body \<open>write\<close> sends. A time is written as text by \<open>stamp\<close>,
  \<open>time.Time.MarshalJSON\<close> in the zone of the server.
\<close>

section \<open>Documents\<close>

text \<open>Standard base64, from the alphabet and the length of the unpadded URL encoding.\<close>

definition std64 :: "string \<Rightarrow> string" where
  "std64 s =
     (let t = map (\<lambda>c. if c = CHR ''-'' then CHR ''+'' else if c = CHR ''_'' then CHR ''/'' else c) (b64_encode s)
      in t @ replicate ((4 - length t mod 4) mod 4) CHR ''='')"

text \<open>A member with \<open>omitempty\<close>.\<close>

definition unless_empty :: "bool \<Rightarrow> string \<Rightarrow> json \<Rightarrow> (string \<times> json) list" where
  "unless_empty absent k v = (if absent then [] else [(k, v)])"

definition strings_json :: "string list \<Rightarrow> json" where
  "strings_json xs = JArray (map JString xs)"

definition secret_json :: "(time \<Rightarrow> string) \<Rightarrow> secret \<Rightarrow> json" where
  "secret_json stamp s = JObject (
     [(''path'', JString (sec_Path s)), (''revision'', JInt (sint (sec_Revision s))),
      (''created_at'', JString (stamp (sec_Created s))), (''updated_at'', JString (stamp (sec_Updated s)))] @
     unless_empty (sec_Ciphertext s = []) ''ciphertext'' (JString (std64 (sec_Ciphertext s))) @
     [(''algorithm'', JString (sec_Algorithm s))] @
     unless_empty (\<not> sec_Deleted s) ''deleted'' (JBool True))"

definition agent_json :: "(time \<Rightarrow> string) \<Rightarrow> agent \<Rightarrow> json" where
  "agent_json stamp a = JObject (
     [(''id'', JString (ag_ID a)), (''name'', JString (ag_Name a)), (''paths'', strings_json (ag_Paths a))] @
     unless_empty (ag_Hash a = []) ''credential_hash'' (JString (ag_Hash a)) @
     [(''revoked'', JBool (ag_Revoked a)), (''created_at'', JString (stamp (ag_Created a)))])"

definition enrollment_json :: "(time \<Rightarrow> string) \<Rightarrow> enrollment \<Rightarrow> json" where
  "enrollment_json stamp e = JObject (
     [(''id'', JString (en_ID e)), (''agent_id'', JString (en_AgentID e))] @
     unless_empty (en_Hash e = []) ''token_hash'' (JString (en_Hash e)) @
     [(''expires_at'', JString (stamp (en_Expires e))), (''used'', JBool (en_Used e))])"

definition admin_json :: "admin \<Rightarrow> json" where
  "admin_json a = JObject ((''name'', JString (ad_Name a)) #
     unless_empty (ad_Password a = []) ''password_hash'' (JString (std64 (ad_Password a))))"

definition session_json :: "(time \<Rightarrow> string) \<Rightarrow> session \<Rightarrow> json" where
  "session_json stamp s = JObject
     [(''session_id'', JString (se_Hash s)), (''admin'', JString (se_Admin s)), (''csrf'', JString (se_CSRF s)),
      (''expires_at'', JString (stamp (se_Expires s)))]"

definition audit_json :: "(time \<Rightarrow> string) \<Rightarrow> audit \<Rightarrow> json" where
  "audit_json stamp a = JObject (
     [(''timestamp'', JString (stamp (au_Time a))), (''identity'', JString (au_Identity a))] @
     unless_empty (au_Path a = []) ''path'' (JString (au_Path a)) @
     [(''operation'', JString (au_Operation a)), (''success'', JBool (au_Success a)), (''source'', JString (au_Source a))])"

definition writer_json :: "(time \<Rightarrow> string) \<Rightarrow> write_credential \<Rightarrow> json" where
  "writer_json stamp c = JObject (
     [(''allow_create'', JBool (wc_AllowCreate c)), (''id'', JString (wc_ID c)), (''name'', JString (wc_Name c)),
      (''paths'', strings_json (wc_Paths c))] @
     unless_empty (wc_Hash c = []) ''credential_hash'' (JString (wc_Hash c)) @
     [(''revoked'', JBool (wc_Revoked c)), (''created_at'', JString (stamp (wc_Created c)))])"

definition envelope_json :: "envelope \<Rightarrow> json" where
  "envelope_json e = JObject [(''salt'', JString (std64 (Salt e))), (''wrapped'', JString (std64 (Wrapped e)))]"

text \<open>A stored document as it is handed out raw.\<close>

definition doc_json :: "(time \<Rightarrow> string) \<Rightarrow> doc \<Rightarrow> json" where
  "doc_json stamp d =
     (case d of
        DEnvelope e \<Rightarrow> envelope_json e
      | DAdmin a \<Rightarrow> admin_json a
      | DSession s \<Rightarrow> session_json stamp s
      | DEnrollment e \<Rightarrow> enrollment_json stamp e
      | DAgent a \<Rightarrow> agent_json stamp a
      | DIndex i \<Rightarrow> JObject [(''ID'', JString i)]
      | DSecret s \<Rightarrow> secret_json stamp s
      | DWriter c \<Rightarrow> writer_json stamp c
      | DAudit a \<Rightarrow> audit_json stamp a)"

section \<open>Answers\<close>

text \<open>The members of a map are written in the order of their names.\<close>

definition reply_json :: "(time \<Rightarrow> string) \<Rightarrow> reply \<Rightarrow> json" where
  "reply_json stamp v =
     (case v of
        RSession s \<Rightarrow> session_json stamp s
      | REnrolled i token \<Rightarrow> JObject [(''id'', JString i), (''token'', JString token)]
      | ROk b \<Rightarrow> JObject [(''ok'', JBool b)]
      | RLockedIs b \<Rightarrow> JObject [(''locked'', JBool b)]
      | RStatus ver b \<Rightarrow> JObject [(''locked'', JBool b), (''version'', JString ver)]
      | RSecret s \<Rightarrow> secret_json stamp s
      | RSecrets ss \<Rightarrow> JArray (map (secret_json stamp) ss)
      | RValue x p n created updated \<Rightarrow> JObject
          [(''created_at'', JString (stamp created)), (''data'', JObject [(''value'', JString x)]), (''path'', JString p),
           (''revision'', JInt (sint n)), (''updated_at'', JString (stamp updated))]
      | RAgent a \<Rightarrow> agent_json stamp a
      | RAgents ags \<Rightarrow> JArray (map (agent_json stamp) ags)
      | REnrollments es \<Rightarrow> JArray (map (enrollment_json stamp) es)
      | RNewEnrollment token i a t \<Rightarrow> JObject
          [(''enrollment'', JObject [(''agent_id'', JString a), (''expires_at'', JString (stamp t)), (''id'', JString i)]),
           (''token'', JString token)]
      | RNames ns \<Rightarrow> strings_json ns
      | RRows ds \<Rightarrow> JArray (map (doc_json stamp) ds)
      | RAuditDownload \<Rightarrow> JObject []
      | RWriter c \<Rightarrow> writer_json stamp c
      | RWriters cs \<Rightarrow> JArray (map (writer_json stamp) cs)
      | RNewWriter c token \<Rightarrow> JObject [(''credential'', writer_json stamp c), (''token'', JString token)])"

text \<open>The body of a response; what a download streams is the matter of theory Maintenance.\<close>

definition body_bytes :: "(time \<Rightarrow> string) \<Rightarrow> body \<Rightarrow> string" where
  "body_bytes stamp b =
     (case b of
        NoBody \<Rightarrow> []
      | JError m \<Rightarrow> marshal_json (JObject [(''error'', JString m)]) @ [CHR 0x0A]
      | JOk x \<Rightarrow> marshal_json (JObject [(''ok'', JBool x)]) @ [CHR 0x0A]
      | JReply v \<Rightarrow> marshal_json (reply_json stamp v) @ [CHR 0x0A]
      | Text s \<Rightarrow> s
      | Streamed d \<Rightarrow> [])"

section \<open>Reading an answer\<close>

lemmas json_defs = secret_json_def agent_json_def enrollment_json_def admin_json_def session_json_def
  audit_json_def writer_json_def envelope_json_def strings_json_def unless_empty_def

lemma writable_doc: "writable (doc_json stamp d)"
  by (cases d) (auto simp: doc_json_def json_defs list_all_iff)

lemma writable_reply: "writable (reply_json stamp v)"
  by (cases v) (auto simp: reply_json_def json_defs list_all_iff writable_doc)

lemma reply_read: "json_next (body_bytes stamp (JReply v)) = JValue (texted (reply_json stamp v)) [CHR 0x0A]"
  using json_next_marshal_json [OF writable_reply, of "[CHR 0x0A]" stamp v] by (simp add: body_bytes_def stops_def)

end
