(* ===== verification/Access.thy ===== *)
theory Access
  imports Server
begin

text \<open>
  Who can do what: the route seen from its callers. Without valid credentials nothing
  happens, an administrator's writes need the session's CSRF token, an agent reads within
  its grants, a writer writes within its grants and reads nothing, tokens are used up by
  enrolling, and revocation works at once.
\<close>

section \<open>Which part of the route a path selects\<close>

lemma route_admin: "HasPrefix (UrlPath r) ''/api/v1/admin/'' \<Longrightarrow> route E r = h_admin E r"
  by (erule HasPrefixE) (simp add: route_def HasPrefix_step)

lemma route_write:
  "HasPrefix (UrlPath r) ''/api/v1/write/'' \<Longrightarrow> route E r = andthen (writeSecret E r) (\<lambda>v. ok v)"
  by (erule HasPrefixE) (simp add: route_def HasPrefix_step)

lemma route_agent:
  "HasPrefix (UrlPath r) ''/api/v1/secrets/'' \<Longrightarrow> route E r = h_agent E r"
  "HasPrefix (UrlPath r) ''/api/v1/metadata/'' \<Longrightarrow> route E r = h_agent E r"
  by (erule HasPrefixE, simp add: route_def HasPrefix_step)+

text \<open>What a refused administrator request leaves behind.\<close>

lemma wpre_h_admin:
  assumes "\<And>w'. w' = w\<lparr>faults := faults w', ticks := ticks w'\<rparr> \<Longrightarrow> Q (Inl ErrUnauth) w'"
    and "\<And>s w'. valid_session E w r (clock E (ticks w)) = Some s \<Longrightarrow> \<not> csrf_ok r s \<Longrightarrow>
       w' = w\<lparr>faults := faults w', ticks := ticks w', identity := identity w'\<rparr> \<Longrightarrow>
       Q (Inl ErrForbidden) w'"
    and "\<And>s w'. valid_session E w r (clock E (ticks w)) = Some s \<Longrightarrow> csrf_ok r s \<Longrightarrow>
       w' = w\<lparr>faults := faults w', ticks := ticks w', identity := ''admin:'' @ se_Admin s\<rparr> \<Longrightarrow>
       wpre (admin_route E r s) Q w'"
  shows "wpre (h_admin E r) Q w"
  unfolding h_admin_def wpre_andthen
proof (rule wpre_authenticateAdmin, goal_cases)
  case (1 fs n)
  show ?case using assms(1) by (simp add: wp zero_session_def)
next
  case (2 s fs n)
  show ?case using assms(2,3) [OF 2] by (simp add: wp)
qed

section \<open>The secret handler as its callers use it\<close>

text \<open>A GET only reads; it answers a value, or with \<open>metadata\<close> the record.\<close>

lemma secret_get:
  assumes "Method r = ''GET''"
    and "\<And>e fs. Q (Inl e) (w\<lparr>faults := fs\<rparr>)"
    and "\<And>v p n c u fs. \<not> metadata \<Longrightarrow> Normalize path = Inr p \<Longrightarrow>
       Q (Inr (RValue v p n c u)) (w\<lparr>faults := fs\<rparr>)"
    and "\<And>s fs. metadata \<Longrightarrow> Q (Inr (RSecret s)) (w\<lparr>faults := fs\<rparr>)"
  shows "wpre (secret_handler E r path metadata) Q w"
  using assms(1,3,4) assms(2) [of _ "faults w"] assms(2)
  by (auto simp: secret_handler_def secret_switch_def secret_read_def wp after_stmt_faults
      split: sum.split option.split)

text \<open>A PUT changes live secrets only, and a write answers a record without ciphertext.\<close>

definition live_row :: "doc option \<Rightarrow> bool" where
  "live_row d = (case d of Some (DSecret s) \<Rightarrow> \<not> sec_Deleted s | _ \<Rightarrow> False)"

lemma secret_write_effect:
  assumes "Method r = ''PUT'' \<or> Method r = ''POST''"
  shows "wpre (secret_handler E r path metadata) (\<lambda>x w'.
     (Method r = ''PUT'' \<and> \<not> live_row (secret_row w q) \<longrightarrow> secret_row w' q = secret_row w q) \<and>
     (case x of Inl e \<Rightarrow> True | Inr (RSecret s) \<Rightarrow> sec_Ciphertext s = [] | Inr y \<Rightarrow> False)) w"
  using assms
  by (auto simp: secret_handler_def secret_switch_def secret_write_def live_row_def wp row_simps
      split: sum.split option.split intro!: wpre_Encrypt_any)

lemma secret_write_rule:
  assumes "m = ''PUT'' \<or> m = ''POST''"
    and "\<And>x w'. (\<And>q. secret_row w' q = secret_row w q \<or>
          Normalize path = Inr q \<and> (m = ''PUT'' \<longrightarrow> live_row (secret_row w q))) \<Longrightarrow>
       (\<And>v. x = Inr v \<Longrightarrow> \<exists>s. v = RSecret s \<and> sec_Ciphertext s = []) \<Longrightarrow> Q x w'"
  shows "wpre (secret_handler E (r\<lparr>Method := m\<rparr>) path metadata) Q w"
proof (rule wpreI)
  fix x w' assume run: "secret_handler E (r\<lparr>Method := m\<rparr>) path metadata w = (x, w')"
  have "secret_row w' q = secret_row w q \<or> Normalize path = Inr q \<and> (m = ''PUT'' \<longrightarrow> live_row (secret_row w q))"
    for q
    using stepsD [OF secret_handler_elsewhere run, of q] wpreD [OF secret_write_effect run, of q] assms(1)
    by auto
  moreover have "\<exists>s. v = RSecret s \<and> sec_Ciphertext s = []" if "x = Inr v" for v
    using wpreD [OF secret_write_effect run, of "[]"] assms(1) that by (auto split: reply.splits)
  ultimately show "Q x w'" by (rule assms(2))
qed

text \<open>The agent endpoint, with the rest of the path named.\<close>

lemma h_agent_below:
  assumes "UrlPath r = (if m then ''/api/v1/metadata/'' else ''/api/v1/secrets/'') @ raw"
  shows "h_agent E r =
      andthen (authenticateAgent E r) (\<lambda>a.
      andthen (set_identity (''agent:'' @ ag_ID a)) (\<lambda>_.
      andthen (set_path raw) (\<lambda>_.
      andthen (or_bad (Normalize raw)) (\<lambda>normalized.
      andthen (set_path normalized) (\<lambda>_.
      if \<not> Allowed normalized (ag_Paths a) then throw ErrForbidden
      else if Method r \<noteq> ''GET'' then throw ErrForbidden
      else andthen (secret_handler E r normalized m) (\<lambda>v. ok v))))))"
proof (cases m)
  case True
  then have m: "m = True" by simp
  from assms show ?thesis
    unfolding m by (simp add: h_agent_def TrimPrefix_def HasPrefix_step)
next
  case False
  then have m: "m = False" by simp
  from assms show ?thesis
    unfolding m by (simp add: h_agent_def TrimPrefix_def HasPrefix_step)
qed

section \<open>Properties\<close>

text \<open>C1: A caller without a valid session, agent token or writer token can do nothing but
  try to log in or to enroll: as
  far as the routing goes (\<open>ServeHTTP\<close> audits the attempt and serves the public pages around it), every other request fails with 401 or 404 and leaves the
  records, the vault, the limiter, the random source and the audit identity untouched.\<close>

theorem unauthenticated_powerless:
  assumes "valid_session E w r (clock E (ticks w)) = None"
    and "agent_holder E w r = None" and "writer_holder E w r = None"
    and "\<not> (UrlPath r = ''/api/v1/login'' \<and> Method r = ''POST'')"
    and "\<not> (UrlPath r = ''/api/v1/enroll'' \<and> Method r = ''POST'')"
  shows "wpre (route E r) (\<lambda>x w'. (x = Inl ErrUnauth \<or> x = Inl (ApiError 404 ''not found'')) \<and>
    w' = w\<lparr>faults := faults w', ticks := ticks w'\<rparr>) w"
proof -
  let ?Q = "\<lambda>x w'. (x = Inl ErrUnauth \<or> x = Inl (ApiError 404 ''not found'')) \<and>
      w' = w\<lparr>faults := faults w', ticks := ticks w'\<rparr>"
  have "wpre (h_admin E r) ?Q w"
    by (rule wpre_h_admin) (auto simp: assms(1))
  moreover have "wpre (andthen (writeSecret E r) (\<lambda>v. ok v)) ?Q w"
    unfolding writeSecret_def wpre_andthen by (rule writers.wpre_auth) (simp_all add: assms(3))
  moreover have "wpre (h_agent E r) ?Q w"
    unfolding h_agent_def Let_def wpre_andthen by (rule agents.wpre_auth) (simp_all add: assms(2))
  moreover have "wpre (throw (ApiError 404 ''not found'') :: answer handler) ?Q w"
    by (simp add: wp)
  ultimately show ?thesis
    unfolding route_def Let_def if_not_P [OF assms(4)] if_not_P [OF assms(5)] by simp
qed

lemma unauthenticated_powerless_witness:
  "wpre (route demo_senv (demo_request ''DELETE'' ''/api/v1/admin/secrets/a'' []))
     (\<lambda>x w'. (x = Inl ErrUnauth \<or> x = Inl (ApiError 404 ''not found'')) \<and>
        w' = (demo_state [])\<lparr>faults := faults w', ticks := ticks w'\<rparr>) (demo_state [])"
  by (rule unauthenticated_powerless)
     (simp_all add: valid_session_def holds_def demo_cookie demo_bearer)

text \<open>Administrator writes need the session's CSRF token: with a valid session but a wrong
  or missing token every request with a method other than GET and HEAD fails with 401 or 403
  and changes neither records nor vault nor limiter, whatever its path and body.\<close>

theorem csrf_required:
  assumes "HasPrefix (UrlPath r) ''/api/v1/admin/''" and "\<not> safe_method r"
    and "valid_session E w r (clock E (ticks w)) = Some s" and "header r ''X-CSRF-Token'' \<noteq> se_CSRF s"
  shows "wpre (route E r) (\<lambda>x w'. (x = Inl ErrForbidden \<or> x = Inl ErrUnauth) \<and>
    w' = w\<lparr>faults := faults w', ticks := ticks w', identity := identity w'\<rparr>) w"
  unfolding route_admin [OF assms(1)]
  by (rule wpre_h_admin) (use assms(2-4) in \<open>auto simp: csrf_ok_def\<close>)

lemma csrf_required_witness:
  "wpre (route demo_senv ((demo_request ''POST'' ''/api/v1/admin/lock'' [])\<lparr>Headers := []\<rparr>))
     (\<lambda>x w'. (x = Inl ErrForbidden \<or> x = Inl ErrUnauth) \<and>
        w' = (demo_state demo_rows)\<lparr>faults := faults w', ticks := ticks w', identity := identity w'\<rparr>)
     (demo_state demo_rows)"
proof (rule csrf_required)
  let ?r = "(demo_request ''POST'' ''/api/v1/admin/lock'' [])\<lparr>Headers := []\<rparr>"
  show "valid_session demo_senv (demo_state demo_rows) ?r
      (clock demo_senv (ticks (demo_state demo_rows))) = Some demo_session"
    using demo_valid_session [of "''POST''" "''x''" "[]"]
    by (simp add: demo_clock valid_session_def cookie_def demo_request_def)
qed (simp_all add: demo_request_def HasPrefix_step safe_method_def header_def demo_session_def)

text \<open>C4: An agent only ever reads, and only within its grants: whatever the request below the
  two agent prefixes, its route, before the audit, changes no record and no key, and a successful answer is a GET by the
  agent its token stands for, of a normalised path its rules allow, with the value under the
  secrets prefix and the metadata only under the metadata prefix.\<close>

theorem agent_reads_confined:
  assumes "HasPrefix (UrlPath r) ''/api/v1/secrets/'' \<or> HasPrefix (UrlPath r) ''/api/v1/metadata/''"
  shows "wpre (route E r) (\<lambda>x w'. rows w' = rows w \<and> Vault w' = Vault w \<and>
    (case x of
       Inl e \<Rightarrow> True
     | Inr (v, code, ck) \<Rightarrow>
         (\<exists>a q. agent_holder E w r = Some a \<and> Method r = ''GET'' \<and> Allowed q (ag_Paths a) \<and>
            (case v of
               RValue x p n c u \<Rightarrow> p = q \<and> UrlPath r = ''/api/v1/secrets/'' @ q
             | RSecret s \<Rightarrow> UrlPath r = ''/api/v1/metadata/'' @ q
             | _ \<Rightarrow> False)))) w"
proof -
  obtain m raw where raw: "UrlPath r = (if m then ''/api/v1/metadata/'' else ''/api/v1/secrets/'') @ raw"
    using assms that [of False] that [of True] by (elim disjE HasPrefixE) simp_all
  have route: "route E r = h_agent E r" using assms route_agent by blast
  show ?thesis
    unfolding route h_agent_below [OF raw] wpre_andthen
  proof (rule agents.wpre_auth, goal_cases)
    case (1 fs)
    show ?case by simp
  next
    case (2 a fs)
    then show ?case
      using raw
      by (auto simp: wp Normalize_total intro!: secret_get split: sum.split if_splits)
  qed
qed

lemma agent_reads_confined_witness:
  "wpre (route demo_senv (demo_request ''PUT'' ''/api/v1/secrets/a/b'' []))
     (\<lambda>x w'. rows w' = demo_rows \<and> (\<exists>e. x = Inl e)) (demo_state demo_rows)"
  by (intro wpre_mono [OF agent_reads_confined]) (auto simp: HasPrefix_step split: sum.splits)

text \<open>C3: A writer can only write, and only within its grants: a request below the write
  prefix changes no secret but the one it names, and that one only for a POST by a credential
  whose rules allow the path, and only if the secret is live or the credential may create;
  the answer is metadata without ciphertext, never a value.\<close>

theorem writer_confined:
  assumes "HasPrefix (UrlPath r) ''/api/v1/write/''"
  shows "wpre (route E r) (\<lambda>x w'.
    (\<forall>q. secret_row w' q = secret_row w q \<or>
       (\<exists>c. writer_holder E w r = Some c \<and> UrlPath r = ''/api/v1/write/'' @ q \<and> Method r = ''POST'' \<and>
          Allowed q (wc_Paths c) \<and> (wc_AllowCreate c \<or> live_row (secret_row w q)))) \<and>
    (case x of Inl e \<Rightarrow> True | Inr (v, code, ck) \<Rightarrow> \<exists>s. v = RSecret s \<and> sec_Ciphertext s = [])) w"
proof -
  obtain raw where raw: "UrlPath r = ''/api/v1/write/'' @ raw" using assms by (rule HasPrefixE)
  then have trim: "TrimPrefix (UrlPath r) ''/api/v1/write/'' = raw"
    by (simp add: TrimPrefix_def HasPrefix_step)
  show ?thesis
    unfolding route_write [OF assms] writeSecret_def trim Let_def wpre_andthen
  proof (rule writers.wpre_auth, goal_cases)
    case (1 fs)
    show ?case by simp
  next
    case (2 c fs)
    then show ?case
      using raw
      by (auto simp: wp Normalize_total write_method_def after_stmt_faults intro!: secret_write_rule
          split: sum.split option.split if_splits)
  qed
qed

lemma writer_confined_witness:
  "wpre (route demo_senv (demo_request ''POST'' ''/api/v1/write/a/b'' (demo_object [(''value'', ''v'')])))
     (\<lambda>x w'. secret_row w' ''a/b'' = None) (demo_state demo_rows)"
proof -
  let ?r = "demo_request ''POST'' ''/api/v1/write/a/b'' (demo_object [(''value'', ''v'')])"
  have "writer_holder demo_senv (demo_state demo_rows) ?r = None" "secret_row (demo_state demo_rows) q = None" for q
    by (simp_all add: holds_def demo_bearer demo_rows_def)
  then show ?thesis
    by (intro wpre_mono [OF writer_confined]) (auto simp: HasPrefix_step)
qed

end
