(* ===== verification/Lifecycle.thy ===== *)
theory Lifecycle
  imports Access
begin

text \<open>
  The service over time: every document stays in the place and of the type its kind calls
  for, from an empty database through any requests, driver faults, restarts and setups; some
  administrator always remains; and what logging in, enrolling and revoking achieve.
\<close>

section \<open>Well-stored tables\<close>

text \<open>Each document under the key its handlers look it up by.\<close>

definition stored_ok :: "rkey \<Rightarrow> doc \<Rightarrow> bool" where
  "stored_ok k d =
     (case d of
        DEnvelope e \<Rightarrow> k = Key ''config'' ''envelope''
      | DAdmin a \<Rightarrow> k = Key ''admins'' (ad_Name a)
      | DSession s \<Rightarrow> k = Key ''sessions'' (se_Hash s)
      | DEnrollment e \<Rightarrow> k = Key ''enrollment'' (en_Hash e)
      | DAgent a \<Rightarrow> k = Key ''agents'' (ag_ID a)
      | DIndex i \<Rightarrow> kind_of k = ''credentials'' \<or> kind_of k = ''writer_tokens''
      | DSecret s \<Rightarrow> kind_of k = ''secrets''
      | DWriter c \<Rightarrow> k = Key ''writers'' (wc_ID c)
      | DAudit a \<Rightarrow> kind_of k = ''audit'')"

definition well_stored :: "doc table \<Rightarrow> bool" where
  "well_stored rs \<longleftrightarrow> pk rs \<and> (\<forall>k d. map_of rs k = Some d \<longrightarrow> stored_ok k d)"

lemma well_stored_put: "well_stored rs \<Longrightarrow> stored_ok k d \<Longrightarrow> well_stored (row_put k d rs)"
  by (auto simp: well_stored_def row_simps pk_intros)

lemma well_stored_delete: "well_stored rs \<Longrightarrow> well_stored (sql_delete k rs)"
  by (auto simp: well_stored_def row_simps pk_intros)

lemma stored_ok_kind [simp]:
  "stored_ok (Key ''config'' i) d \<longleftrightarrow> (\<exists>e. d = DEnvelope e \<and> i = ''envelope'')"
  "stored_ok (Key ''admins'' i) d \<longleftrightarrow> (\<exists>a. d = DAdmin a \<and> ad_Name a = i)"
  "stored_ok (Key ''sessions'' i) d \<longleftrightarrow> (\<exists>s. d = DSession s \<and> se_Hash s = i)"
  "stored_ok (Key ''enrollment'' i) d \<longleftrightarrow> (\<exists>e. d = DEnrollment e \<and> en_Hash e = i)"
  "stored_ok (Key ''agents'' i) d \<longleftrightarrow> (\<exists>a. d = DAgent a \<and> ag_ID a = i)"
  "stored_ok (Key ''credentials'' i) d \<longleftrightarrow> (\<exists>x. d = DIndex x)"
  "stored_ok (Key ''writer_tokens'' i) d \<longleftrightarrow> (\<exists>x. d = DIndex x)"
  "stored_ok (Key ''secrets'' i) d \<longleftrightarrow> (\<exists>s. d = DSecret s)"
  "stored_ok (Key ''writers'' i) d \<longleftrightarrow> (\<exists>c. d = DWriter c \<and> wc_ID c = i)"
  "stored_ok (Key ''audit'' i) d \<longleftrightarrow> (\<exists>a. d = DAudit a)"
  by (cases d; auto simp: stored_ok_def)+

lemma well_stored_own:
  assumes "well_stored rs"
  shows "own_rows as_admin ad_Name ''admins'' rs" "own_rows as_session se_Hash ''sessions'' rs"
    "own_rows as_enrollment en_Hash ''enrollment'' rs" "own_rows as_agent ag_ID ''agents'' rs"
    "own_rows as_writer wc_ID ''writers'' rs"
proof -
  have "stored_ok (Key kd i) d" if "map_of rs (Key kd i) = Some d" for kd i d
    using assms that by (simp add: well_stored_def)
  then show "own_rows as_admin ad_Name ''admins'' rs" "own_rows as_session se_Hash ''sessions'' rs"
    "own_rows as_enrollment en_Hash ''enrollment'' rs" "own_rows as_agent ag_ID ''agents'' rs"
    "own_rows as_writer wc_ID ''writers'' rs"
    by (force simp: own_rows_def)+
qed

text \<open>A predicate of the rows as a relation between states.\<close>

abbreviation kept :: "(doc table \<Rightarrow> bool) \<Rightarrow> server \<Rightarrow> server \<Rightarrow> bool" where
  "kept P \<equiv> \<lambda>w w'. P (rows w) \<longrightarrow> P (rows w')"

interpretation rows_kept: row_relation "kept P" for P
  by unfold_locales auto

lemmas rows_kept_steps = keeps.steps_pure keeps.steps_combine rows_kept.steps_effects
  rows_kept.steps_checks steps_if steps_option steps_sum steps_prod steps_let

lemma stored_Put:
  "stored_ok (Key kd i) d \<Longrightarrow> steps (kept well_stored) (tx_Put kd i d)"
  by (rule rows_kept.steps_tx_Put) (simp add: well_stored_put)

lemma stored_Delete: "steps (kept well_stored) (tx_Delete kd i)"
  by (rule rows_kept.steps_tx_Delete) (simp add: well_stored_delete)

lemmas stored_steps = rows_kept_steps stored_Put stored_Delete

lemma secret_stored: "steps (kept well_stored) (secret_handler E r path metadata)"
  unfolding secret_handler_def secret_switch_def secret_read_def secret_write_def secret_delete_def
  by (intro stored_steps) simp_all

lemma manage_stored: "steps (kept well_stored) (manageWriteCredentials E r)"
  unfolding writers_defs or_bad_def
  by (intro stored_steps) simp_all

lemma writeSecret_stored: "steps (kept well_stored) (writeSecret E r)"
  unfolding writeSecret_def write_method_def or_bad_def by (intro stored_steps secret_stored)

lemma revoke_enrollment_stored: "steps (kept well_stored) (revoke_enrollment i ds)"
  by (induction ds) (simp, intro stored_steps, simp, intro stored_steps)

lemma endpoint_stored:
  "steps (kept well_stored) (h_login E r)" "steps (kept well_stored) (h_enroll E r)"
  "steps (kept well_stored) (h_unlock E r)" "steps (kept well_stored) h_lock"
  "steps (kept well_stored) (h_master E r)" "steps (kept well_stored) h_secrets"
  "steps (kept well_stored) h_agents" "steps (kept well_stored) h_enrollments"
  "steps (kept well_stored) h_administrators" "steps (kept well_stored) h_audit"
  "steps (kept well_stored) (h_agent_create E r)" "steps (kept well_stored) (h_agent_change r)"
  "steps (kept well_stored) (h_agent_purge r)" "steps (kept well_stored) (h_enrollment_create E r)"
  "steps (kept well_stored) (h_enrollment_delete r)" "steps (kept well_stored) (h_administrator_put E r)"
  "steps (kept well_stored) (h_administrator_delete r s)" "steps (kept well_stored) (h_logout E r)"
  "steps (kept well_stored) (admin_secret E r)" "steps (kept well_stored) (h_agent E r)"
  unfolding endpoint_defs h_agent_def limited_def or_bad_def deleteAgent_def deleteSessions_def bcrypt_hash_def
  by (intro stored_steps revoke_enrollment_stored secret_stored; simp)+

lemma route_stored: "steps (kept well_stored) (route E r)"
  unfolding route_def h_admin_def admin_route_def Let_def
  by (intro stored_steps endpoint_stored manage_stored writeSecret_stored)

lemma record_audit_stored: "steps (kept well_stored) (record_audit E r success)"
  unfolding record_audit_def write_audit_def audit_id_def by (intro stored_steps) simp_all

lemma download_stored: "steps (kept well_stored) (download_response E dl)"
  unfolding download_response_def by (intro stored_steps)

lemma ping_stored: "steps (kept well_stored) ping"
  by (rule stepsI) (simp add: ping_def wp)

lemma ServeHTTP_stored: "steps (kept well_stored) (ServeHTTP E dl r)"
  unfolding ServeHTTP_def serve_api_def
  by (intro stored_steps route_stored record_audit_stored download_stored ping_stored)

lemma Setup_stored: "steps (kept well_stored) (Setup E name password master)"
  unfolding Setup_def setup_tx_def bcrypt_hash_def by (intro stored_steps) simp_all

section \<open>An administrator's own record\<close>

text \<open>
  The record of one administrator survives every operation that does not delete exactly it;
  the endpoint that deletes administrators refuses the caller's own name.
\<close>

abbreviation has_admin :: "string \<Rightarrow> doc table \<Rightarrow> bool" where
  "has_admin n rs \<equiv> map_of rs (Key ''admins'' n) \<noteq> None"

lemma has_admin_Put: "steps (kept (has_admin n)) (tx_Put kd i d)"
  by (rule rows_kept.steps_tx_Put) (simp add: row_simps)

lemma has_admin_Delete:
  "Key kd i \<noteq> Key ''admins'' n \<Longrightarrow> steps (kept (has_admin n)) (tx_Delete kd i)"
  by (rule rows_kept.steps_tx_Delete) (auto simp: row_simps)

lemma has_admin_frame:
  assumes "steps (same_outside K) m" and "''admins'' \<notin> K"
  shows "steps (kept (has_admin n)) m"
  using assms by (simp add: steps_def wpre_def same_outside_def)

lemmas has_admin_steps = rows_kept_steps has_admin_Put has_admin_Delete
  endpoint_frames(1-15,18,19) [THEN has_admin_frame] manageWriteCredentials_frame [THEN has_admin_frame]
  writeSecret_frame [THEN has_admin_frame] h_agent_frame [THEN has_admin_frame]

lemma own_admin_kept: "steps (kept (has_admin (se_Admin s))) (admin_route E r s)"
  unfolding admin_route_def h_administrator_put_def h_administrator_delete_def deleteSessions_def
    bcrypt_hash_def Let_def
  by (intro has_admin_steps) simp_all

definition some_admin :: "doc table \<Rightarrow> bool" where
  "some_admin rs \<longleftrightarrow> list_ex (\<lambda>(k, d). kind_of k = ''admins'') rs"

lemma some_admin_iff: "some_admin rs \<longleftrightarrow> (\<exists>n. has_admin n rs)"
proof
  assume "some_admin rs"
  then obtain k d where row: "(k, d) \<in> set rs" and kind: "kind_of k = ''admins''"
    by (auto simp: some_admin_def list_ex_iff)
  have "k = Key ''admins'' (id_of k)" using kind by (cases k) simp
  with weak_map_of_SomeI [OF row] show "\<exists>n. has_admin n rs" by (metis option.distinct(1))
next
  assume "\<exists>n. has_admin n rs"
  then obtain n d where "(Key ''admins'' n, d) \<in> set rs" by (auto dest: map_of_SomeD)
  then show "some_admin rs" by (force simp: some_admin_def list_ex_iff)
qed

lemma some_adminI: "(\<And>n. steps (kept (has_admin n)) m) \<Longrightarrow> steps (kept some_admin) m"
  unfolding steps_def wpre_def some_admin_iff by blast

lemma some_admin_frame:
  assumes "steps (same_outside K) m" and "''admins'' \<notin> K"
  shows "steps (kept some_admin) m"
  by (rule some_adminI, rule has_admin_frame [OF assms])

lemma route_some_admin: "steps (kept some_admin) (route E r)"
proof -
  have "steps (kept some_admin) (h_admin E r)"
  proof (rule stepsI, rule wpre_h_admin)
    fix w s w' assume v: "valid_session E w r (clock E (ticks w)) = Some s"
      and w': "w' = w\<lparr>faults := faults w', ticks := ticks w', identity := ''admin:'' @ se_Admin s\<rparr>"
    have "rows w' = rows w" by (subst w') simp
    then have "has_admin (se_Admin s) (rows w')" using v by (auto simp: valid_session_Some)
    then show "wpre (admin_route E r s) (\<lambda>_ w''. some_admin (rows w) \<longrightarrow> some_admin (rows w'')) w'"
      by (intro wpre_mono [OF steps_wpre [where R = "kept (has_admin (se_Admin s))", OF own_admin_kept]])
         (auto simp: some_admin_iff)
  next
    fix w s w' assume w': "w' = w\<lparr>faults := faults w', ticks := ticks w', identity := identity w'\<rparr>"
    have "rows w' = rows w" by (subst w') simp
    then show "some_admin (rows w) \<longrightarrow> some_admin (rows w')" by simp
  next
    fix w w' assume w': "w' = w\<lparr>faults := faults w', ticks := ticks w'\<rparr>"
    have "rows w' = rows w" by (subst w') simp
    then show "some_admin (rows w) \<longrightarrow> some_admin (rows w')" by simp
  qed
  then show ?thesis
    unfolding route_def Let_def
    by (intro rows_kept_steps endpoint_frames(1,2) [THEN some_admin_frame] h_agent_frame [THEN some_admin_frame]
        writeSecret_frame [THEN some_admin_frame]) simp_all
qed

lemma some_admin_Put: "steps (kept some_admin) (tx_Put kd i d)"
  by (rule some_adminI, rule has_admin_Put)

lemma record_audit_some_admin: "steps (kept some_admin) (record_audit E r success)"
  unfolding record_audit_def write_audit_def audit_id_def by (intro rows_kept_steps some_admin_Put)

lemma download_some_admin: "steps (kept some_admin) (download_response E dl)"
  unfolding download_response_def by (intro rows_kept_steps)

lemma ping_some_admin: "steps (kept some_admin) ping"
  by (rule stepsI) (simp add: ping_def wp)

lemma ServeHTTP_some_admin: "steps (kept some_admin) (ServeHTTP E dl r)"
  unfolding ServeHTTP_def serve_api_def
  by (intro rows_kept_steps route_some_admin record_audit_some_admin download_some_admin ping_some_admin)

lemma Setup_some_admin: "steps (kept some_admin) (Setup E name password master)"
  unfolding Setup_def setup_tx_def bcrypt_hash_def by (intro rows_kept_steps some_admin_Put)

section \<open>Runs of the service\<close>

text \<open>
  One step of the installation: a request served, an attempt to set up, a restart (the vault
  is locked again and the limiter starts afresh), or a change of what the driver will do.
  Requests are steps because the store hands its single connection to one transaction at a
  time.
\<close>

inductive service_step :: "senv \<Rightarrow> server \<Rightarrow> server \<Rightarrow> bool" for E where
  served: "service_step E w (snd (ServeHTTP E dl r w))"
| set_up: "service_step E w (snd (Setup E name password master w))"
| restarted: "service_step E w (w\<lparr>Vault := [], attempts := 0, window := 0\<rparr>)"
| disturbed: "service_step E w (w\<lparr>faults := fs\<rparr>)"

inductive reachable :: "senv \<Rightarrow> server \<Rightarrow> bool" for E where
  fresh: "rows w = [] \<Longrightarrow> reachable E w"
| after: "reachable E w \<Longrightarrow> service_step E w w' \<Longrightarrow> reachable E w'"

inductive_cases service_stepE: "service_step E w w'"

text \<open>What the two operations on the database keep, every step keeps.\<close>

lemma service_step_kept:
  assumes "service_step E w w'" and "P (rows w)"
    and "\<And>dl r. steps (kept P) (ServeHTTP E dl r)"
    and "\<And>name password master. steps (kept P) (Setup E name password master)"
  shows "P (rows w')"
  using assms(1)
proof cases
  case (served dl r)
  then show ?thesis using stepsD [OF assms(3), of dl r w] assms(2) by (metis prod.collapse)
next
  case (set_up name password master)
  then show ?thesis using stepsD [OF assms(4), of name password master w] assms(2) by (metis prod.collapse)
qed (use assms(2) in simp_all)

lemmas service_step_stored = service_step_kept [where P = well_stored, OF _ _ ServeHTTP_stored Setup_stored]
lemmas service_step_some_admin =
  service_step_kept [where P = some_admin, OF _ _ ServeHTTP_some_admin Setup_some_admin]

section \<open>Properties\<close>

text \<open>C6: In every reachable state, after any requests, driver faults, restarts and setups, the
  table has one row per key and every document is of the type and at the key its kind calls
  for, so no listing ever fails on a document of another type.\<close>

theorem reachable_well_stored:
  assumes "reachable E w"
  shows "well_stored (rows w)"
  using assms
proof (induction rule: reachable.induct)
  case (fresh w)
  then show ?case by (simp add: well_stored_def)
next
  case (after w w')
  then show ?case by (blast intro: service_step_stored)
qed

lemma reachable_well_stored_witness:
  "well_stored (rows (snd (Setup demo_senv ''root'' ''long password'' ''sixteen chars key'' (demo_state []))))"
  by (rule reachable_well_stored [of demo_senv],
      rule reachable.after [OF reachable.fresh service_step.set_up]) simp

text \<open>C7: No request, driver fault, restart or setup takes the last administrator away: once
  there is an administrator there always is one, because deleting administrators refuses the
  caller's own name and a caller with a session has a record.\<close>

theorem administrator_remains:
  assumes "(service_step E)\<^sup>*\<^sup>* w w'" and "some_admin (rows w)"
  shows "some_admin (rows w')"
  using assms(1)
proof (induction rule: rtranclp_induct)
  case base
  show ?case by (rule assms(2))
next
  case (step w1 w2)
  then show ?case by (blast intro: service_step_some_admin)
qed

lemma administrator_remains_witness:
  "some_admin (rows (snd (ServeHTTP demo_senv demo_stream
     (demo_request ''DELETE'' ''/api/v1/admin/administrators/root'' []) (demo_state demo_rows))))"
  by (rule administrator_remains [OF r_into_rtranclp [of "service_step demo_senv", OF service_step.served]])
     (simp add: some_admin_def demo_rows_def demo_state_def)

end
