(* ===== verification/Accounts.thy ===== *)
theory Accounts
  imports Lifecycle
begin

text \<open>
  What logging in, enrolling and revoking achieve: the credential a successful request hands
  out works at once, a token enrolls once, and what an administrator takes away stops working
  with the same request.
\<close>

lemma well_storedD: "well_stored rs \<Longrightarrow> map_of rs k = Some d \<Longrightarrow> stored_ok k d"
  unfolding well_stored_def by blast

section \<open>Logging in\<close>

definition credentials_of :: "request \<Rightarrow> err + credentials" where
  "credentials_of r = decode r credentials_struct \<lparr>cr_Name = [], cr_Password = []\<rparr>"

text \<open>The stored administrator a pair of name and password belongs to.\<close>

definition password_holder :: "senv \<Rightarrow> server \<Rightarrow> credentials \<Rightarrow> admin option" where
  "password_holder E w c =
     (case map_of (rows w) (Key ''admins'' (cr_Name c)) of
        Some (DAdmin a) \<Rightarrow> if bcrypt_match E (ad_Password a) (cr_Password c) then Some a else None
      | _ \<Rightarrow> None)"

lemma wpre_h_login:
  assumes "faults w = []" and "fst (limit E w) = Inr True" and "credentials_of r = Inr c"
    and "password_holder E w c = None \<Longrightarrow> Q (Inl ErrUnauth) (snd (limit E w))"
    and "\<And>a s w'. password_holder E w c = Some a \<Longrightarrow>
       s = \<lparr>se_Hash = Hash E (token_at E (draws w)), se_Admin = ad_Name a,
            se_CSRF = token_at E (Suc (draws w)),
            se_Expires = clock E (ticks (snd (limit E w))) + SessionTTL E\<rparr> \<Longrightarrow>
       rows w' = row_put (Key ''sessions'' (se_Hash s)) (DSession s) (rows w) \<Longrightarrow> faults w' = [] \<Longrightarrow>
       Vault w' = Vault w \<Longrightarrow>
       Q (Inr (RSession s, 200, Some (session_cookie (token_at E (draws w)) (se_Expires s) 0))) w'"
  shows "wpre (h_login E r) Q w"
proof -
  have state: "faults (snd (limit E w)) = []" "rows (snd (limit E w)) = rows w"
      "draws (snd (limit E w)) = draws w" "Vault (snd (limit E w)) = Vault w"
    using assms(1) by (simp_all add: limit_run)
  have limit: "wpre (limit E) R w \<longleftrightarrow> R (Inr True) (snd (limit E w))" for R
    using assms(2) by (simp add: wpre_def)
  show ?thesis
    unfolding h_login_def limited_def wpre_andthen limit
    using assms(3-5)
    by (auto simp: wp state credentials_of_def password_holder_def Let_def as_admin_def
        split: option.split doc.split if_splits)
qed

section \<open>Enrolling\<close>

definition enrollment_token_of :: "request \<Rightarrow> err + string" where
  "enrollment_token_of r = decode r (string_struct ''token'') []"

text \<open>The token's record and the agent it was issued for, as long as both are still unused.\<close>

definition enrollable :: "senv \<Rightarrow> server \<Rightarrow> string \<Rightarrow> (enrollment \<times> agent) option" where
  "enrollable E w token =
     (case map_of (rows w) (Key ''enrollment'' (Hash E token)) of
        Some (DEnrollment en) \<Rightarrow>
          (if en_Used en then None
           else (case map_of (rows w) (Key ''agents'' (en_AgentID en)) of
                   Some (DAgent a) \<Rightarrow> if ag_Revoked a \<or> ag_Hash a \<noteq> [] then None else Some (en, a)
                 | _ \<Rightarrow> None))
      | _ \<Rightarrow> None)"

lemma enrollable_Some:
  "enrollable E w token = Some (en, a) \<longleftrightarrow>
     map_of (rows w) (Key ''enrollment'' (Hash E token)) = Some (DEnrollment en) \<and> \<not> en_Used en \<and>
     map_of (rows w) (Key ''agents'' (en_AgentID en)) = Some (DAgent a) \<and> \<not> ag_Revoked a \<and> ag_Hash a = []"
  by (auto simp: enrollable_def split: option.split doc.split)

definition enrolled_rows :: "senv \<Rightarrow> string \<Rightarrow> enrollment \<Rightarrow> agent \<Rightarrow> doc table \<Rightarrow> doc table" where
  "enrolled_rows E token en a rs =
     row_put (Key ''enrollment'' (en_Hash en)) (DEnrollment (en\<lparr>en_Used := True\<rparr>))
     (row_put (Key ''credentials'' (Hash E token)) (DIndex (ag_ID a))
     (row_put (Key ''agents'' (ag_ID a)) (DAgent (a\<lparr>ag_Hash := Hash E token\<rparr>)) rs))"

lemma wpre_limited:
  assumes "\<And>w1. rows w1 = rows w \<Longrightarrow> Q (Inl (ApiError 429 ''try again later'')) w1"
    and "\<And>w1. rows w1 = rows w \<Longrightarrow> draws w1 = draws w \<Longrightarrow> Vault w1 = Vault w \<Longrightarrow>
       faults w1 = faults w \<Longrightarrow> ticks w \<le> ticks w1 \<Longrightarrow> wpre m Q w1"
  shows "wpre (limited E m) Q w"
  using assms by (simp add: limited_def wpre_limit wp)

lemma did_limited:
  assumes "limited E m w = (Inr v, w')"
  obtains w1 where "m w1 = (Inr v, w')" "rows w1 = rows w" "draws w1 = draws w" "Vault w1 = Vault w"
    "faults w1 = faults w" "ticks w \<le> ticks w1" "limit E w = (Inr True, w1)"
  using assms by (auto simp: limited_def did limit_run split: if_splits)

lemma h_enroll_effect:
  assumes "h_enroll E r w = (Inr (v, code, k), w')"
  shows "\<exists>token0. enrollment_token_of r = Inr token0 \<and>
    (case enrollable E w token0 of
       None \<Rightarrow> False
     | Some (en, a) \<Rightarrow>
         v = REnrolled (ag_ID a) (token_at E (draws w)) \<and> code = 200 \<and> k = None \<and>
         (\<exists>t \<ge> ticks w. clock E t < en_Expires en) \<and>
         rows w' = enrolled_rows E (token_at E (draws w)) en a (rows w))"
proof (rule did_limited [OF assms [unfolded h_enroll_def]], goal_cases)
  case (1 w1)
  then show ?case
    by (simp only: did Let_def enrollment_token_of_def [symmetric] simp_thms, clarify)
       ((drule did_steps)+, clarsimp simp: same_fields_def enrollable_def enrolled_rows_def)
qed

lemma h_enroll_refusal:
  assumes "enrollment_token_of r = Inr token" and "enrollable E w token = None"
  shows "\<exists>e. fst (h_enroll E r w) = Inl e"
proof (cases "fst (h_enroll E r w)")
  case (Inr x)
  then obtain v code k w' where "h_enroll E r w = (Inr (v, code, k), w')"
    by (metis prod.collapse)
  from h_enroll_effect [OF this] assms show ?thesis by auto
qed simp

section \<open>Taking access away\<close>

lemma h_agent_change_DELETE:
  assumes "UrlPath r = ''/api/v1/admin/agents/'' @ i" and "Method r = ''DELETE''"
    and "h_agent_change r w = (Inr x, w')"
  shows "\<exists>a. map_of (rows w) (Key ''agents'' i) = Some (DAgent a) \<and>
    map_of (rows w') (Key ''agents'' (ag_ID a)) = Some (DAgent (a\<lparr>ag_Revoked := True\<rparr>))"
proof -
  have "TrimPrefix (UrlPath r) ''/api/v1/admin/agents/'' = i"
    by (simp only: assms(1) TrimPrefix_append)
  then have "h_agent_change r =
     andthen (get_as as_agent ''agents'' i) (\<lambda>a.
     andthen (if ag_Hash a \<noteq> [] then tx_Delete ''credentials'' (ag_Hash a) else ret ()) (\<lambda>_.
     andthen (tx_Put ''agents'' (ag_ID a) (DAgent (a\<lparr>ag_Revoked := True\<rparr>))) (\<lambda>_.
     ok (RAgent (a\<lparr>ag_Revoked := True, ag_Hash := []\<rparr>)))))"
    using assms(2) by (simp add: h_agent_change_def andthen_assoc andthen_ret)
  with assms(3) show ?thesis
    by (simp only: did simp_thms, clarify)
       ((drule did_steps)+, auto simp: row_simps same_fields_def did dest!: did_steps)
qed

lemma writers_revoke_effect:
  assumes "UrlPath r = writers_base @ ''/'' @ i" and "Method r = ''DELETE''"
    and "manageWriteCredentials E r w = (Inr x, w')"
  shows "\<exists>c. map_of (rows w) (Key ''writers'' i) = Some (DWriter c) \<and>
    map_of (rows w') (Key ''writers'' (wc_ID c)) = Some (DWriter (c\<lparr>wc_Revoked := True\<rparr>))"
proof -
  have "UrlPath r = (writers_base @ ''/'') @ i" using assms(1) by simp
  then have "TrimPrefix (UrlPath r) (writers_base @ ''/'') = i" by (simp only: TrimPrefix_append)
  then have "manageWriteCredentials E r =
     andthen (get_as as_writer ''writers'' i) writers_revoke"
    using assms(1,2) by (simp add: manageWriteCredentials_def)
  with assms(3) show ?thesis
    by (auto simp: writers_revoke_def writers_store_def did row_simps dest!: did_steps)
qed

lemma deleteAgent_effect:
  "deleteAgent i w = (Inr x, w') \<Longrightarrow> map_of (rows w') (Key ''agents'' i) = None"
  by (auto simp: deleteAgent_def did row_simps dest!: did_steps)

text \<open>A successful administrator request ran its endpoint on the same records.\<close>

lemma route_admin_did:
  assumes "HasPrefix (UrlPath r) ''/api/v1/admin/''" and "route E r w = (Inr x, w')"
  obtains s w1 where "admin_route E r s w1 = (Inr x, w')" and "rows w1 = rows w"
    and "valid_session E w r (clock E (ticks w)) = Some s" and "csrf_ok r s"
proof -
  have "wpre (h_admin E r) (\<lambda>y w2. \<forall>z. y = Inr z \<longrightarrow>
      (\<exists>s w1. admin_route E r s w1 = (Inr z, w2) \<and> rows w1 = rows w \<and>
         valid_session E w r (clock E (ticks w)) = Some s \<and> csrf_ok r s)) w"
  proof (rule wpre_h_admin, goal_cases)
    case (3 s w1)
    have "rows w1 = rows w" by (subst 3(3)) simp
    with 3(1,2) show ?case by (auto intro!: wpreI)
  qed simp_all
  from wpreD [OF this assms(2) [unfolded route_admin [OF assms(1)]]] that show thesis by blast
qed

lemma admin_route_agent:
  assumes "UrlPath r = ''/api/v1/admin/agents/'' @ i" and "Method r = ''DELETE''"
  shows "admin_route E r s =
    (if HasSuffix (UrlPath r) ''/purge'' then h_agent_purge r else h_agent_change r)"
  using assms by (simp add: admin_route_def writers_base_def HasPrefix_step)

lemma admin_route_writer:
  assumes "UrlPath r = writers_base @ ''/'' @ i"
  shows "admin_route E r s = andthen (manageWriteCredentials E r) (\<lambda>v. ok v)"
  using assms by (simp add: admin_route_def writers_base_def HasPrefix_step)

lemma revoked_agent_gone:
  assumes "well_stored (rows w)"
    and "\<And>a. map_of (rows w) (Key ''agents'' i) = Some (DAgent a) \<Longrightarrow> ag_Revoked a"
    and "agent_holder E w r = Some a"
  shows "ag_ID a \<noteq> i"
proof -
  obtain j where j: "map_of (rows w) (Key ''agents'' j) = Some (DAgent a)" "\<not> ag_Revoked a"
    using assms(3) by (auto simp: holds_Some)
  with well_storedD [OF assms(1) j(1)] assms(2) [of a] show ?thesis by auto
qed

lemma revoked_writer_gone:
  assumes "well_stored (rows w)"
    and "\<And>c. map_of (rows w) (Key ''writers'' i) = Some (DWriter c) \<Longrightarrow> wc_Revoked c"
    and "writer_holder E w r = Some c"
  shows "wc_ID c \<noteq> i"
proof -
  obtain j where j: "map_of (rows w) (Key ''writers'' j) = Some (DWriter c)" "\<not> wc_Revoked c"
    using assms(3) by (auto simp: holds_Some)
  with well_storedD [OF assms(1) j(1)] assms(2) [of c] show ?thesis by auto
qed

lemma agent_delete_revokes:
  assumes endpoint: "admin_route E r s w = (Inr x, w')" and delete: "Method r = ''DELETE''"
    and stored: "well_stored (rows w)"
    and path: "UrlPath r = ''/api/v1/admin/agents/'' @ i \<and> \<not> HasSuffix (UrlPath r) ''/purge'' \<or>
      UrlPath r = ''/api/v1/admin/agents/'' @ i @ ''/purge''"
    and found: "map_of (rows w') (Key ''agents'' i) = Some (DAgent a)"
  shows "ag_Revoked a"
  using path
proof (elim disjE conjE)
  assume p: "UrlPath r = ''/api/v1/admin/agents/'' @ i" "\<not> HasSuffix (UrlPath r) ''/purge''"
  have "h_agent_change r w = (Inr x, w')"
    using endpoint unfolding admin_route_agent [OF p(1) delete] if_not_P [OF p(2)] .
  then obtain a1 where a1: "map_of (rows w) (Key ''agents'' i) = Some (DAgent a1)"
    "map_of (rows w') (Key ''agents'' (ag_ID a1)) = Some (DAgent (a1\<lparr>ag_Revoked := True\<rparr>))"
    using h_agent_change_DELETE [OF p(1) delete] by blast
  moreover have "ag_ID a1 = i" using well_storedD [OF stored a1(1)] by simp
  ultimately show ?thesis using found by auto
next
  assume p: "UrlPath r = ''/api/v1/admin/agents/'' @ i @ ''/purge''"
  have suffix: "HasSuffix (UrlPath r) ''/purge''"
    unfolding p HasSuffix_iff by (rule exI [of _ "''/api/v1/admin/agents/'' @ i"]) simp
  have name: "TrimSuffix (TrimPrefix (UrlPath r) ''/api/v1/admin/agents/'') ''/purge'' = i"
    unfolding p TrimPrefix_append by (rule TrimSuffix_append)
  have "h_agent_purge r w = (Inr x, w')"
    using endpoint unfolding admin_route_agent [OF p delete] if_P [OF suffix] .
  then have "map_of (rows w') (Key ''agents'' i) = None"
    unfolding h_agent_purge_def name by (auto simp: did dest: deleteAgent_effect)
  with found show ?thesis by simp
qed

lemma delete_loop_did:
  fixes w :: server
  assumes "foreach ds (\<lambda>d. andthen (lift (as d)) (\<lambda>x. if P x then tx_Delete kd (key x) else ret ())) w = (Inr u, w')"
  shows "rows w' = fold sql_delete
        (map (\<lambda>d. Key kd (key (projr (as d)))) (filter (\<lambda>d. P (projr (as d))) ds)) (rows w)"
  using assms
proof (induction ds arbitrary: w)
  case Nil
  then show ?case by (simp add: did)
next
  case (Cons d ds)
  then obtain x w1 where x: "as d = Inr x" and
    rest: "foreach ds (\<lambda>d. andthen (lift (as d)) (\<lambda>x. if P x then tx_Delete kd (key x) else ret ())) w1 = (Inr u, w')"
    and first: "rows w1 = (if P x then sql_delete (Key kd (key x)) (rows w) else rows w)"
    by (auto simp: did dest!: did_steps)
  show ?case using Cons.IH [OF rest] first x by auto
qed

lemma deleteSessions_did:
  assumes "deleteSessions name w = (Inr u, w')" and "well_stored (rows w)"
  shows "map_of (rows w') (Key ''sessions'' i) = Some (DSession s) \<Longrightarrow> se_Admin s \<noteq> name"
    and "kd \<noteq> ''sessions'' \<Longrightarrow> map_of (rows w') (Key kd i) = map_of (rows w) (Key kd i)"
proof -
  obtain w1 where w1: "rows w1 = rows w" and "foreach (map snd (sql_kind ''sessions'' (rows w))) (\<lambda>d.
      andthen (lift (as_session d)) (\<lambda>s. if se_Admin s = name then tx_Delete ''sessions'' (se_Hash s) else ret ()))
      w1 = (Inr u, w')"
    using assms(1) by (auto simp: deleteSessions_def did dest!: did_steps)
  note loop = delete_loop_did [where as = as_session and P = "\<lambda>s. se_Admin s = name" and kd = "''sessions''" and key = se_Hash, OF this(2)]
  have own: "own_rows as_session se_Hash ''sessions'' (rows w)" by (rule well_stored_own [OF assms(2)])
  have pk: "pk (rows w)" using assms(2) by (simp add: well_stored_def)
  have look: "map_of (rows w') k = (case map_of (rows w) k of None \<Rightarrow> None
      | Some d \<Rightarrow> if kind_of k = ''sessions'' \<and> se_Admin (projr (as_session d)) = name then None else Some d)" for k
    using delete_loop_lookup [OF pk own [unfolded own_rows_def, rule_format],
      where P = "\<lambda>s. se_Admin s = name"] loop by (simp add: w1)
  show "map_of (rows w') (Key ''sessions'' i) = Some (DSession s) \<Longrightarrow> se_Admin s \<noteq> name"
    by (auto simp: look as_session_def split: option.splits if_splits)
  show "kd \<noteq> ''sessions'' \<Longrightarrow> map_of (rows w') (Key kd i) = map_of (rows w) (Key kd i)"
    by (simp add: look split: option.split)
qed

lemma h_administrator_put_did:
  assumes "h_administrator_put E r w = (Inr x, w')"
  shows "\<exists>c h w1. credentials_of r = Inr c \<and> (\<exists>i. bcrypt_gen E i (cr_Password c) = Some h) \<and>
     deleteSessions (cr_Name c) w1 = (Inr (), w') \<and> 12 \<le> length (cr_Password c) \<and> 
     rows w1 = row_put (Key ''admins'' (cr_Name c)) (DAdmin \<lparr>ad_Name = cr_Name c, ad_Password = h\<rparr>) (rows w)"
  using assms
  by (simp only: h_administrator_put_def did Let_def credentials_of_def [symmetric] simp_thms, clarify)
     ((drule did_steps)+, auto simp: bcrypt_hash_def with_draws_def split: option.splits)

lemma h_administrator_delete_did:
  assumes "UrlPath r = ''/api/v1/admin/administrators/'' @ name" and "h_administrator_delete r s w = (Inr x, w')"
  shows "name \<noteq> se_Admin s \<and> (\<exists>w1. deleteSessions name w1 = (Inr (), w') \<and>
     rows w1 = sql_delete (Key ''admins'' name) (rows w))"
proof -
  have "TrimPrefix (UrlPath r) ''/api/v1/admin/administrators/'' = name"
    by (simp only: assms(1) TrimPrefix_append)
  with assms(2) show ?thesis
    by (auto simp: h_administrator_delete_def did dest!: did_steps)
qed

lemma admin_route_administrator:
  "UrlPath r = ''/api/v1/admin/administrators'' \<Longrightarrow> Method r = ''POST'' \<Longrightarrow>
     admin_route E r s = h_administrator_put E r"
  "UrlPath r = ''/api/v1/admin/administrators/'' @ name \<Longrightarrow> Method r = ''DELETE'' \<Longrightarrow>
     admin_route E r s = h_administrator_delete r s"
  by (simp_all add: admin_route_def writers_base_def HasPrefix_step)

lemma sessions_gone:
  assumes "well_stored (rows w)" and "deleteSessions name w = (Inr u, w')"
    and "valid_session E w' r t = Some s"
  shows "se_Admin s \<noteq> name"
proof -
  obtain c where "map_of (rows w') (Key ''sessions'' (Hash E c)) = Some (DSession s)"
    using assms(3) by (auto simp: valid_session_Some)
  then show ?thesis by (rule deleteSessions_did(1) [OF assms(2,1)])
qed

section \<open>Issuing enrollment tokens\<close>

lemma ttl_duration_exact:
  assumes "1 \<le> sint ttl" and "sint ttl \<le> 86400"
  shows "ttl_duration ttl = sint ttl * second_ns"
proof -
  have "sint (ttl * 1000000000) = signed_take_bit 63 (sint ttl * 1000000000)"
    by (simp add: sint_word_ariths)
  also have "\<dots> = sint ttl * 1000000000"
    using assms by (intro signed_take_bit_int_eq_self) simp_all
  finally show ?thesis by (simp add: ttl_duration_def second_ns_def)
qed

definition new_enrollment_of :: "request \<Rightarrow> err + new_enrollment" where
  "new_enrollment_of r = decode r new_enrollment_struct \<lparr>ne_AgentID = [], ne_TTL = 0\<rparr>"

lemma h_enrollment_create_effect:
  assumes "h_enrollment_create E r w = (Inr (v, code, k), w')"
  shows "\<exists>inp a. new_enrollment_of r = Inr inp \<and> 1 \<le> sint (ne_TTL inp) \<and> sint (ne_TTL inp) \<le> 86400 \<and>
    map_of (rows w) (Key ''agents'' (ne_AgentID inp)) = Some (DAgent a) \<and> \<not> ag_Revoked a \<and> ag_Hash a = [] \<and>
    (let token = token_at E (draws w);
         en = \<lparr>en_ID = token_at E (Suc (draws w)), en_AgentID = ag_ID a, en_Hash = Hash E token,
               en_Expires = clock E (ticks w) + ttl_duration (ne_TTL inp), en_Used = False\<rparr>
     in v = RNewEnrollment token (en_ID en) (en_AgentID en) (en_Expires en) \<and> ticks w' = Suc (ticks w) \<and>
        rows w' = row_put (Key ''enrollment'' (Hash E token)) (DEnrollment en) (rows w))"
  using assms
  by (simp only: h_enrollment_create_def did Let_def new_enrollment_of_def [symmetric] simp_thms, clarify)
     ((drule did_steps)+, auto simp: same_fields_def)

section \<open>Concrete requests for the witnesses\<close>

definition demo_enroll :: request where
  "demo_enroll = demo_request ''POST'' ''/api/v1/enroll'' (demo_object [(''token'', ''x'')])"

definition demo_unenrolled :: "doc table" where
  "demo_unenrolled =
     [(Key ''enrollment'' (Hash demo_senv ''x''),
       DEnrollment \<lparr>en_ID = ''e1'', en_AgentID = ''a1'', en_Hash = Hash demo_senv ''x'',
         en_Expires = 99 * second_ns, en_Used = False\<rparr>),
      (Key ''agents'' ''a1'', DAgent (demo_agent\<lparr>ag_Hash := []\<rparr>))]"

definition demo_login :: request where
  "demo_login =
     demo_request ''POST'' ''/api/v1/login'' (demo_object [(''name'', ''root''), (''password'', ''pw'')])"

definition demo_issue :: request where
  "demo_issue = demo_request ''POST'' ''/api/v1/admin/enrollment''
     ([CHR 0x7B] @ demo_members [(''agent_id'', ''a1'')] @ '','' @
      [CHR 0x22] @ ''ttl_seconds'' @ [CHR 0x22] @ '':60'' @ [CHR 0x7D])"

lemma demo_enroll_token: "enrollment_token_of demo_enroll = Inr ''x''"
proof -
  have "decode_bytes (demo_object [(''token'', ''x'')]) (string_struct ''token'') [] = Inr ''x''"
    by code_simp
  then show ?thesis by (simp add: enrollment_token_of_def demo_enroll_def decode_short demo_object_def)
qed

lemma demo_credentials: "credentials_of demo_login = Inr \<lparr>cr_Name = ''root'', cr_Password = ''pw''\<rparr>"
proof -
  have "decode_bytes (demo_object [(''name'', ''root''), (''password'', ''pw'')]) credentials_struct
      \<lparr>cr_Name = [], cr_Password = []\<rparr> = Inr \<lparr>cr_Name = ''root'', cr_Password = ''pw''\<rparr>"
    by code_simp
  then show ?thesis by (simp add: credentials_of_def demo_login_def decode_short demo_object_def)
qed

lemma demo_new_enrollment: "new_enrollment_of demo_issue = Inr \<lparr>ne_AgentID = ''a1'', ne_TTL = 60\<rparr>"
proof -
  have "decode_bytes (Body demo_issue) new_enrollment_struct \<lparr>ne_AgentID = [], ne_TTL = 0\<rparr> =
      Inr \<lparr>ne_AgentID = ''a1'', ne_TTL = 60\<rparr>"
    by code_simp
  then show ?thesis by (simp add: new_enrollment_of_def demo_issue_def decode_short)
qed

lemma demo_issue_run:
  "(case fst (h_enrollment_create demo_senv demo_issue (demo_state demo_unenrolled)) of
      Inl e \<Rightarrow> False | Inr x \<Rightarrow> True)"
proof -
  have "wpre (h_enrollment_create demo_senv demo_issue)
      (\<lambda>x w'. case x of Inl e \<Rightarrow> False | Inr y \<Rightarrow> True) (demo_state demo_unenrolled)"
    using demo_new_enrollment
    by (simp add: h_enrollment_create_def wp demo_unenrolled_def new_enrollment_of_def demo_agent_def as_defs)
  then show ?thesis by (simp add: wpre_def)
qed

lemma demo_enroll_run:
  obtains w' where "h_enroll demo_senv demo_enroll (demo_state demo_unenrolled) =
     (Inr (REnrolled ''a1'' (token_at demo_senv 0), 200, None), w')"
proof -
  have "wpre (h_enroll demo_senv demo_enroll)
      (\<lambda>x w'. x = Inr (REnrolled ''a1'' (token_at demo_senv 0), 200, None)) (demo_state demo_unenrolled)"
    using demo_enroll_token
    by (simp add: h_enroll_def limited_def wpre_limit wp demo_unenrolled_def
       enrollment_token_of_def demo_agent_def demo_clock second_ns_def as_defs)
  then show thesis
    using that by (cases "h_enroll demo_senv demo_enroll (demo_state demo_unenrolled)") (auto simp: wpre_def)
qed

lemma Hash_nonempty: "sha256 E t \<noteq> [] \<Longrightarrow> Hash E t \<noteq> []"
  using length_hex_encode [of "sha256 E t"] by (auto simp: Hash_def)

lemma demo_Hash_nonempty: "t \<noteq> [] \<Longrightarrow> Hash demo_senv t \<noteq> []"
  by (rule Hash_nonempty) (simp add: demo_senv_def demo_env_def env.defs)

lemma demo_stored: "well_stored demo_unenrolled" "well_stored demo_rows"
  by (auto simp: well_stored_def demo_unenrolled_def demo_agent_def demo_rows_def demo_session_def demo_hash)

lemma demo_bcrypt: "bcrypt_gen demo_senv i p = Some h \<Longrightarrow> bcrypt_match demo_senv h p"
  by (simp add: demo_senv_def demo_env_def env.defs split: if_splits)

text \<open>A run that ends without an error, as an equation.\<close>

lemma succeeded:
  "(case fst y of Inl e \<Rightarrow> False | Inr x \<Rightarrow> True) \<Longrightarrow> y = (Inr (projr (fst y)), snd y)"
  by (cases y) (auto split: sum.splits)

section \<open>Properties\<close>

text \<open>C14: Logging in works exactly with a stored password, and the cookie it sets is the
  session: when no
  driver fault comes, the limiter allows and the body is well-formed, the answer is 401 with the
  records unchanged unless the named administrator's hash matches the password; then the
  answer sets a Secure, HttpOnly, SameSite=Strict cookie, and every request that carries it
  has this session, of that administrator, exactly until it expires.\<close>

theorem login_opens_session:
  assumes path: "UrlPath r = ''/api/v1/login''" "Method r = ''POST''"
    and "faults w = []" and "fst (limit E w) = Inr True" and "credentials_of r = Inr c"
    and stored: "well_stored (rows w)"
  shows "wpre (route E r) (\<lambda>x w'. case x of
      Inl e \<Rightarrow> e = ErrUnauth \<and> password_holder E w c = None \<and> rows w' = rows w
    | Inr (v, code, k) \<Rightarrow> password_holder E w c \<noteq> None \<and> code = 200 \<and>
        (\<exists>s ck. v = RSession s \<and> k = Some ck \<and> se_Admin s = cr_Name c \<and>
           ck_Name ck = ''ssm_session'' \<and> ck_Secure ck \<and> ck_HttpOnly ck \<and> ck_SameSite ck = ''Strict'' \<and>
           (\<forall>r' t. cookie r' ''ssm_session'' = Some (ck_Value ck) \<longrightarrow>
              valid_session E w' r' t = (if t < se_Expires s then Some s else None)))) w"
proof -
  have route: "route E r = h_login E r" using path by (simp add: route_def)
  have rows1: "rows (snd (limit E w)) = rows w" by (simp add: limit_run)
  show ?thesis
    unfolding route
  proof (rule wpre_h_login [OF assms(3-5)], goal_cases)
    case 1
    then show ?case by (simp add: rows1)
  next
    case (2 a s w')
    have found: "map_of (rows w) (Key ''admins'' (cr_Name c)) = Some (DAdmin a)"
      using 2(1) by (auto simp: password_holder_def split: option.splits doc.splits if_splits)
    have "ad_Name a = cr_Name c" using well_storedD [OF stored found] by simp
    with 2 found show ?case
      by (auto simp: session_cookie_def valid_session_def row_simps)
  qed
qed

lemma login_opens_session_witness:
  "wpre (route demo_senv demo_login) (\<lambda>x w'. case x of
      Inl e \<Rightarrow> False
    | Inr (v, code, k) \<Rightarrow> (\<exists>s ck. v = RSession s \<and> k = Some ck \<and> ck_HttpOnly ck \<and> se_Admin s = ''root'')) (demo_state demo_rows)"
proof -
  let ?c = "\<lparr>cr_Name = ''root'', cr_Password = ''pw''\<rparr>"
  have holder: "password_holder demo_senv (demo_state demo_rows) ?c \<noteq> None"
    by (simp add: password_holder_def demo_rows_def demo_senv_def demo_env_def env.defs)
  have limit: "fst (limit demo_senv (demo_state demo_rows)) = Inr True"
    by (simp add: limit_run demo_clock second_ns_def)
  have path: "UrlPath demo_login = ''/api/v1/login''" "Method demo_login = ''POST''"
    by (simp_all add: demo_login_def)
  have stored: "well_stored (rows (demo_state demo_rows))" by (simp add: demo_stored)
  show ?thesis
    by (rule wpre_mono [OF login_opens_session [OF path _ limit demo_credentials stored]])
       (use holder in \<open>auto split: sum.splits if_splits\<close>)
qed

text \<open>C12: An enrollment token enrolls one agent once: a successful POST to enroll used a token
  that was unused and unexpired, for an agent that was neither enrolled nor revoked; the
  runtime token it returns authenticates exactly that agent in the state it leaves; and as long as the
  agent's record or the token's record stays as it is, every further enrollment with this
  token, or with another token of the same agent, fails.\<close>

theorem enroll_once:
  assumes run: "h_enroll E r w = (Inr (v, code, k), w')"
    and stored: "well_stored (rows w)" and hash: "Hash E (token_at E (draws w)) \<noteq> []"
  shows "\<exists>token0 token en a. enrollment_token_of r = Inr token0 \<and> enrollable E w token0 = Some (en, a) \<and>
     (\<exists>t \<ge> ticks w. clock E t < en_Expires en) \<and> v = REnrolled (ag_ID a) token \<and>
     (\<forall>r'. bearer_token r' = Some token \<longrightarrow> agent_holder E w' r' = Some (a\<lparr>ag_Hash := Hash E token\<rparr>)) \<and>
     (\<forall>r2 w2 token2.
        enrollment_token_of r2 = Inr token2 \<and>
        (token2 = token0 \<and> map_of (rows w2) (Key ''enrollment'' (Hash E token0)) =
             map_of (rows w') (Key ''enrollment'' (Hash E token0)) \<or>
         map_of (rows w2) (Key ''agents'' (ag_ID a)) = map_of (rows w') (Key ''agents'' (ag_ID a)) \<and>
         (\<exists>en2. map_of (rows w2) (Key ''enrollment'' (Hash E token2)) = Some (DEnrollment en2) \<and>
            en_AgentID en2 = ag_ID a)) \<longrightarrow>
        (\<exists>e. fst (h_enroll E r2 w2) = Inl e))"
proof -
  from h_enroll_effect [OF run] obtain token0 en a where
    token0: "enrollment_token_of r = Inr token0" "enrollable E w token0 = Some (en, a)" and
    v: "v = REnrolled (ag_ID a) (token_at E (draws w))" and
    live: "\<exists>t \<ge> ticks w. clock E t < en_Expires en" and
    rows': "rows w' = enrolled_rows E (token_at E (draws w)) en a (rows w)"
    by (auto split: option.splits)
  let ?token = "token_at E (draws w)"
  have own: "en_Hash en = Hash E token0"
    using token0(2) by (auto simp: enrollable_Some dest: well_storedD [OF stored])
  have used: "map_of (rows w') (Key ''enrollment'' (Hash E token0)) = Some (DEnrollment (en\<lparr>en_Used := True\<rparr>))"
    and taken: "map_of (rows w') (Key ''agents'' (ag_ID a)) = Some (DAgent (a\<lparr>ag_Hash := Hash E ?token\<rparr>))"
    and index: "map_of (rows w') (Key ''credentials'' (Hash E ?token)) = Some (DIndex (ag_ID a))"
    using own by (simp_all add: rows' enrolled_rows_def row_simps)
  have "agent_holder E w' r' = Some (a\<lparr>ag_Hash := Hash E ?token\<rparr>)" if "bearer_token r' = Some ?token" for r'
    using that index taken token0(2) by (simp add: holds_Some enrollable_Some as_defs)
  moreover have "enrollable E w2 token2 = None"
    if "token2 = token0 \<and> map_of (rows w2) (Key ''enrollment'' (Hash E token0)) =
             map_of (rows w') (Key ''enrollment'' (Hash E token0)) \<or>
         map_of (rows w2) (Key ''agents'' (ag_ID a)) = map_of (rows w') (Key ''agents'' (ag_ID a)) \<and>
         (\<exists>en2. map_of (rows w2) (Key ''enrollment'' (Hash E token2)) = Some (DEnrollment en2) \<and>
            en_AgentID en2 = ag_ID a)" for w2 token2
    using that used taken hash by (auto simp: enrollable_def)
  ultimately show ?thesis
    using token0 v live by (intro exI [of _ token0] exI [of _ ?token] exI [of _ en] exI [of _ a])
      (auto intro: h_enroll_refusal)
qed

lemma enroll_once_witness:
  "\<exists>w'. h_enroll demo_senv demo_enroll (demo_state demo_unenrolled) =
       (Inr (REnrolled ''a1'' (token_at demo_senv 0), 200, None), w') \<and>
     (\<exists>e. fst (h_enroll demo_senv demo_enroll w') = Inl e)"
proof -
  obtain w' where run: "h_enroll demo_senv demo_enroll (demo_state demo_unenrolled) =
     (Inr (REnrolled ''a1'' (token_at demo_senv 0), 200, None), w')"
    by (rule demo_enroll_run)
  have "well_stored (rows (demo_state demo_unenrolled))" by (simp add: demo_stored)
  from enroll_once [OF run this] demo_Hash_nonempty run show ?thesis
    by (auto simp: demo_enroll_token)
qed

text \<open>C13: Revocation works at once: when a DELETE of an agent, of an agent's purge path or of
  a write credential is answered with success, then in the very state it leaves no token
  authenticates as that agent or that credential any more.\<close>

theorem revocation_immediate:
  assumes run: "route E r w = (Inr x, w')" and stored: "well_stored (rows w)"
    and delete: "Method r = ''DELETE''"
    and path: "UrlPath r = ''/api/v1/admin/agents/'' @ i \<and> \<not> HasSuffix (UrlPath r) ''/purge'' \<or>
      UrlPath r = ''/api/v1/admin/agents/'' @ i @ ''/purge'' \<or> UrlPath r = writers_base @ ''/'' @ i"
  shows "if HasPrefix (UrlPath r) writers_base
    then (case writer_holder E w' r' of None \<Rightarrow> True | Some c \<Rightarrow> wc_ID c \<noteq> i)
    else (case agent_holder E w' r' of None \<Rightarrow> True | Some a \<Rightarrow> ag_ID a \<noteq> i)"
proof -
  have stored': "well_stored (rows w')"
    using stepsD [OF route_stored run] stored by simp
  have "HasPrefix (UrlPath r) ''/api/v1/admin/''"
    using path by (auto simp: HasPrefix_step writers_base_def)
  then obtain s w1 where endpoint: "admin_route E r s w1 = (Inr x, w')" and rows1: "rows w1 = rows w"
    using run by (rule route_admin_did)
  have stored1: "well_stored (rows w1)" using stored rows1 by simp
  show ?thesis
  proof (cases "HasPrefix (UrlPath r) writers_base")
    case False
    then have path': "UrlPath r = ''/api/v1/admin/agents/'' @ i \<and> \<not> HasSuffix (UrlPath r) ''/purge'' \<or>
        UrlPath r = ''/api/v1/admin/agents/'' @ i @ ''/purge''"
      using path by (auto simp: HasPrefix_step writers_base_def)
    show ?thesis
      using False revoked_agent_gone [OF stored' agent_delete_revokes [OF endpoint delete stored1 path']]
      by (auto split: option.split)
  next
    case True
    then have path': "UrlPath r = writers_base @ ''/'' @ i"
      using path by (auto simp: HasPrefix_step writers_base_def)
    then obtain v where v: "manageWriteCredentials E r w1 = (Inr v, w')"
      using endpoint unfolding admin_route_writer [OF path'] by (auto simp: did)
    have "wc_Revoked c" if c: "map_of (rows w') (Key ''writers'' i) = Some (DWriter c)" for c
    proof -
      obtain c1 where c1: "map_of (rows w1) (Key ''writers'' i) = Some (DWriter c1)"
        "map_of (rows w') (Key ''writers'' (wc_ID c1)) = Some (DWriter (c1\<lparr>wc_Revoked := True\<rparr>))"
        using writers_revoke_effect [OF path' delete v] by blast
      moreover have "wc_ID c1 = i" using well_storedD [OF stored1 c1(1)] by simp
      ultimately show ?thesis using c by auto
    qed
    with True show ?thesis
      using revoked_writer_gone [OF stored'] by (auto split: option.split)
  qed
qed

lemma revocation_immediate_witness:
  "\<forall>r'. case agent_holder demo_senv (snd (route demo_senv
       (demo_request ''DELETE'' ''/api/v1/admin/agents/a1'' []) (demo_state demo_rows))) r' of
     None \<Rightarrow> True | Some a \<Rightarrow> ag_ID a \<noteq> ''a1''"
proof -
  let ?r = "demo_request ''DELETE'' ''/api/v1/admin/agents/a1'' []"
  have "(case fst (route demo_senv ?r (demo_state demo_rows)) of Inl e \<Rightarrow> False | Inr x \<Rightarrow> True)"
    by code_simp
  from revocation_immediate [OF succeeded [OF this], of "''a1''"] show ?thesis
    by (auto simp: demo_stored HasSuffix_def suffix_def writers_base_def HasPrefix_step)
qed

text \<open>C15: Changing a password or deleting an administrator ends every session of that name in
  the same request: in the state a successful answer leaves, no cookie stands for a session
  of the name, at any time; a changed password opens the account from then on, and a deleted
  administrator's name has no password at all.\<close>

theorem sessions_end:
  assumes run: "route E r w = (Inr x, w')" and stored: "well_stored (rows w)"
    and law: "\<And>i h. bcrypt_gen E i p = Some h \<Longrightarrow> bcrypt_match E h p"
    and change: "UrlPath r = ''/api/v1/admin/administrators'' \<and> Method r = ''POST'' \<and>
        credentials_of r = Inr \<lparr>cr_Name = name, cr_Password = p\<rparr> \<or>
      UrlPath r = ''/api/v1/admin/administrators/'' @ name \<and> Method r = ''DELETE''"
  shows "(case valid_session E w' r' t of None \<Rightarrow> True | Some s \<Rightarrow> se_Admin s \<noteq> name) \<and>
    (password_holder E w' \<lparr>cr_Name = name, cr_Password = p\<rparr> \<noteq> None \<longleftrightarrow> Method r = ''POST'')"
proof -
  have "HasPrefix (UrlPath r) ''/api/v1/admin/''"
    using change by (auto simp: HasPrefix_step)
  then obtain s w1 where endpoint: "admin_route E r s w1 = (Inr x, w')" and rows1: "rows w1 = rows w"
    using run by (rule route_admin_did)
  obtain w2 d where sweep: "deleteSessions name w2 = (Inr (), w')" and stored2: "well_stored (rows w2)"
    and d: "map_of (rows w2) (Key ''admins'' name) = d"
    and held: "Method r = ''POST'' \<and> (\<exists>h. d = Some (DAdmin \<lparr>ad_Name = name, ad_Password = h\<rparr>) \<and> bcrypt_match E h p) \<or>
      Method r = ''DELETE'' \<and> d = None"
    using change
  proof (elim disjE conjE)
    assume p: "UrlPath r = ''/api/v1/admin/administrators''" "Method r = ''POST''"
      "credentials_of r = Inr \<lparr>cr_Name = name, cr_Password = p\<rparr>"
    then obtain h w2 where h: "\<exists>i. bcrypt_gen E i p = Some h" and w2: "deleteSessions name w2 = (Inr (), w')"
      "rows w2 = row_put (Key ''admins'' name) (DAdmin \<lparr>ad_Name = name, ad_Password = h\<rparr>) (rows w1)"
      using h_administrator_put_did [of E r w1 x w'] endpoint by (auto simp: admin_route_administrator(1))
    have "well_stored (rows w2)"
      unfolding w2(2) rows1 by (rule well_stored_put [OF stored]) simp
    with w2 h law p(2) show thesis by (intro that [of w2]) (auto simp: row_simps)
  next
    assume p: "UrlPath r = ''/api/v1/admin/administrators/'' @ name" "Method r = ''DELETE''"
    then obtain w2 where w2: "deleteSessions name w2 = (Inr (), w')"
      "rows w2 = sql_delete (Key ''admins'' name) (rows w1)"
      using h_administrator_delete_did [OF p(1), of s w1 x w'] endpoint by (auto simp: admin_route_administrator(2) [OF p])
    have "well_stored (rows w2)"
      unfolding w2(2) rows1 by (rule well_stored_delete [OF stored])
    with w2 p(2) show thesis by (intro that [of w2]) (auto simp: row_simps)
  qed
  have "map_of (rows w') (Key ''admins'' name) = d"
    using deleteSessions_did(2) [OF sweep stored2, of "''admins''" name] d by simp
  with held sessions_gone [OF stored2 sweep] show ?thesis
    by (auto simp: password_holder_def split: option.split)
qed

lemma sessions_end_witness:
  "\<forall>p. password_holder demo_senv (snd (route demo_senv
     (demo_request ''DELETE'' ''/api/v1/admin/administrators/admin'' []) (demo_state demo_rows)))
     \<lparr>cr_Name = ''admin'', cr_Password = p\<rparr> = None"
proof -
  let ?r = "demo_request ''DELETE'' ''/api/v1/admin/administrators/admin'' []"
  have "(case fst (route demo_senv ?r (demo_state demo_rows)) of Inl e \<Rightarrow> False | Inr x \<Rightarrow> True)"
    by code_simp
  from sessions_end [OF succeeded [OF this], of _ "''admin''"] show ?thesis
    by (simp add: demo_stored demo_bcrypt)
qed

text \<open>C16: An enrollment token lives for the seconds asked for, counted from the moment it is
  created, and at most a day: the one reading of the clock the endpoint makes, while it handles
  this request, is the start of its life (\<open>clock E\<close> at the server's next reading; a stale time
  would not do), the 64-bit product of the time to live and the length of a second never wraps for an accepted
  request, so the token the answer returns is not expired when it is created and expires within 24
  hours of that moment; and in the state left behind it can be used, for the agent asked for.\<close>

theorem enrollment_lifetime:
  assumes run: "h_enrollment_create E r w = (Inr (v, code, k), w')" and stored: "well_stored (rows w)"
  shows "\<exists>inp token en a. new_enrollment_of r = Inr inp \<and> v = RNewEnrollment token (en_ID en) (en_AgentID en) (en_Expires en) \<and>
    enrollable E w' token = Some (en, a) \<and> ag_ID a = ne_AgentID inp \<and> ticks w' = Suc (ticks w) \<and>
    en_Expires en = clock E (ticks w) + sint (ne_TTL inp) * second_ns \<and>
    clock E (ticks w) < en_Expires en \<and> en_Expires en \<le> clock E (ticks w) + 24 * 60 * 60 * second_ns"
proof -
  from h_enrollment_create_effect [OF run] obtain inp a where
    inp: "new_enrollment_of r = Inr inp" "1 \<le> sint (ne_TTL inp)" "sint (ne_TTL inp) \<le> 86400" and
    a: "map_of (rows w) (Key ''agents'' (ne_AgentID inp)) = Some (DAgent a)" "\<not> ag_Revoked a" "ag_Hash a = []" and
    effect: "let token = token_at E (draws w);
         en = \<lparr>en_ID = token_at E (Suc (draws w)), en_AgentID = ag_ID a, en_Hash = Hash E token,
               en_Expires = clock E (ticks w) + ttl_duration (ne_TTL inp), en_Used = False\<rparr>
     in v = RNewEnrollment token (en_ID en) (en_AgentID en) (en_Expires en) \<and> ticks w' = Suc (ticks w) \<and>
        rows w' = row_put (Key ''enrollment'' (Hash E token)) (DEnrollment en) (rows w)"
    by blast
  have own: "ag_ID a = ne_AgentID inp" using well_storedD [OF stored a(1)] by simp
  show ?thesis
    using effect inp a own
    by (intro exI [of _ inp] exI [of _ "token_at E (draws w)"]
        exI [of _ "\<lparr>en_ID = token_at E (Suc (draws w)), en_AgentID = ag_ID a, en_Hash = Hash E (token_at E (draws w)),
               en_Expires = clock E (ticks w) + ttl_duration (ne_TTL inp), en_Used = False\<rparr>"]
        exI [of _ a])
      (simp add: Let_def enrollable_Some row_simps ttl_duration_exact second_ns_def)
qed

lemma enrollment_lifetime_witness:
  "\<exists>token. enrollable demo_senv (snd (h_enrollment_create demo_senv demo_issue (demo_state demo_unenrolled)))
     token \<noteq> None"
proof -
  let ?x = "projr (fst (h_enrollment_create demo_senv demo_issue (demo_state demo_unenrolled)))"
  obtain v code k where x: "?x = (v, code, k)" by (cases ?x)
  from enrollment_lifetime [OF succeeded [OF demo_issue_run, unfolded x]]
  show ?thesis by (auto simp: demo_stored)
qed

end
