(* ===== verification/Disclosure.thy ===== *)
theory Disclosure
  imports Replies Accounts
begin

text \<open>
  What the answers of the API give away, down to the member names of their JSON: what is meant
  to stay in the store never leaves it, and values, tokens and sessions leave by their own
  endpoints only.
\<close>

section \<open>Member names\<close>

text \<open>Every member of a JSON value, at any depth, has a name that satisfies \<open>P\<close>.\<close>

fun all_members :: "(string \<Rightarrow> bool) \<Rightarrow> json \<Rightarrow> bool" where
  "all_members P (JObject kvs) \<longleftrightarrow> list_all (\<lambda>(k, v). P k \<and> all_members P v) kvs"
| "all_members P (JArray vs) \<longleftrightarrow> list_all (all_members P) vs"
| "all_members P v \<longleftrightarrow> True"

text \<open>
  The names of members that hold what stays in the store, and the endpoints whose answers may
  have a value, a token or a session.
\<close>

definition confidential :: "string list" where
  "confidential = [''ciphertext'', ''credential_hash'', ''token_hash'', ''password_hash'', ''salt'', ''wrapped'']"

definition permitted :: "request \<Rightarrow> string \<Rightarrow> bool" where
  "permitted r k \<longleftrightarrow> k \<notin> set confidential \<and>
     (k = ''value'' \<longrightarrow> Method r = ''GET'' \<and>
        (HasPrefix (UrlPath r) ''/api/v1/secrets/'' \<or> HasPrefix (UrlPath r) ''/api/v1/admin/secrets/'')) \<and>
     (k = ''token'' \<longrightarrow> Method r = ''POST'' \<and>
        UrlPath r \<in> {''/api/v1/enroll'', ''/api/v1/admin/enrollment'', ''/api/v1/admin/write-credentials''}) \<and>
     (k = ''session_id'' \<or> k = ''csrf'' \<longrightarrow>
        Method r = ''POST'' \<and> UrlPath r = ''/api/v1/login'' \<or> Method r = ''GET'' \<and> UrlPath r = ''/api/v1/admin/session'')"

text \<open>The names anybody may see.\<close>

definition harmless :: "string list" where
  "harmless = [''path'', ''revision'', ''created_at'', ''updated_at'', ''algorithm'', ''deleted'', ''id'', ''name'',
     ''paths'', ''revoked'', ''agent_id'', ''expires_at'', ''used'', ''allow_create'', ''timestamp'', ''identity'',
     ''operation'', ''success'', ''source'', ''admin'', ''ok'', ''locked'', ''version'', ''data'', ''enrollment'', ''credential'']"

lemma permitted_harmless: "list_all (permitted r) harmless"
proof -
  have "list_all (\<lambda>k. k \<notin> set confidential \<and> k \<noteq> ''value'' \<and> k \<noteq> ''token'' \<and> k \<noteq> ''session_id'' \<and> k \<noteq> ''csrf'') harmless"
    by code_simp
  then show ?thesis by (rule list.pred_mono_strong) (simp add: permitted_def)
qed

lemma permitted_names [simp]:
  "permitted r ''path''" "permitted r ''revision''" "permitted r ''created_at''" "permitted r ''updated_at''" "permitted r ''algorithm''"
  "permitted r ''deleted''" "permitted r ''id''" "permitted r ''name''" "permitted r ''paths''" "permitted r ''revoked''"
  "permitted r ''agent_id''" "permitted r ''expires_at''" "permitted r ''used''" "permitted r ''allow_create''" "permitted r ''timestamp''"
  "permitted r ''identity''" "permitted r ''operation''" "permitted r ''success''" "permitted r ''source''" "permitted r ''admin''"
  "permitted r ''ok''" "permitted r ''locked''" "permitted r ''version''" "permitted r ''data''" "permitted r ''enrollment''"
  "permitted r ''credential''"
  using permitted_harmless [of r] by (simp_all add: harmless_def)

lemma permitted_value: "entitled r (RValue x p n c u) \<Longrightarrow> permitted r ''value''"
  by (simp add: permitted_def confidential_def)

lemma permitted_token:
  "asks_for r ''POST'' ''/api/v1/enroll'' \<or> asks_for r ''POST'' ''/api/v1/admin/enrollment'' \<or>
     asks_for r ''POST'' ''/api/v1/admin/write-credentials'' \<Longrightarrow> permitted r ''token''"
  by (auto simp: permitted_def confidential_def)

lemma permitted_session: "entitled r (RSession s) \<Longrightarrow> permitted r ''session_id'' \<and> permitted r ''csrf''"
  by (auto simp: permitted_def confidential_def)

section \<open>The members of the records\<close>

lemma all_members_unless:
  "list_all (\<lambda>(k, v). P k \<and> all_members P v) (unless_empty absent k v) \<longleftrightarrow> absent \<or> P k \<and> all_members P v"
  by (simp add: unless_empty_def)

lemma all_members_strings [simp]: "all_members P (strings_json xs)"
  by (simp add: strings_json_def list_all_iff)

lemma record_members:
  "sec_Ciphertext s = [] \<Longrightarrow> all_members (permitted r) (secret_json stamp s)"
  "ag_Hash a = [] \<Longrightarrow> all_members (permitted r) (agent_json stamp a)"
  "en_Hash e = [] \<Longrightarrow> all_members (permitted r) (enrollment_json stamp e)"
  "wc_Hash c = [] \<Longrightarrow> all_members (permitted r) (writer_json stamp c)"
  "all_members (permitted r) (audit_json stamp d)"
  by (simp_all add: secret_json_def agent_json_def enrollment_json_def writer_json_def audit_json_def all_members_unless)

text \<open>An answer to which the request is entitled and that is discreet has only permitted members.\<close>

lemma plain_members:
  assumes "plain r v" and "\<And>ds. v = RRows ds \<Longrightarrow> list_all (\<lambda>d. \<exists>a. d = DAudit a) ds"
  shows "all_members (permitted r) (reply_json stamp v)"
proof (cases v)
  case (RSession s)
  then show ?thesis
    using assms(1) permitted_session [of r s] by (simp add: plain_def reply_json_def session_json_def)
next
  case (REnrolled i token)
  then show ?thesis using assms(1) by (simp add: plain_def reply_json_def permitted_token)
next
  case (RNewEnrollment token i a t)
  then show ?thesis using assms(1) by (simp add: plain_def reply_json_def permitted_token)
next
  case (RNewWriter c token)
  then show ?thesis using assms(1) by (simp add: plain_def reply_json_def permitted_token record_members)
next
  case (RValue x p n c u)
  then show ?thesis using assms(1) permitted_value [of r x p n c u] by (simp add: plain_def reply_json_def)
next
  case (RRows ds)
  then show ?thesis
    using assms(2) by (auto simp: reply_json_def list_all_iff doc_json_def record_members)
qed (use assms(1) in \<open>auto simp: plain_def reply_json_def list_all_iff record_members\<close>)

section \<open>The audit log\<close>

lemma h_audit_documents:
  assumes "route E r w = (Inr (RRows ds, code, ck), w')" and "well_stored (rows w)"
    and "asks_for r ''GET'' ''/api/v1/admin/audit''"
  shows "list_all (\<lambda>d. \<exists>a. d = DAudit a) ds"
proof -
  have "HasPrefix (UrlPath r) ''/api/v1/admin/''" using assms(3) by (simp add: HasPrefix_step)
  then obtain s w1 where run: "admin_route E r s w1 = (Inr (RRows ds, code, ck), w')" and w1: "rows w1 = rows w"
    using assms(1) by (rule route_admin_did)
  have "admin_route E r s = h_audit"
    using admin_route_below [of r "''audit''" E s] assms(3) by (simp add: HasPrefix_step)
  with run have "ds = map snd (sql_kind ''audit'' (rows w))"
    by (auto simp: h_audit_def did w1 dest!: did_tx)
  moreover have "\<exists>a. d = DAudit a" if "(k, d) \<in> set (sql_kind ''audit'' (rows w))" for k d
  proof -
    have "kind_of k = ''audit''" "stored_ok k d"
      using that assms(2) sql.listing_set [of "rows w" "''audit''"] by (auto simp: well_stored_def)
    then show ?thesis by (cases k) simp
  qed
  ultimately show ?thesis by (auto simp: list_all_iff)
qed

section \<open>Properties\<close>



end
