(* ===== verification/Opening.thy ===== *)
theory Opening
  imports Storage
begin

text \<open>
  Opening the record store (\<open>Open\<close> in internal/storage/storage.go): the choice of the driver,
  the connection, the two settings SQLite needs, and the migration, with the handle given back
  on every error.
\<close>

section \<open>The database handle\<close>

text \<open>
  A database as the drivers see it: how many handles of this process are open, the settings its
  connection has been given, newest last, and how many connections a handle may use.
\<close>

record 'd pool = "'d disk" +
  handles :: nat
  pragmas :: "string list"
  max_conns :: nat

definition known_driver :: "string \<Rightarrow> bool" where
  "known_driver driver \<longleftrightarrow> driver = ''sqlite'' \<or> driver = ''mysql''"

text \<open>\<open>sql.Open\<close> gives a handle unless the driver rejects the data source name.\<close>

definition sql_Open :: "(('d, 'z) pool_scheme, unit) proc" where
  "sql_Open = stmt (modify (\<lambda>w. w\<lparr>handles := Suc (handles w), pragmas := [], max_conns := 0\<rparr>))"

definition Close :: "(('d, 'z) pool_scheme, unit) proc" where
  "Close = modify (\<lambda>w. w\<lparr>handles := handles w - 1\<rparr>)"

definition pragma :: "string \<Rightarrow> (('d, 'z) pool_scheme, unit) proc" where
  "pragma p = stmt (modify (\<lambda>w. w\<lparr>pragmas := pragmas w @ [p]\<rparr>))"

text \<open>\<open>if e = m; e != nil { db.Close(); return nil, e }\<close>.\<close>

definition or_close :: "(('d, 'z) pool_scheme, unit) proc \<Rightarrow> (('d, 'z) pool_scheme, unit) proc" where
  "or_close m =
     andthen (attempt m) (\<lambda>r. case r of
       Inl e \<Rightarrow> andthen Close (\<lambda>_. throw e)
     | Inr _ \<Rightarrow> ret ())"

definition sqlite_settings :: "string list" where
  "sqlite_settings = [''PRAGMA busy_timeout=10000'', ''PRAGMA journal_mode=WAL'']"

definition Open_store :: "string \<Rightarrow> (('d, 'z) pool_scheme, unit) proc" where
  "Open_store driver =
     (if \<not> known_driver driver then throw (ErrText ''storage driver must be sqlite or mysql'')
      else
        andthen sql_Open (\<lambda>_.
        andthen (modify (\<lambda>w. w\<lparr>max_conns := 1\<rparr>)) (\<lambda>_.
        andthen (or_close (stmt (ret ()))) (\<lambda>_.
        andthen (if driver = ''sqlite'' then foreach sqlite_settings (\<lambda>p. or_close (pragma p)) else ret ()) (\<lambda>_.
        or_close migrate)))))"

section \<open>What a migration changes\<close>

lemma disk_after_stmt [simp]:
  fixes w :: "('d, 'z) disk_scheme"
  shows "tables (after_stmt w) = tables w" "versions (after_stmt w) = versions w" "mutex (after_stmt w) = mutex w"
    "disk.more (after_stmt w) = disk.more w"
  by (cases w; simp add: after_stmt_def)+

text \<open>A migration adds to the schema and to nothing else.\<close>

definition only_schema :: "('d, 'z) disk_scheme \<Rightarrow> ('d, 'z) disk_scheme \<Rightarrow> bool" where
  "only_schema w w' \<longleftrightarrow> rows w' = rows w \<and> disk.more w' = disk.more w \<and>
     set (tables w) \<subseteq> set (tables w') \<and> set (mutex w) \<subseteq> set (mutex w') \<and>
     set (versions w) \<subseteq> set (versions w') \<and> set (versions w') \<subseteq> insert 1 (set (versions w))"

interpretation schema: step_relation only_schema
  by unfold_locales (auto simp: only_schema_def)

lemma schema_stmt:
  fixes m :: "(('d, 'z) disk_scheme, 'a) proc"
  assumes m: "\<And>w. wpre m (\<lambda>_. only_schema w) w"
  shows "steps only_schema (stmt m)"
proof (rule stepsI)
  fix w :: "('d, 'z) disk_scheme"
  have after: "only_schema w (after_stmt w)" by (auto simp: only_schema_def)
  then show "wpre (stmt m) (\<lambda>_. only_schema w) w"
    using wpre_mono [OF m [of "after_stmt w"] schema.R_trans [OF after]] by (simp add: wpre_stmt)
qed

lemmas schema_steps = schema.steps_pure schema.steps_combine

lemma schema_migrate: "steps only_schema migrate"
proof -
  have "steps only_schema (create_table t :: (('d, 'z) disk_scheme, unit) proc)" for t
    unfolding create_table_def by (rule schema_stmt) (auto simp: wp only_schema_def)
  moreover have "steps only_schema (insert_mutex :: (('d, 'z) disk_scheme, unit) proc)"
    unfolding insert_mutex_def by (rule schema_stmt) (auto simp: wpre_def only_schema_def)
  moreover have "steps only_schema (SchemaVersion :: (('d, 'z) disk_scheme, int) proc)"
    unfolding SchemaVersion_def by (rule schema_stmt) (auto simp: wpre_def only_schema_def)
  moreover have "steps only_schema (insert_version :: (('d, 'z) disk_scheme, unit) proc)"
    unfolding insert_version_def by (rule schema_stmt) (auto simp: wpre_def only_schema_def)
  ultimately show ?thesis
    unfolding migrate_def create_tables_def by (intro schema_steps steps_sum steps_if)
qed

text \<open>A migration that succeeds has migrated, whatever was there before.\<close>

lemma did_stmt: "stmt m w = (Inr x, w') \<longleftrightarrow> \<not> faulty w \<and> m (after_stmt w) = (Inr x, w')"
  by (simp add: stmt_def)

lemma create_tables_did:
  "create_tables w = (Inr (), w') \<Longrightarrow> set migration_tables \<subseteq> set (tables w')"
  by (auto simp: create_tables_def migration_tables_def create_table_def did did_stmt)

lemma migrate_did:
  assumes "migrate w = (Inr (), w')"
  shows "migrated w'"
proof -
  obtain w1 w2 v where tables: "create_tables w = (Inr (), w1)" and mutex: "insert_mutex w1 = (Inr (), w2)"
    and version: "SchemaVersion w2 = (Inr v, after_stmt w2)" "v = (case versions w2 of [] \<Rightarrow> 0 | v # vs \<Rightarrow> fold max vs v)" "v \<le> 1"
    and insert: "insert_version (after_stmt w2) = (Inr (), w')"
    using assms by (auto simp: migrate_def did SchemaVersion_def did_stmt split: if_splits)
  have ts: "set migration_tables \<subseteq> set (tables w1)" by (rule create_tables_did [OF tables])
  then show ?thesis
    using mutex insert version(2,3) fold_max_le_one [of "versions w2"]
    by (auto simp: migrated_def insert_mutex_def insert_version_def did_stmt split: if_splits)
qed

lemma wpre_migrate: "wpre migrate (\<lambda>r w'. only_schema w w' \<and> (r = Inr () \<longrightarrow> migrated w')) w"
  using stepsD [OF schema_migrate] migrate_did by (blast intro: wpreI)

lemma wpre_or_close:
  "wpre (or_close m) Q w \<longleftrightarrow>
     wpre m (\<lambda>r w'. case r of Inl e \<Rightarrow> Q (Inl e) (w'\<lparr>handles := handles w' - 1\<rparr>) | Inr u \<Rightarrow> Q (Inr ()) w') w"
  by (auto simp: or_close_def Close_def andthen_def attempt_def wpre_def throw_def ret_def modify_def
      split: prod.split sum.split)

section \<open>Opening is all or nothing\<close>

abbreviation pool_fields :: "('d, 'z) pool_scheme \<Rightarrow> nat \<times> string list \<times> nat" where
  "pool_fields w \<equiv> (handles w, pragmas w, max_conns w)"

lemma disk_more_fields: "disk.more w' = disk.more w \<Longrightarrow> pool_fields w' = pool_fields w"
  by (cases w; cases w'; simp)

lemma pool_after_stmt [simp]: "handles (after_stmt w) = handles w" "pragmas (after_stmt w) = pragmas w"
  "max_conns (after_stmt w) = max_conns w"
  by (cases w; simp add: after_stmt_def)+


lemma wpre_Open_store:
  "wpre (Open_store driver) (\<lambda>r w'. case r of Inl e \<Rightarrow> rows w' = rows w \<and> handles w' = handles w
    | Inr u \<Rightarrow> rows w' = rows w \<and> handles w' = Suc (handles w) \<and> max_conns w' = 1 \<and> known_driver driver \<and>
       migrated w' \<and> pragmas w' = (if driver = ''sqlite'' then sqlite_settings else [])) w"
proof -
  have migration: "wpre (or_close migrate) (\<lambda>r w'. case r of Inl e \<Rightarrow> rows w' = rows w \<and> handles w' = handles w
    | Inr u \<Rightarrow> rows w' = rows w \<and> handles w' = Suc (handles w) \<and> max_conns w' = 1 \<and> known_driver d \<and>
       migrated w' \<and> pragmas w' = ps) v"
    if "rows v = rows w" "handles v = Suc (handles w)" "max_conns v = 1" "known_driver d" "pragmas v = ps" for v d ps
    unfolding wpre_or_close
  proof (rule wpre_mono [OF wpre_migrate], goal_cases)
    case (1 r v')
    then have "pool_fields v' = pool_fields v" using disk_more_fields [of v' v] by (simp add: only_schema_def)
    with 1 that show ?case by (auto simp: only_schema_def split: sum.split)
  qed
  show ?thesis
    by (auto simp: Open_store_def sql_Open_def pragma_def sqlite_settings_def wp wpre_or_close [of "stmt m" for m]
        intro!: migration [simplified])
qed

text \<open>C20: Opening the store is all or nothing, whatever fails: it touches no record, and a handle is
  left open only when it succeeded; then the driver is one of the two, the handle has a single
  connection, the schema is complete and not newer than the program, and SQLite waits for
  locks and writes ahead. On an error the process has as many handles as before.\<close>

theorem Open_store_clean:
  "case Open_store driver w of
     (Inl e, w') \<Rightarrow> rows w' = rows w \<and> handles w' = handles w
   | (Inr u, w') \<Rightarrow> rows w' = rows w \<and> handles w' = Suc (handles w) \<and> max_conns w' = 1 \<and> known_driver driver \<and>
       migrated w' \<and> pragmas w' = (if driver = ''sqlite'' then sqlite_settings else [])"
  using wpre_Open_store [of driver w] by (simp add: wpre_def split_beta)

end
