(* ===== verification/ServerMain.thy ===== *)
theory ServerMain
  imports Replies Opening Lifecycle Startup
begin

text \<open>
  The server's command (cmd/ssm-server/main.go): private credential files, the configuration, the
  offline setup, serving, and the client that unlocks a running server.
\<close>

section \<open>Environment and machine\<close>

record server_config =
  sc_Listen :: string
  sc_Storage :: string
  sc_DSN :: string
  sc_TLSCert :: string
  sc_TLSKey :: string
  sc_SessionTTL :: string
  sc_LogLevel :: string

text \<open>
  Beside the libraries of the agent, whose HTTP client the command shares: the strict YAML decoder
  on the server's configuration, and \<open>time.Time.UnmarshalJSON\<close>.
\<close>

record command_env = agent_env +
  yaml_server_config :: "server_config \<Rightarrow> string \<Rightarrow> server_config option"
  parse_time :: "string \<Rightarrow> time option"

record server_flags =
  sf_Version :: bool
  sf_Config :: string
  sf_Setup :: bool
  sf_Unlock :: bool
  sf_Admin :: string
  sf_PasswordFile :: string
  sf_MasterFile :: string
  sf_Server :: string
  sf_CAFile :: string

text \<open>A POST of the unlock client, and what the HTTP client gets back for it.\<close>

record post =
  po_Url :: string
  po_CSRF :: string
  po_Cookies :: "(string \<times> string) list"
  po_Body :: string

datatype post_reply = NoAnswer | Posted int "set_cookie list" string

datatype listener_end = ListenerFailed | ServerClosed | Signalled

text \<open>
  The machine of the command: its files; the database the configured data source names; the
  positions in the random source and the clock; the requests that reach the listener and how
  listening ends; the client's cookies, the answers to come, and what it has posted, newest
  first.
\<close>

record machine = host +
  database :: "doc pool"
  m_draws :: nat
  m_ticks :: nat
  arriving :: "(streaming \<times> request) list"
  listening :: listener_end
  jar :: "(string \<times> string) list"
  post_replies :: "post_reply list"
  posted :: "post list"

section \<open>Credential files\<close>

definition TrimRight_lines :: "string \<Rightarrow> string" where
  "TrimRight_lines s = rev (dropWhile (\<lambda>c. c = CHR 0x0D \<or> c = CHR 0x0A) (rev s))"

definition readPrivate :: "'e agent_env_scheme \<Rightarrow> string \<Rightarrow> ('z host_scheme, string) proc" where
  "readPrivate E path =
     andthen (on_error (Lstat E path) (\<lambda>_. ErrText ''credential file unavailable'')) (\<lambda>st. case st of
       Reg f \<Rightarrow>
         if f_mode f mod 64 \<noteq> 0 then throw (ErrText ''credential files must be regular and mode 0600'')
         else andthen (on_error (ReadBytes E path) (\<lambda>_. ErrText ''credential file unreadable''))
           (\<lambda>b. ret (TrimRight_lines b))
     | _ \<Rightarrow> throw (ErrText ''credential files must be regular and mode 0600''))"

section \<open>The unlock client\<close>

text \<open>
  The cookie jar, for the one host the client talks to and the cookies of its whole site: a new
  value replaces the old one, a negative age removes it. Expiry is not modelled.
\<close>

definition keep_cookie :: "(string \<times> string) list \<Rightarrow> set_cookie \<Rightarrow> (string \<times> string) list" where
  "keep_cookie cs ck =
     (let others = filter (\<lambda>(n, v). n \<noteq> ck_Name ck) cs
      in if ck_MaxAge ck < 0 then others else others @ [(ck_Name ck, ck_Value ck)])"

definition post_exchange :: "post \<Rightarrow> ('z machine_scheme, int \<times> string) proc" where
  "post_exchange p = sys (\<lambda>w.
     let w = w\<lparr>posted := p # posted w\<rparr> in
     case post_replies w of
       [] \<Rightarrow> (Inl EIO, w)
     | NoAnswer # rs \<Rightarrow> (Inl EIO, w\<lparr>post_replies := rs\<rparr>)
     | Posted code cks b # rs \<Rightarrow> (Inr (code, b), w\<lparr>post_replies := rs, jar := foldl keep_cookie (jar w) cks\<rparr>))"

definition post_url :: "string \<Rightarrow> string \<Rightarrow> string" where
  "post_url origin path = strip_slashes origin @ ''/api/v1/'' @ path"

text \<open>At most 4096 bytes of an answer are decoded; \<open>dec\<close> decodes into the caller's variable.\<close>

definition cli_decode :: "(json \<Rightarrow> 't option) \<Rightarrow> string \<Rightarrow> err + 't" where
  "cli_decode dec b =
     (case json_next (take 4096 b) of
        JValue v rest \<Rightarrow> (case dec v of None \<Rightarrow> Inl json_error | Some x \<Rightarrow> Inr x)
      | _ \<Rightarrow> Inl json_error)"

definition cli_call ::
  "'e agent_env_scheme \<Rightarrow> string \<Rightarrow> string \<Rightarrow> string \<Rightarrow> (string \<times> string) list \<Rightarrow> (json \<Rightarrow> 't option) \<Rightarrow> ('z machine_scheme, 't) proc" where
  "cli_call E origin path csrf members dec =
     (if parse_url E (post_url origin path) = None then throw (ErrText ''invalid server URL'')
      else
        andthen (gets jar) (\<lambda>cookies.
        andthen (on_error (post_exchange \<lparr>po_Url = post_url origin path, po_CSRF = csrf, po_Cookies = cookies,
            po_Body = marshal_object (map (\<lambda>(k, v). (k, marshal_string v)) members)\<rparr>)
          (\<lambda>_. ErrText ''HTTPS request failed'')) (\<lambda>(code, b).
        if code \<noteq> 200 then throw (ErrText (''request failed: HTTP '' @ decimal code))
        else lift (cli_decode dec b))))"

definition zero_time_session :: session where
  "zero_time_session = \<lparr>se_Hash = [], se_Admin = [], se_CSRF = [], se_Expires = 0\<rparr>"

definition set_time :: "'e command_env_scheme \<Rightarrow> time \<Rightarrow> json \<Rightarrow> time option" where
  "set_time E old v = (case v of JNull \<Rightarrow> Some old | JString s \<Rightarrow> parse_time E s | _ \<Rightarrow> None)"

definition session_fields :: "'e command_env_scheme \<Rightarrow> string \<Rightarrow> json \<Rightarrow> session \<Rightarrow> session option" where
  "session_fields E =
     field ''session_id'' set_string se_Hash (\<lambda>x s. s\<lparr>se_Hash := x\<rparr>)
    (field ''admin'' set_string se_Admin (\<lambda>x s. s\<lparr>se_Admin := x\<rparr>)
    (field ''csrf'' set_string se_CSRF (\<lambda>x s. s\<lparr>se_CSRF := x\<rparr>)
    (field ''expires_at'' (set_time E) se_Expires (\<lambda>x s. s\<lparr>se_Expires := x\<rparr>) skip_field)))"

text \<open>Decoding into \<open>any\<close> takes every value.\<close>

definition any_value :: "json \<Rightarrow> unit option" where
  "any_value v = Some ()"

definition unlockServer ::
  "'e command_env_scheme \<Rightarrow> string \<Rightarrow> string \<Rightarrow> string \<Rightarrow> string \<Rightarrow> string \<Rightarrow> ('z machine_scheme, unit) proc" where
  "unlockServer E origin ca name passwordPath masterPath =
     (if \<not> HasPrefix origin ''https://'' then throw (ErrText ''HTTPS required'')
      else
        andthen (HTTPClient E ca) (\<lambda>_.
        andthen (modify (\<lambda>w. w\<lparr>jar := []\<rparr>)) (\<lambda>_.
        andthen (readPrivate E passwordPath) (\<lambda>password.
        andthen (readPrivate E masterPath) (\<lambda>master.
        andthen (cli_call E origin ''login'' [] [(''name'', name), (''password'', password)]
          (\<lambda>v. into_struct (session_fields E) v zero_time_session)) (\<lambda>session.
        deferring (cli_call E origin ''admin/unlock'' (se_CSRF session) [(''master'', master)] any_value)
          (cli_call E origin ''admin/logout'' (se_CSRF session) [] any_value)))))))"

section \<open>The command\<close>

definition default_server_config :: server_config where
  "default_server_config = \<lparr>sc_Listen = '':8443'', sc_Storage = ''sqlite'', sc_DSN = ''/var/lib/ssm-server/ssm.db'',
     sc_TLSCert = [], sc_TLSKey = [], sc_SessionTTL = ''8h'', sc_LogLevel = ''info''\<rparr>"

text \<open>The configuration, and the session lifetime it asks for.\<close>

definition load_server_config :: "'e command_env_scheme \<Rightarrow> string \<Rightarrow> ('z host_scheme, server_config \<times> int) proc" where
  "load_server_config E path =
     andthen (on_error (ReadBytes E path) (\<lambda>_. ErrText ''cannot read server configuration'')) (\<lambda>b.
     case yaml_server_config E default_server_config b of
       None \<Rightarrow> throw (ErrText ''invalid server configuration'')
     | Some c \<Rightarrow>
         if \<not> level_ok (sc_LogLevel c) then throw (ErrText ''invalid log_level'')
         else (case ParseDuration E (sc_SessionTTL c) of
             None \<Rightarrow> throw (ErrText ''session_ttl must be positive'')
           | Some ttl \<Rightarrow> if ttl \<le> 0 then throw (ErrText ''session_ttl must be positive'') else ret (c, ttl)))"

definition with_database :: "(doc pool, 'a) proc \<Rightarrow> ('z machine_scheme, 'a) proc" where
  "with_database m = (\<lambda>w. case m (database w) of (r, d) \<Rightarrow> (r, w\<lparr>database := d\<rparr>))"

text \<open>
  A new \<open>Server\<close> on the open store: it starts locked, with a fresh limiter. What it does to the
  records, and how far the random source and the clock get, stays with the machine.
\<close>

definition new_server :: "'z machine_scheme \<Rightarrow> server" where
  "new_server w = \<lparr>rows = rows (database w), faults = faults (database w), Vault = [], attempts = 0, window = 0,
     draws = m_draws w, ticks = m_ticks w, identity = [], apath = []\<rparr>"

definition with_server :: "'a handler \<Rightarrow> ('z machine_scheme, 'a) proc" where
  "with_server m = (\<lambda>w. case m (new_server w) of (r, s) \<Rightarrow>
     (r, w\<lparr>database := (database w)\<lparr>rows := rows s, faults := faults s\<rparr>, m_draws := draws s, m_ticks := ticks s\<rparr>))"

text \<open>The requests that arrive, one after the other; then the deferred \<open>Lock\<close>.\<close>

definition serve_requests :: "senv \<Rightarrow> (streaming \<times> request) list \<Rightarrow> unit handler" where
  "serve_requests S rs =
     deferring (foreach rs (\<lambda>(dl, r). andthen (attempt (ServeHTTP S dl r)) (\<lambda>_. ret ()))) (with_vault Lock)"

definition serve :: "senv \<Rightarrow> ('z machine_scheme, unit) proc" where
  "serve S =
     andthen (gets arriving) (\<lambda>rs.
     andthen (with_server (serve_requests S rs)) (\<lambda>_.
     andthen (gets listening) (\<lambda>ended.
     if ended = ListenerFailed then throw (ErrText ''HTTPS listener failed'') else ret ())))"

definition setup_command :: "'e command_env_scheme \<Rightarrow> senv \<Rightarrow> server_flags \<Rightarrow> ('z machine_scheme, unit) proc" where
  "setup_command E S fl =
     andthen (readPrivate E (sf_PasswordFile fl)) (\<lambda>password.
     andthen (readPrivate E (sf_MasterFile fl)) (\<lambda>master.
     with_server (Setup S (sf_Admin fl) password master)))"

definition server_run :: "'e command_env_scheme \<Rightarrow> senv \<Rightarrow> server_flags \<Rightarrow> ('z machine_scheme, unit) proc" where
  "server_run E S fl =
     (if sf_Version fl then ret ()
      else if sf_Unlock fl then
        unlockServer E (sf_Server fl) (sf_CAFile fl) (sf_Admin fl) (sf_PasswordFile fl) (sf_MasterFile fl)
      else
        andthen (load_server_config E (sf_Config fl)) (\<lambda>(c, ttl).
        andthen (on_error (with_database (Open_store (sc_Storage c))) (\<lambda>_. ErrText ''database open/migration failed'')) (\<lambda>_.
        deferring
          (if sf_Setup fl then setup_command E (S\<lparr>SessionTTL := ttl\<rparr>) fl
           else if sc_TLSCert c = [] \<or> sc_TLSKey c = [] then throw (ErrText ''tls_cert and tls_key are required'')
           else serve (S\<lparr>SessionTTL := ttl\<rparr>))
          (with_database Close))))"

section \<open>What a run does to an installation\<close>

lemma wpre_with_server: "wpre (with_server m) Q w \<longleftrightarrow>
    wpre m (\<lambda>r s. Q r (w\<lparr>database := (database w)\<lparr>rows := rows s, faults := faults s\<rparr>, m_draws := draws s, m_ticks := ticks s\<rparr>))
      (new_server w)"
  by (simp add: wpre_def with_server_def split: prod.split)

lemma wpre_with_database: "wpre (with_database m) Q w \<longleftrightarrow> wpre m (\<lambda>r d. Q r (w\<lparr>database := d\<rparr>)) (database w)"
  by (simp add: wpre_def with_database_def split: prod.split)

text \<open>Reading files, credentials, certificates and the configuration leaves everything else alone.\<close>

abbreviation aside :: "'z host_scheme \<Rightarrow> 'z host_scheme \<Rightarrow> bool" where
  "aside \<equiv> \<lambda>w w'. host.more w' = host.more w"

lemma rest_ReadBytes: "steps aside (ReadBytes E path)"
  unfolding ReadBytes_def by (intro steps rest.steps_reads)

lemma rest_readPrivate: "steps aside (readPrivate E path)"
  unfolding readPrivate_def
  by (intro steps rest.steps_reads rest_ReadBytes; (auto intro!: steps rest_ReadBytes split: node.split)?)

lemma rest_load_server_config: "steps aside (load_server_config E path)"
  unfolding load_server_config_def by (intro steps rest_ReadBytes)

lemma machine_aside: "host.more w' = host.more w \<Longrightarrow> database w' = database w \<and> arriving w' = arriving w \<and>
    listening w' = listening w \<and> jar w' = jar w \<and> post_replies w' = post_replies w \<and> posted w' = posted w"
  by (cases w; cases w'; simp)

text \<open>An installation: its records stay in place and of their types, and an administrator remains.\<close>

definition intact :: "doc pool \<Rightarrow> doc pool \<Rightarrow> bool" where
  "intact d d' \<longleftrightarrow> (well_stored (rows d) \<longrightarrow> well_stored (rows d')) \<and> (some_admin (rows d) \<longrightarrow> some_admin (rows d'))"

definition held :: "'z machine_scheme \<Rightarrow> 'z machine_scheme \<Rightarrow> bool" where
  "held w w' \<longleftrightarrow> intact (database w) (database w') \<and> handles (database w') = handles (database w)"

interpretation held: step_relation held
  by unfold_locales (auto simp: held_def intact_def)

lemma intact_server:
  assumes "steps (kept well_stored) m" and "steps (kept some_admin) m"
  shows "steps held (with_server m)"
proof (rule stepsI)
  fix w :: "'z machine_scheme"
  have start: "rows (new_server w) = rows (database w)" by (simp add: new_server_def)
  show "wpre (with_server m) (\<lambda>_. held w) w"
    unfolding wpre_with_server
    by (rule wpre_mono [OF wpre_conj [OF steps_wpre [OF assms(1)] steps_wpre [OF assms(2)]]])
       (simp add: held_def intact_def start)
qed

lemma serve_kept:
  assumes "\<And>dl r. steps (kept P) (ServeHTTP S dl r)"
  shows "steps (kept P) (serve_requests S rs)"
proof (rule stepsI)
  fix w
  have body: "steps (kept P) (foreach rs (\<lambda>(dl, r). andthen (attempt (ServeHTTP S dl r)) (\<lambda>_. ret ())))"
    by (intro rows_kept_steps assms)
  show "wpre (serve_requests S rs) (\<lambda>_. kept P w) w"
    unfolding serve_requests_def wpre_deferring
    by (rule wpre_mono [OF steps_wpre [OF body]]) (simp add: wpre_def with_vault_def split: prod.split)
qed

lemma wpre_aside_database:
  assumes "steps aside m" and "\<And>r w'. database w' = database w \<Longrightarrow> Q r w'"
  shows "wpre m Q w"
  using steps_wpre [OF assms(1), of w] by (rule wpre_mono) (use assms(2) machine_aside in blast)

text \<open>The unlock client does not touch the database of its own machine.\<close>

abbreviation same_database :: "'z machine_scheme \<Rightarrow> 'z machine_scheme \<Rightarrow> bool" where
  "same_database \<equiv> \<lambda>w w'. database w' = database w"

interpretation elsewhere: host_relation same_database
  by unfold_locales (simp_all add: crash_def)

lemma elsewhere_aside: "steps aside m \<Longrightarrow> steps same_database m"
  using machine_aside by (force simp: steps_def wpre_def)

lemma elsewhere_post: "steps same_database (post_exchange p)"
  unfolding post_exchange_def
  by (rule elsewhere.steps_sys) (auto simp: steps_def wpre_def Let_def split: list.split post_reply.split)

lemma elsewhere_call: "steps same_database (cli_call E origin path csrf ms dec)"
  unfolding cli_call_def by (intro steps elsewhere_post)

lemma elsewhere_deferring: "steps same_database m \<Longrightarrow> steps same_database c \<Longrightarrow> steps same_database (deferring m c)"
  unfolding steps_def wpre_deferring by (auto simp: wpre_def)

lemma elsewhere_unlock: "steps same_database (unlockServer E origin ca name pw mk)"
  unfolding unlockServer_def
  by (intro steps same.steps_modify elsewhere_aside [OF rest_HTTPClient] elsewhere_aside [OF rest_readPrivate]
      elsewhere_deferring elsewhere_call) simp

lemma held_same_database: "steps same_database m \<Longrightarrow> steps held m"
  by (simp add: steps_def wpre_def held_def intact_def)

lemmas held_steps = held.steps_pure held.steps_combine held_same_database [OF elsewhere_aside [OF rest_readPrivate]]
  steps_if

lemma held_setup: "steps held (setup_command E S fl)"
  unfolding setup_command_def by (intro held_steps intact_server Setup_stored Setup_some_admin)

lemma held_serve: "steps held (serve S)"
  unfolding serve_def
  by (intro held_steps intact_server serve_kept ServeHTTP_stored ServeHTTP_some_admin)

lemma held_opened:
  assumes "steps held body" and "database w1 = database w"
  shows "wpre (andthen (on_error (with_database (Open_store driver)) (\<lambda>_. ErrText ''database open/migration failed'')) (\<lambda>_.
    deferring body (with_database Close))) (\<lambda>_. held w) w1"
  unfolding wpre_andthen wpre_on_error wpre_with_database
proof (rule wpre_mono [OF wpre_Open_store], goal_cases)
  case (1 r d)
  show ?case
  proof (cases r)
    case (Inr u)
    let ?w = "w1\<lparr>database := d\<rparr>"
    have "rows (database ?w) = rows (database w)" "handles (database ?w) = Suc (handles (database w))"
      using 1 Inr assms(2) by simp_all
    then show ?thesis
      unfolding Inr sum.case wpre_deferring wpre_with_database Close_def wpre_modify
      by (intro wpre_mono [OF steps_wpre [OF assms(1)]]) (simp add: held_def intact_def)
  qed (use 1 assms(2) in \<open>simp add: held_def intact_def\<close>)
qed

text \<open>C8: No run of the server's command endangers an installation: whatever it is asked to do,
  setting up, serving any requests, or unlocking another server, whatever fails and whatever
  the database answers, the documents stay in place and of the types their kinds call for, an
  administrator remains if there was one, and every database handle it opened is closed again;
  asking for the version or unlocking another server leaves the database alone.\<close>

theorem server_run_keeps_installation:
  "wpre (server_run E S fl) (\<lambda>_ w'. held w w' \<and> (if sf_Version fl \<or> sf_Unlock fl then database w' = database w else True)) w"
proof (cases "sf_Version fl \<or> sf_Unlock fl")
  case True
  then have "steps same_database (server_run E S fl)"
    by (auto simp: server_run_def intro: elsewhere_unlock same.steps_pure)
  from steps_wpre [OF this, of w] show ?thesis by (rule wpre_mono) (simp add: held_def intact_def)
next
  case False
  have body: "steps held (if sf_Setup fl then setup_command E S' fl
      else if sc_TLSCert c = [] \<or> sc_TLSKey c = [] then throw (ErrText ''tls_cert and tls_key are required'') else serve S')" for S' c
    by (intro held_steps held_setup held_serve)
  have "wpre (server_run E S fl) (\<lambda>_. held w) w"
    unfolding server_run_def if_not_P [OF False [unfolded de_Morgan_disj, THEN conjunct1]]
      if_not_P [OF False [unfolded de_Morgan_disj, THEN conjunct2]] wpre_andthen [of "load_server_config _ _"]
  proof (rule wpre_mono [OF steps_wpre [OF elsewhere_aside [OF rest_load_server_config]]], goal_cases)
    case (1 r w1)
    show ?case
    proof (cases r)
      case (Inr v)
      then show ?thesis by (cases v) (simp only: sum.case prod.case held_opened [OF body 1])
    qed (use 1 in \<open>simp add: held_def intact_def\<close>)
  qed
  then show ?thesis using False by simp
qed

end
