(* ===== verification/Unlocking.thy ===== *)
theory Unlocking
  imports ServerMain
begin

text \<open>
  The client that unlocks a running server (\<open>unlockServer\<close>, cmd/ssm-server/main.go): what it posts,
  when, and with which of its secrets.
\<close>

section \<open>Reading the credentials\<close>

text \<open>What a private credential file holds.\<close>

definition credential :: "'e host_env_scheme \<Rightarrow> 'z host_scheme \<Rightarrow> string \<Rightarrow> string \<Rightarrow> bool" where
  "credential E w path s \<longleftrightarrow> (\<exists>f b. node_at E w path False = Inr (Reg f) \<and> f_mode f mod 64 = 0 \<and> f_data f = Bytes b \<and>
     s = TrimRight_lines b)"

lemma credential_nodes: "nodes w' = nodes w \<Longrightarrow> credential E w' path s = credential E w path s"
  by (simp add: credential_def node_at_nodes [of w' w])

lemma wpre_ReadBytes:
  assumes "\<And>b f w'. node_at E w p True = Inr (Reg f) \<Longrightarrow> f_data f = Bytes b \<Longrightarrow> nodes w' = nodes w \<Longrightarrow> host.more w' = host.more w \<Longrightarrow> Q (Inr b) w'"
    and "\<And>e w'. host.more w' = host.more w \<Longrightarrow> Q (Inl e) w'"
  shows "wpre (ReadBytes E p) Q w"
  unfolding ReadBytes_def wpre_andthen ReadFile_def
proof (rule wpre_reading, goal_cases)
  case (1 w')
  then show ?case
    using assms by (auto simp: wp file_bytes_def split: sum.split node.split content.split)
qed (simp_all add: assms(2) node_at_outcomes)

lemma wpre_readPrivate:
  assumes "\<And>s w'. credential E w p s \<Longrightarrow> nodes w' = nodes w \<Longrightarrow> host.more w' = host.more w \<Longrightarrow> Q (Inr s) w'"
    and "\<And>e w'. host.more w' = host.more w \<Longrightarrow> Q (Inl e) w'"
  shows "wpre (readPrivate E p) Q w"
  unfolding readPrivate_def wpre_andthen [of "on_error (Lstat _ _) _"] wpre_on_error
  unfolding Lstat_def
proof (rule wpre_reading, goal_cases)
  case (1 w')
  show ?case
  proof (cases "\<exists>f. node_at E w p False = Inr (Reg f) \<and> f_mode f mod 64 = 0")
    case True
    then obtain f where f: "node_at E w p False = Inr (Reg f)" "f_mode f mod 64 = 0" by (elim exE conjE)
    have "wpre (andthen (on_error (ReadBytes E p) h) (\<lambda>b. ret (TrimRight_lines b))) Q w'" for h
      unfolding wpre_andthen wpre_on_error
    proof (rule wpre_ReadBytes, goal_cases)
      case (1 b g w2)
      then have "f_data f = Bytes b"
        using node_at_follow [OF f(1)] node_at_nodes [OF \<open>nodes w' = nodes w\<close>, of E p True] by simp
      then have "credential E w p (TrimRight_lines b)" using f by (auto simp: credential_def)
      then show ?case using assms(1) 1 \<open>nodes w' = nodes w\<close> \<open>host.more w' = host.more w\<close> by (simp add: wpre_ret)
    next
      case (2 e w2)
      then show ?case using assms(2) \<open>host.more w' = host.more w\<close> by simp
    qed
    then show ?thesis using f by simp
  next
    case False
    then show ?thesis using assms(2) 1 by (auto simp: wp split: sum.split node.split)
  qed
qed (simp_all add: assms(2) node_at_outcomes)

lemma wpre_HTTPClient:
  assumes "\<And>w'. nodes w' = nodes w \<Longrightarrow> host.more w' = host.more w \<Longrightarrow> Q (Inr ()) w'"
    and "\<And>e w'. host.more w' = host.more w \<Longrightarrow> Q (Inl e) w'"
  shows "wpre (HTTPClient E ca) Q w"
  using assms by (auto simp: HTTPClient_def wp intro!: wpre_ReadBytes)

text \<open>On a machine on which every system call succeeds, reading changes nothing at all.\<close>

definition smooth :: "'z host_scheme \<Rightarrow> bool" where
  "smooth w \<longleftrightarrow> \<not> crashed w \<and> outcomes w = []"

abbreviation unmoved :: "'z host_scheme \<Rightarrow> 'z host_scheme \<Rightarrow> bool" where
  "unmoved \<equiv> \<lambda>w w'. smooth w \<longrightarrow> w' = w"

interpretation unmoved: step_relation unmoved
  by unfold_locales auto

lemma unmoved_read: "steps unmoved (sys (\<lambda>w. (f w, w)))"
  by (auto simp: steps_def wpre_def sys_def smooth_def)

lemma unmoved_ReadBytes: "steps unmoved (ReadBytes E p)"
  unfolding ReadBytes_def ReadFile_def
  by (intro unmoved.steps_combine unmoved.steps_pure unmoved_read steps_option steps_if; (auto split: content.split intro!: unmoved.steps_pure)?)

lemma unmoved_readPrivate: "steps unmoved (readPrivate E p)"
  unfolding readPrivate_def Lstat_def
  by (intro unmoved.steps_combine unmoved_read; (auto intro!: unmoved.steps_combine unmoved.steps_pure unmoved_ReadBytes split: node.split)?)

lemma unmoved_HTTPClient: "steps unmoved (HTTPClient E ca)"
  unfolding HTTPClient_def by (intro steps_if unmoved.steps_combine unmoved.steps_pure unmoved_ReadBytes)

lemma smooth_sys: "smooth w \<Longrightarrow> wpre (sys m) Q w \<longleftrightarrow> wpre m Q w"
  by (simp add: smooth_def wpre_def sys_def)

lemma smooth_credential:
  assumes "smooth w" and "credential E w p s"
  shows "wpre (readPrivate E p) (\<lambda>r w'. r = Inr s) w"
proof -
  obtain f b where f: "node_at E w p False = Inr (Reg f)" "f_mode f mod 64 = 0" "f_data f = Bytes b" "s = TrimRight_lines b"
    using assms(2) by (auto simp: credential_def)
  then show ?thesis
    using node_at_follow [OF f(1)]
    by (simp add: readPrivate_def Lstat_def ReadBytes_def ReadFile_def wp smooth_sys [OF assms(1)] wpre_run [where m = "\<lambda>w. (g w, w)" for g, OF refl] file_bytes_def)
qed

definition credential_read :: "'e host_env_scheme \<Rightarrow> string \<Rightarrow> 'z host_scheme \<Rightarrow> err + string \<Rightarrow> 'z host_scheme \<Rightarrow> bool" where
  "credential_read E p w r w' \<longleftrightarrow> host.more w' = host.more w \<and>
     (\<forall>s. r = Inr s \<longrightarrow> credential E w p s \<and> nodes w' = nodes w) \<and>
     (smooth w \<longrightarrow> w' = w) \<and> (smooth w \<longrightarrow> (\<forall>s. credential E w p s \<longrightarrow> r = Inr s))"

lemma read_credential: "wpre (readPrivate E p) (credential_read E p w) w"
proof -
  have "wpre (readPrivate E p) (\<lambda>r w'. host.more w' = host.more w \<and>
      (\<forall>s. r = Inr s \<longrightarrow> credential E w p s \<and> nodes w' = nodes w)) w"
    by (rule wpre_readPrivate) simp_all
  moreover have "wpre (readPrivate E p) (\<lambda>r w'. smooth w \<longrightarrow> (\<forall>s. credential E w p s \<longrightarrow> r = Inr s)) w"
    using smooth_credential [of w E p] by (auto simp: wpre_def)
  ultimately show ?thesis
    unfolding credential_read_def
    by (rule wpre_mono [OF wpre_conj [OF _ wpre_conj [OF steps_wpre [OF unmoved_readPrivate]]]]) (elim conjE, intro conjI)
qed

text \<open>No CA file, which means the system's own, or one that can be read and holds a certificate.\<close>

definition ca_usable :: "'e agent_env_scheme \<Rightarrow> string \<Rightarrow> 'z host_scheme \<Rightarrow> bool" where
  "ca_usable E ca w \<longleftrightarrow>
     ca = [] \<or> (\<exists>f b. node_at E w ca True = Inr (Reg f) \<and> f_data f = Bytes b \<and> pem_ok E b)"

lemma make_client: "wpre (HTTPClient E ca) (\<lambda>r w'. host.more w' = host.more w \<and> (smooth w \<longrightarrow> w' = w) \<and>
    (r = Inr () \<longrightarrow> nodes w' = nodes w) \<and> (smooth w \<and> ca_usable E ca w \<longrightarrow> r = Inr ())) w"
proof -
  have "wpre (HTTPClient E ca) (\<lambda>r w'. host.more w' = host.more w \<and> (r = Inr () \<longrightarrow> nodes w' = nodes w)) w"
    by (rule wpre_HTTPClient) simp_all
  moreover have "wpre (HTTPClient E ca) (\<lambda>r w'. smooth w \<and> ca_usable E ca w \<longrightarrow> r = Inr ()) w"
    by (auto simp: HTTPClient_def ca_usable_def wp ReadBytes_def ReadFile_def smooth_sys wpre_run [where m = "\<lambda>w. (g w, w)" for g, OF refl]
        file_bytes_def wpre_def sys_def smooth_def andthen_def lift_def ret_def)
  ultimately show ?thesis
    using steps_wpre [OF unmoved_HTTPClient, of E ca w] by (simp add: wpre_def)
qed

section \<open>One exchange\<close>

text \<open>What is in the jar after the next answer.\<close>

definition jar_after :: "(string \<times> string) list \<Rightarrow> post_reply list \<Rightarrow> (string \<times> string) list" where
  "jar_after cs rs = (case rs of Posted code cks b # _ \<Rightarrow> foldl keep_cookie cs cks | _ \<Rightarrow> cs)"

definition api_post :: "string \<Rightarrow> string \<Rightarrow> string \<Rightarrow> (string \<times> string) list \<Rightarrow> (string \<times> string) list \<Rightarrow> post" where
  "api_post origin path csrf cookies members = \<lparr>po_Url = post_url origin path, po_CSRF = csrf, po_Cookies = cookies,
     po_Body = marshal_object (string_members members)\<rparr>"

definition answered :: "(json \<Rightarrow> 't option) \<Rightarrow> post_reply list \<Rightarrow> 't \<Rightarrow> bool" where
  "answered dec rs x \<longleftrightarrow> (\<exists>cks b rest. rs = Posted 200 cks b # rest \<and> cli_decode dec b = Inr x)"

lemma wpre_sys_smooth:
  assumes "\<And>os. (smooth w \<longrightarrow> smooth (w\<lparr>outcomes := os\<rparr>)) \<Longrightarrow> wpre m Q (w\<lparr>outcomes := os\<rparr>)"
    and "\<And>e w'. \<not> smooth w \<Longrightarrow> host.more w' = host.more w \<Longrightarrow> Q (Inl e) w'"
  shows "wpre (sys m) Q w"
proof (cases "smooth w")
  case True
  then have "w\<lparr>outcomes := []\<rparr> = w" by (cases w) (simp add: smooth_def)
  then have "wpre m Q w" using assms(1) [of "[]"] by simp
  with True show ?thesis by (simp add: smooth_def wpre_def sys_def)
next
  case False
  then show ?thesis by (intro wpre_sys) (simp_all add: assms crash_def)
qed

lemma replies_cases:
  obtains "rs = []" | rest where "rs = NoAnswer # rest" | code cks b rest where "rs = Posted code cks b # rest"
  by (metis list.exhaust post_reply.exhaust)

lemma wpre_cli_call:
  assumes "\<And>e w'. posted w' = posted w \<Longrightarrow> post_replies w' = post_replies w \<Longrightarrow> jar w' = jar w \<Longrightarrow>
        (smooth w \<longrightarrow> parse_url E (post_url origin path) = None \<and> w' = w) \<Longrightarrow> Q (Inl e) w'"
    and "\<And>r w'. posted w' = api_post origin path csrf (jar w) members # posted w \<Longrightarrow> post_replies w' = tl (post_replies w) \<Longrightarrow>
        jar w' = jar_after (jar w) (post_replies w) \<Longrightarrow> (smooth w \<longrightarrow> smooth w') \<Longrightarrow>
        (\<And>x. r = Inr x \<longleftrightarrow> answered dec (post_replies w) x) \<Longrightarrow> Q r w'"
  shows "wpre (cli_call E origin path csrf members dec) Q w"
proof (cases "parse_url E (post_url origin path)")
  case None
  then show ?thesis by (simp add: cli_call_def wp assms(1))
next
  case (Some u)
  let ?p = "api_post origin path csrf (jar w) members"
  have answer: "wpre (\<lambda>w. let w = w\<lparr>posted := ?p # posted w\<rparr> in
       case post_replies w of
         [] \<Rightarrow> (Inl EIO, w)
       | NoAnswer # rs \<Rightarrow> (Inl EIO, w\<lparr>post_replies := rs\<rparr>)
       | Posted code cks b # rs \<Rightarrow> (Inr (code, b), w\<lparr>post_replies := rs, jar := foldl keep_cookie (jar w) cks\<rparr>))
      (\<lambda>r. case case r of Inl e \<Rightarrow> Inl (ErrText ''HTTPS request failed'') | Inr v \<Rightarrow> Inr v of
          Inl e \<Rightarrow> Q (Inl e)
        | Inr (code, b) \<Rightarrow> wpre (if code \<noteq> 200 then throw (ErrText (''request failed: HTTP '' @ decimal code))
            else lift (cli_decode dec b)) Q) w2"
    if "posted w2 = posted w" "post_replies w2 = post_replies w" "jar w2 = jar w" "smooth w \<longrightarrow> smooth w2" for w2
    using that
    by (cases "post_replies w" rule: replies_cases)
       (auto simp: wpre_def Let_def throw_def lift_def jar_after_def answered_def smooth_def split: if_splits intro!: assms(2))
  have "wpre (post_exchange ?p) (\<lambda>r. case case r of Inl e \<Rightarrow> Inl (ErrText ''HTTPS request failed'') | Inr v \<Rightarrow> Inr v of
          Inl e \<Rightarrow> Q (Inl e)
        | Inr (code, b) \<Rightarrow> wpre (if code \<noteq> 200 then throw (ErrText (''request failed: HTTP '' @ decimal code))
            else lift (cli_decode dec b)) Q) w"
    unfolding post_exchange_def
  proof (rule wpre_sys_smooth, goal_cases)
    case (1 os)
    then show ?case by (intro answer) simp_all
  next
    case (2 e w')
    then show ?case using machine_aside by (force intro: assms(1))
  qed
  then show ?thesis
    unfolding cli_call_def api_post_def Some if_not_P [OF option.distinct(2)] wpre_andthen wpre_gets wpre_on_error sum.case
    by (rule wpre_mono) (auto split: sum.splits prod.splits)
qed

section \<open>The conversation\<close>

abbreviation session_reply :: "'e command_env_scheme \<Rightarrow> json \<Rightarrow> session option" where
  "session_reply E \<equiv> \<lambda>v. into_struct (session_fields E) v zero_time_session"

text \<open>
  Nothing keeps the client from asking: no fault, a usable CA file or none, both credentials, a
  server that can be named.
\<close>

definition ready :: "'e command_env_scheme \<Rightarrow> string \<Rightarrow> string \<Rightarrow> string \<Rightarrow> string \<Rightarrow> 'z machine_scheme \<Rightarrow> bool" where
  "ready E origin ca pw mk w \<longleftrightarrow> smooth w \<and> HasPrefix origin ''https://'' \<and> ca_usable E ca w \<and>
     (\<exists>password. credential E w pw password) \<and> (\<exists>master. credential E w mk master) \<and>
     parse_url E (post_url origin ''login'') \<noteq> None"

text \<open>
  What a run may have posted, newest first, and whether it succeeded: nothing, unless the server
  is reached over HTTPS and both files are private; the login, with the password; and exactly
  when that was answered with a session, the unlocking, with the master key and the session's token, and
  the logout. Both carry the cookies the server has set by then.
\<close>

inductive unlock_talk ::
  "'e command_env_scheme \<Rightarrow> string \<Rightarrow> string \<Rightarrow> string \<Rightarrow> string \<Rightarrow> string \<Rightarrow> 'z machine_scheme \<Rightarrow> post list \<Rightarrow> bool \<Rightarrow> bool"
  for E origin ca name pw mk w where
  silent: "\<not> ready E origin ca pw mk w \<Longrightarrow> unlock_talk E origin ca name pw mk w [] False"
| refused: "HasPrefix origin ''https://'' \<Longrightarrow> credential E w pw password \<Longrightarrow> credential E w mk master \<Longrightarrow>
    (\<nexists>s. answered (session_reply E) (post_replies w) s) \<Longrightarrow>
    unlock_talk E origin ca name pw mk w [api_post origin ''login'' [] [] [(''name'', name), (''password'', password)]] False"
| admitted: "HasPrefix origin ''https://'' \<Longrightarrow> credential E w pw password \<Longrightarrow> credential E w mk master \<Longrightarrow>
    answered (session_reply E) (post_replies w) s \<Longrightarrow>
    cookies = jar_after [] (post_replies w) \<Longrightarrow>
    us = [] \<and> later = cookies \<and> \<not> success \<or>
      us = [api_post origin ''admin/unlock'' (se_CSRF s) cookies [(''master'', master)]] \<and>
      later = jar_after cookies (tl (post_replies w)) \<and> success = answered any_value (tl (post_replies w)) () \<Longrightarrow>
    ls = [] \<or> ls = [api_post origin ''admin/logout'' (se_CSRF s) later []] \<Longrightarrow>
    (smooth w \<and> parse_url E (post_url origin ''admin/unlock'') \<noteq> None \<longrightarrow> us \<noteq> []) \<Longrightarrow>
    (smooth w \<and> parse_url E (post_url origin ''admin/logout'') \<noteq> None \<longrightarrow> ls \<noteq> []) \<Longrightarrow>
    unlock_talk E origin ca name pw mk w
      (ls @ us @ [api_post origin ''login'' [] [] [(''name'', name), (''password'', password)]]) success"

lemma admitted_talk:
  assumes w: "HasPrefix origin ''https://''" "credential E w pw password" "credential E w mk master"
      "answered (session_reply E) (post_replies w) s"
    and w': "posted w' = api_post origin ''login'' [] [] [(''name'', name), (''password'', password)] # posted w"
      "post_replies w' = tl (post_replies w)" "jar w' = jar_after [] (post_replies w)" "smooth w \<longrightarrow> smooth w'"
  shows "wpre (deferring (cli_call E origin ''admin/unlock'' (se_CSRF s) [(''master'', master)] any_value)
      (cli_call E origin ''admin/logout'' (se_CSRF s) [] any_value))
    (\<lambda>r w'. \<exists>ps. posted w' = ps @ posted w \<and> unlock_talk E origin ca name pw mk w ps (r = Inr ())) w'"
    (is "wpre (deferring _ _) ?Q w'")
  unfolding wpre_deferring
proof (rule wpre_cli_call, goal_cases)
  case (1 e w1)
  let ?login = "api_post origin ''login'' [] [] [(''name'', name), (''password'', password)]"
  let ?logout = "\<lambda>cookies. api_post origin ''admin/logout'' (se_CSRF s) cookies []"
  show ?case
  proof (rule wpre_cli_call, goal_cases)
    case (1 e' w2)
    have "unlock_talk E origin ca name pw mk w ([] @ [] @ [?login]) False"
      by (rule admitted [OF w refl]) (use 1 \<open>smooth w' \<longrightarrow> _\<close> w'(4) in auto)
    then show ?case using 1 \<open>posted w1 = _\<close> w' by auto
  next
    case (2 r' w2)
    have "unlock_talk E origin ca name pw mk w ([?logout (jar w')] @ [] @ [?login]) False"
      by (rule admitted [OF w refl]) (use \<open>smooth w' \<longrightarrow> _\<close> w'(3,4) in auto)
    then show ?case using 2 \<open>posted w1 = _\<close> \<open>jar w1 = _\<close> w' by auto
  qed
next
  case (2 r w1)
  let ?login = "api_post origin ''login'' [] [] [(''name'', name), (''password'', password)]"
  let ?unlock = "\<lambda>cookies. api_post origin ''admin/unlock'' (se_CSRF s) cookies [(''master'', master)]"
  let ?logout = "\<lambda>cookies. api_post origin ''admin/logout'' (se_CSRF s) cookies []"
  from 2 have r: "r = Inr () \<longleftrightarrow> answered any_value (tl (post_replies w)) ()" by (simp add: w')
  show ?case
  proof (rule wpre_cli_call, goal_cases)
    case (1 e' w2)
    have "unlock_talk E origin ca name pw mk w ([] @ [?unlock (jar w')] @ [?login]) (r = Inr ())"
      by (rule admitted [OF w refl]) (use 1 r \<open>smooth w' \<longrightarrow> _\<close> w' in auto)
    then show ?case using 1 \<open>posted w1 = _\<close> w' by auto
  next
    case (2 r' w2)
    have "unlock_talk E origin ca name pw mk w ([?logout (jar w1)] @ [?unlock (jar w')] @ [?login]) (r = Inr ())"
      by (rule admitted [OF w refl]) (use r \<open>smooth w' \<longrightarrow> _\<close> w' \<open>jar w1 = _\<close> in auto)
    then show ?case using 2 \<open>posted w1 = _\<close> w' by auto
  qed
qed

lemma read_both:
  assumes "\<And>p m w'. credential E w pw p \<Longrightarrow> credential E w mk m \<Longrightarrow> host.more w' = host.more w \<Longrightarrow>
      (smooth w \<longrightarrow> w' = w) \<Longrightarrow> wpre (f p m) Q w'"
    and "\<And>e w'. host.more w' = host.more w \<Longrightarrow>
      (smooth w \<longrightarrow> (\<nexists>p. credential E w pw p) \<or> (\<nexists>m. credential E w mk m)) \<Longrightarrow> Q (Inl e) w'"
  shows "wpre (andthen (readPrivate E pw) (\<lambda>p. andthen (readPrivate E mk) (f p))) Q w"
proof (rule wpre_bind [OF read_credential])
  fix p w1
  assume 1: "credential_read E pw w (Inr p) w1"
  then have same: "credential E w1 mk m = credential E w mk m" for m
    by (intro credential_nodes) (simp add: credential_read_def)
  show "wpre (andthen (readPrivate E mk) (f p)) Q w1"
    by (rule wpre_bind [OF read_credential]) (use 1 in \<open>auto simp: same credential_read_def intro!: assms\<close>)
qed (auto simp: credential_read_def intro!: assms(2))

lemma credentials_talk:
  assumes w: "HasPrefix origin ''https://''" "credential E w pw password" "credential E w mk master"
    and w': "posted w' = posted w" "post_replies w' = post_replies w" "jar w' = []" "smooth w \<longrightarrow> smooth w'"
  shows "wpre (andthen (cli_call E origin ''login'' [] [(''name'', name), (''password'', password)] (session_reply E)) (\<lambda>session.
        deferring (cli_call E origin ''admin/unlock'' (se_CSRF session) [(''master'', master)] any_value)
          (cli_call E origin ''admin/logout'' (se_CSRF session) [] any_value)))
    (\<lambda>r w'. \<exists>ps. posted w' = ps @ posted w \<and> unlock_talk E origin ca name pw mk w ps (r = Inr ())) w'"
  unfolding wpre_andthen
proof (rule wpre_cli_call, goal_cases)
  case (1 e w1)
  have "\<not> ready E origin ca pw mk w" using 1(4) w'(4) by (auto simp: ready_def)
  from silent [OF this] show ?case using 1 w' by auto
next
  case (2 r w1)
  show ?case
  proof (cases r)
    case (Inl e)
    then have "\<nexists>s. answered (session_reply E) (post_replies w) s" using 2(5) w'(2) by auto
    from refused [OF w this] show ?thesis using 2 w' Inl by auto
  next
    case (Inr s)
    then have "answered (session_reply E) (post_replies w) s" using 2 w' by simp
    then show ?thesis
      unfolding Inr sum.case by (rule admitted_talk [OF w]) (use 2 w' in simp_all)
  qed
qed

lemma unlock_talks:
  "wpre (unlockServer E origin ca name pw mk)
     (\<lambda>r w'. \<exists>ps. posted w' = ps @ posted w \<and> unlock_talk E origin ca name pw mk w ps (r = Inr ())) w"
  (is "wpre _ ?Q w")
proof (cases "HasPrefix origin ''https://''")
  case False
  then show ?thesis by (simp add: unlockServer_def wp silent ready_def)
next
  case True
  have quiet: "\<exists>ps. posted w = ps @ posted w \<and> unlock_talk E origin ca name pw mk w ps (Inl e = Inr ())"
    if "\<not> ready E origin ca pw mk w" for e :: err
    using silent [OF that] by (intro exI [of _ "[]"]) simp
  show ?thesis
    unfolding unlockServer_def if_not_P [OF not_not [THEN iffD2, OF True]]
  proof (rule wpre_bind [OF make_client])
    fix u :: unit and w1
    assume 1: "host.more w1 = host.more w \<and> (smooth w \<longrightarrow> w1 = w) \<and> (Inr u = Inr () \<longrightarrow> nodes w1 = nodes w) \<and>
        (smooth w \<and> ca_usable E ca w \<longrightarrow> Inr u = Inr ())"
    note aside = machine_aside [of w1 w]
    let ?w = "w1\<lparr>jar := []\<rparr>"
    have same: "credential E ?w p s = credential E w p s" for p s by (rule credential_nodes) (simp add: 1)
    show "wpre (andthen (modify (\<lambda>w. w\<lparr>jar := []\<rparr>)) (\<lambda>_. andthen (readPrivate E pw) (\<lambda>password.
        andthen (readPrivate E mk) (\<lambda>master.
        andthen (cli_call E origin ''login'' [] [(''name'', name), (''password'', password)] (session_reply E)) (\<lambda>session.
        deferring (cli_call E origin ''admin/unlock'' (se_CSRF session) [(''master'', master)] any_value)
          (cli_call E origin ''admin/logout'' (se_CSRF session) [] any_value)))))) ?Q w1"
      unfolding wpre_andthen [of "modify _"] wpre_modify sum.case
    proof (rule read_both, goal_cases)
      case (1 password master w2)
      then have "credential E w pw password" "credential E w mk master"
        by (simp_all add: same)
      then show ?case
        by (rule credentials_talk [OF True])
           (use 1 \<open>host.more w1 = _ \<and> _\<close> aside machine_aside [of w2 ?w] in \<open>auto simp: smooth_def\<close>)
    next
      case (2 e w2)
      then have "posted w2 = posted w" using 1 aside machine_aside [of w2 ?w] by simp
      moreover have "\<not> ready E origin ca pw mk w"
        using 1 2 by (auto simp: ready_def same smooth_def)
      ultimately show ?case using quiet by simp
    qed
  next
    fix e :: err and w1
    assume "host.more w1 = host.more w \<and> (smooth w \<longrightarrow> w1 = w) \<and> (Inl e = Inr () \<longrightarrow> nodes w1 = nodes w) \<and>
        (smooth w \<and> ca_usable E ca w \<longrightarrow> Inl e = Inr ())"
    then have "posted w1 = posted w" "\<not> ready E origin ca pw mk w" using machine_aside [of w1 w] by (auto simp: ready_def)
    then show "?Q (Inl e) w1" using quiet by simp
  qed
qed

text \<open>C11: The unlock client's conversation. Nothing leaves the machine unless the server is named by an
  HTTPS origin and both credential files are regular and private. The password goes into the
  login and nowhere else; the master key is sent only after the server has answered the login
  with a session, in one request that carries the session's CSRF token and cookies. On a
  machine without faults a session that was opened is used and closed again whatever the
  unlocking returned, and the command succeeds exactly if the unlocking was answered with 200
  and JSON.\<close>

theorem unlock_conversation:
  "wpre (unlockServer E origin ca name pw mk)
     (\<lambda>r w'. \<exists>ps. posted w' = ps @ posted w \<and> unlock_talk E origin ca name pw mk w ps (r = Inr ())) w"
  by (rule unlock_talks)

end
