(* ===== verification/Requests.thy ===== *)
theory Requests
  imports Accounts
begin

text \<open>
  Whole requests: transport and origin checks come first, a request that fails leaves the
  records as they were, each API request leaves its two audit records, and setting up works
  once.
\<close>

section \<open>A request through ServeHTTP\<close>

lemma record_audit_frame: "steps (same_outside {''audit''}) (record_audit E r success)"
  unfolding record_audit_def write_audit_def audit_id_def by (intro steps) simp_all

lemma audit_untouched: "''audit'' \<notin> touched r"
  by (simp add: touched_def Let_def)

lemma wpre_download:
  assumes "\<And>w' res. w' = w\<lparr>ticks := Suc (ticks w)\<rparr> \<Longrightarrow> re_Status res \<in> {200, 503} \<Longrightarrow> Q (Inr res) w'"
  shows "wpre (download_response E dl) Q w"
  using assms by (simp add: download_response_def wp Let_def write_json_def)

text \<open>
  What a request behind the checks does: the route in one transaction, the audit records in
  the next. The rules of the two outcomes of the route.
\<close>

lemma serve_api_cases:
  assumes "w0 = w\<lparr>identity := ''anonymous'', apath := []\<rparr>"
    and refused: "\<And>e w1 a w2. Update (route E r) w0 = (Inl e, w1) \<Longrightarrow>
       record_audit E r False w1 = (a, w2) \<Longrightarrow>
       Q (Inr (error_response (case a of Inl _ \<Rightarrow> ErrText ''audit unavailable'' | Inr _ \<Rightarrow> e))) w2"
    and unaudited: "\<And>v code ck w1 e w2. Update (route E r) w0 = (Inr (v, code, ck), w1) \<Longrightarrow>
       record_audit E r True w1 = (Inl e, w2) \<Longrightarrow>
       Q (Inr (error_response (ErrText ''audit unavailable''))) w2"
    and served: "\<And>v ck w1 w2. Update (route E r) w0 = (Inr (v, 200, ck), w1) \<Longrightarrow>
       record_audit E r True w1 = (Inr (), w2) \<Longrightarrow> v \<noteq> RAuditDownload \<Longrightarrow>
       Q (Inr ((write_json tls_headers 200 (JReply v))\<lparr>re_Cookie := ck\<rparr>)) w2"
    and download: "\<And>ck w1 w2 res. Update (route E r) w0 = (Inr (RAuditDownload, 200, ck), w1) \<Longrightarrow>
       Method r = ''GET'' \<Longrightarrow> record_audit E r True w1 = (Inr (), w2) \<Longrightarrow> re_Status res \<in> {200, 503} \<Longrightarrow>
       Q (Inr res) (w2\<lparr>ticks := Suc (ticks w2)\<rparr>)"
  shows "wpre (serve_api E dl r) Q w"
proof -
  obtain result w1 where run: "Update (route E r) w0 = (result, w1)" by (cases "Update (route E r) w0")
  define success where "success = (case result of Inl _ \<Rightarrow> False | Inr _ \<Rightarrow> True)"
  obtain a w2 where audit: "record_audit E r success w1 = (a, w2)" by (cases "record_audit E r success w1")
  have w: "w\<lparr>identity := ''anonymous'', apath := []\<rparr> = w0" using assms(1) by simp
  have "wpre (serve_api E dl r) Q w \<longleftrightarrow>
    wpre (case a of
       Inl _ \<Rightarrow> ret (error_response (ErrText ''audit unavailable''))
     | Inr _ \<Rightarrow>
         (case result of
            Inl e \<Rightarrow> ret (error_response e)
          | Inr (v, code, ck) \<Rightarrow>
              andthen (if v = RAuditDownload then download_response E dl
                       else ret (write_json tls_headers code (JReply v))) (\<lambda>res.
              ret (res\<lparr>re_Cookie := ck\<rparr>)))) Q w2"
    using audit unfolding success_def
    by (simp add: serve_api_def wp w wpre_run [where m = "Update (route E r)", OF run]
        wpre_run [where m = "record_audit E r success" for success, OF audit [unfolded success_def]])
  also have "\<dots>"
  proof (cases result)
    case (Inl e)
    then show ?thesis
      using refused [OF run [unfolded Inl], of a w2] audit
      by (cases a) (simp_all add: success_def wp)
  next
    case (Inr y)
    obtain v code ck where y: "y = (v, code, ck)" by (cases y)
    note run = run [unfolded Inr y]
    have "proper r (v, code, ck)"
      using Update_Inr [OF run] answersD [OF route_answers] by blast
    then have "code = 200" and dl: "v = RAuditDownload \<Longrightarrow> Method r = ''GET''"
      by (auto simp: plain_def)
    with run audit Inr y show ?thesis
      using unaudited [of v code ck w1 _ w2] served [of v ck w1 w2] download [of ck w1 w2]
      by (auto simp: success_def wp split: sum.split intro!: wpre_download)
  qed
  finally show ?thesis .
qed

section \<open>The audit records\<close>

definition request_record :: "request \<Rightarrow> server \<Rightarrow> bool \<Rightarrow> time \<Rightarrow> audit" where
  "request_record r w success t =
     \<lparr>au_Time = t, au_Identity = identity w, au_Path = apath w,
      au_Operation = Method r @ '' '' @ UrlPath r, au_Success = success, au_Source = RemoteAddr r\<rparr>"

definition authentication_record :: "request \<Rightarrow> server \<Rightarrow> time \<Rightarrow> audit" where
  "authentication_record r w t =
     \<lparr>au_Time = t, au_Identity = identity w, au_Path = [], au_Operation = ''authentication'',
      au_Success = (identity w \<noteq> ''anonymous''), au_Source = RemoteAddr r\<rparr>"

lemma write_audit_did:
  assumes "write_audit E r a w = (Inr u, w')"
  shows "\<exists>t s s'. rows w' =
    row_put (Key ''audit'' (RFC3339Nano s' @ ''-'' @ token_at E (Suc (draws w))))
      (DAudit (\<lparr>au_Time = t, au_Identity = au_Identity a, au_Path = [], au_Operation = ''authentication'',
         au_Success = (au_Identity a \<noteq> ''anonymous''), au_Source = RemoteAddr r\<rparr>))
    (row_put (Key ''audit'' (RFC3339Nano s @ ''-'' @ token_at E (draws w))) (DAudit a) (rows w))"
  using assms
  by (simp only: write_audit_def audit_id_def did Let_def simp_thms, clarify)
     ((drule did_steps)+, clarsimp simp: same_fields_def simp del: append.simps, intro exI, rule refl)

lemma record_audit_did:
  assumes "record_audit E r success w = (Inr u, w')"
  shows "\<exists>t t' s s'. rows w' =
    row_put (Key ''audit'' (RFC3339Nano s' @ ''-'' @ token_at E (Suc (draws w)))) (DAudit (authentication_record r w t'))
    (row_put (Key ''audit'' (RFC3339Nano s @ ''-'' @ token_at E (draws w))) (DAudit (request_record r w success t))
    (rows w))"
proof -
  let ?t = "clock E (ticks w)"
  have "Update (write_audit E r (request_record r w success ?t)) (w\<lparr>ticks := Suc (ticks w)\<rparr>) = (Inr u, w')"
    using assms by (simp add: record_audit_def request_record_def did effect_run)
  from Update_Inr [OF this] write_audit_did [of E r "request_record r w success ?t"] show ?thesis
    by (fastforce simp: request_record_def authentication_record_def)
qed

lemma token_suffix:
  "RFC3339Nano s @ ''-'' @ token_at E m = RFC3339Nano t @ ''-'' @ token_at E n \<Longrightarrow> token_at E m = token_at E n"
  using length_token_at [of E m] length_token_at [of E n]
  by (metis append_eq_append_conv append.assoc)

section \<open>Setting up\<close>

lemma Setup_did:
  assumes "Setup E name password master w = (Inr u, w')"
  shows "\<exists>i h j en k. bcrypt_gen E i password = Some h \<and> NewEnvelope E master j = (Inr en, k) \<and>
    map_of (rows w) (Key ''config'' ''envelope'') = None \<and>
    rows w' = row_put (Key ''admins'' name) (DAdmin \<lparr>ad_Name = name, ad_Password = h\<rparr>)
      (row_put (Key ''config'' ''envelope'') (DEnvelope en) (rows w))"
proof -
  have "\<exists>h en k. bcrypt_gen E (draws w) password = Some h \<and> NewEnvelope E master (Suc (draws w)) = (Inr en, k) \<and>
      Update (setup_tx name h en) (w\<lparr>draws := k\<rparr>) = (Inr u, w')"
    using assms
    by (auto simp: Setup_def did with_draws_def bcrypt_hash_def split: prod.splits option.splits if_splits)
  then obtain h en k w1 where gen: "bcrypt_gen E (draws w) password = Some h"
    and en: "NewEnvelope E master (Suc (draws w)) = (Inr en, k)"
    and w1: "rows w1 = rows w" and update: "Update (setup_tx name h en) w1 = (Inr u, w')"
    by (elim exE conjE) (rule that, assumption+, simp_all)
  have missing: "map_of (rows t) (Key kd i) = None" if "get_as as_envelope kd i t = (Inl ErrNotFound, t')" for kd i t t'
    using that by (auto simp: get_as_def tx_Get_def andthen_def stmt_def gets_def lift_def ret_def throw_def
      split: if_splits option.splits)
  from Update_Inr [OF update] have "map_of (rows w) (Key ''config'' ''envelope'') = None \<and>
    rows w' = row_put (Key ''admins'' name) (DAdmin \<lparr>ad_Name = name, ad_Password = h\<rparr>)
      (row_put (Key ''config'' ''envelope'') (DEnvelope en) (rows w))"
    by (auto simp: setup_tx_def did w1 dest!: did_tx dest: missing did_get_missing)
  with gen en show ?thesis by blast
qed

lemma setup_tx_again:
  assumes "map_of (rows w) (Key ''config'' ''envelope'') \<noteq> None"
  shows "\<exists>e. fst (setup_tx name p en w) = Inl e"
proof -
  have "wpre (setup_tx name p en) (\<lambda>x w'. \<exists>e. x = Inl e) w"
    using assms by (auto simp: setup_tx_def wp split: option.split sum.split)
  then show ?thesis by (simp add: wpre_def)
qed

lemma Setup_again:
  assumes "map_of (rows w) (Key ''config'' ''envelope'') \<noteq> None"
  shows "wpre (Setup E name password master) (\<lambda>x w'. rows w' = rows w \<and> (\<exists>e. x = Inl e)) w"
proof -
  have "wpre (Update (setup_tx name p en)) (\<lambda>x w'. rows w' = rows w1 \<and> (\<exists>e. x = Inl e)) w1"
    if "rows w1 = rows w" for p en w1
  proof (rule wpreI)
    fix x w2 assume run: "Update (setup_tx name p en) w1 = (x, w2)"
    show "rows w2 = rows w1 \<and> (\<exists>e. x = Inl e)"
    proof (cases x)
      case (Inl e)
      with run show ?thesis by (auto dest: Update_Inl)
    next
      case (Inr v)
      then obtain w3 where "setup_tx name p en (after_stmt (after_stmt w1)) = (Inr v, w3)"
        using run by (auto dest: Update_Inr)
      then show ?thesis
        using setup_tx_again [of "after_stmt (after_stmt w1)" name p en] assms that by simp
    qed
  qed
  then show ?thesis
    by (auto simp: Setup_def wp bcrypt_hash_def wpre_def [of "\<lambda>i. case bcrypt_gen E i password of
        None \<Rightarrow> (Inl (ErrText ''bcrypt''), i) | Some h \<Rightarrow> (Inr h, Suc i)"] wpre_def [of "NewEnvelope E master"]
        split: option.split sum.split)
qed

section \<open>Which requests reach the API\<close>

definition public_page :: "request \<Rightarrow> bool" where
  "public_page r \<longleftrightarrow> UrlPath r \<in> {''/audit'', ''/'', ''/app.js'', ''/style.css'', ''/browse.js'',
     ''/api/v1/health'', ''/api/v1/ready''}"

definition cross_origin :: "request \<Rightarrow> bool" where
  "cross_origin r \<longleftrightarrow> \<not> safe_method r \<and> header r ''Origin'' \<notin> {[], ''https://'' @ HostName r}"

definition api_request :: "request \<Rightarrow> bool" where
  "api_request r \<longleftrightarrow> UsesTLS r \<and> \<not> public_page r \<and> \<not> cross_origin r"

lemma ServeHTTP_api: "api_request r \<Longrightarrow> ServeHTTP E dl r = serve_api E dl r"
  by (auto simp: ServeHTTP_def api_request_def public_page_def cross_origin_def Let_def)

lemma ServeHTTP_other:
  assumes "\<not> api_request r"
  shows "wpre (ServeHTTP E dl r) (\<lambda>x w'. w' = w\<lparr>faults := faults w'\<rparr> \<and>
    (\<exists>res. x = Inr res \<and> (\<not> UsesTLS r \<longrightarrow> re_Status res = 400) \<and>
       (UsesTLS r \<and> \<not> public_page r \<longrightarrow> re_Status res = 403))) w"
proof -
  consider (plain) "\<not> UsesTLS r" | (page) "UsesTLS r" "public_page r"
    | (origin) "UsesTLS r" "\<not> public_page r" "cross_origin r"
    using assms by (auto simp: api_request_def)
  then show ?thesis
  proof cases
    case plain
    then show ?thesis by (simp add: ServeHTTP_def wp write_json_def)
  next
    case page
    then show ?thesis
      by (auto simp: ServeHTTP_def public_page_def Let_def wp ping_def after_stmt_faults)
  next
    case origin
    then show ?thesis
      by (simp add: ServeHTTP_def public_page_def cross_origin_def Let_def wp write_json_def)
  qed
qed

lemma error_status: "re_Status (error_response e) = status e"
  by (simp add: error_response_def write_json_def)

lemma status_text [simp]: "status (ErrText x) = 500"
  by (simp add: status_def)

section \<open>Properties\<close>

text \<open>The transport checks come first: a request without TLS is answered 400, a request
  with a method other than GET and HEAD and a foreign Origin 403, the pages and the health
  checks are served without the API, and none of these changes records, vault, limiter or
  audit identity.\<close>

theorem transport_checks:
  "wpre (ServeHTTP E dl r) (\<lambda>x w'. \<not> api_request r \<longrightarrow> w' = w\<lparr>faults := faults w'\<rparr> \<and>
    (\<exists>res. x = Inr res \<and> (\<not> UsesTLS r \<longrightarrow> re_Status res = 400) \<and>
       (UsesTLS r \<and> cross_origin r \<and> \<not> public_page r \<longrightarrow> re_Status res = 403))) w"
  using ServeHTTP_other [of r E dl w] by (cases "api_request r") (auto simp: wpre_def)

lemma transport_checks_witness:
  "wpre (ServeHTTP demo_senv demo_stream (demo_request ''GET'' ''/api/v1/admin/secrets'' []\<lparr>UsesTLS := False\<rparr>))
     (\<lambda>x w'. \<exists>res. x = Inr res \<and> re_Status res = 400 \<and> rows w' = demo_rows) (demo_state demo_rows)"
proof (rule wpre_mono [OF transport_checks], goal_cases)
  case (1 x w')
  then have w': "w' = (demo_state demo_rows)\<lparr>faults := faults w'\<rparr>"
    and answer: "\<exists>res. x = Inr res \<and> re_Status res = 400"
    by (simp_all add: api_request_def)
  have "rows w' = demo_rows" by (subst w') simp
  with answer show ?case by blast
qed

text \<open>The one failure that leaves the work of a route behind: its transaction was committed, and the
  one of the audit records that follows it failed.\<close>

definition audit_lost :: "senv \<Rightarrow> request \<Rightarrow> server \<Rightarrow> bool" where
  "audit_lost E r w \<longleftrightarrow>
     (\<exists>v w1 e. Update (route E r) (w\<lparr>identity := ''anonymous'', apath := []\<rparr>) = (Inr v, w1) \<and>
        fst (record_audit E r True w1) = Inl e)"

text \<open>C17: Every request is answered, and a request that fails changes no record but the audit
  log, however far its handler had come and whatever the driver did (a commit that fails is
  taken to have stored nothing): every answer but 200, the 500 of a driver, commit or JSON error
  included, means that secrets, agents, credentials, administrators, sessions and the envelope
  are as they were. There is one exception, and it is answered 500: the transaction of the
  route had been committed and the one that writes its audit records failed.\<close>

theorem failed_request_unchanged:
  "wpre (ServeHTTP E dl r) (\<lambda>x w'. \<exists>res. x = Inr res \<and>
     (re_Status res \<noteq> 200 \<longrightarrow> same_outside {''audit''} w w' \<or> api_request r \<and> audit_lost E r w \<and> re_Status res = 500)) w"
proof (cases "api_request r")
  case False
  have "same_outside K w w'" if "w' = w\<lparr>faults := fs\<rparr>" for w' fs K
    using that by (simp add: same_outside_def)
  then show ?thesis
    by (intro wpre_mono [OF ServeHTTP_other [OF False]]) blast
next
  case True
  let ?w0 = "w\<lparr>identity := ''anonymous'', apath := []\<rparr>"
  have audited: "same_outside {''audit''} w w2"
    if "same_outside {} w w1" "record_audit E r success w1 = (a, w2)" for w1 w2 success a
    using that(1) stepsD [OF record_audit_frame that(2)] by (simp add: same_outside_def)
  show ?thesis
    unfolding ServeHTTP_api [OF True]
  proof (rule serve_api_cases [OF refl], goal_cases)
    case (1 e w1 a w2)
    have "same_outside {} w w1" using Update_Inl [OF 1(1)] by (simp add: same_outside_def)
    from audited [OF this 1(2)] show ?case by simp
  next
    case (2 v code ck w1 e w2)
    then have "audit_lost E r w" by (simp add: audit_lost_def)
    with True show ?case by (simp add: error_status)
  next
    case (4 ck w1 w2 res)
    have "touched r = {}" using 4(2) by (simp add: touched_def safe_method_def)
    then have "same_outside {} ?w0 w1"
      using stepsD [OF frame.steps_Update [OF route_frame] 4(1)] by simp
    then have "same_outside {} w w1" by (simp add: same_outside_def)
    from audited [OF this 4(3)] show ?case by (simp add: same_outside_def)
  qed (simp_all add: write_json_def)
qed

lemma failed_request_unchanged_witness:
  "wpre (ServeHTTP demo_senv demo_stream (demo_request ''POST'' ''/api/v1/admin/lock'' []\<lparr>UsesTLS := False\<rparr>))
     (\<lambda>x w'. same_outside {''audit''} (demo_state demo_rows) w') (demo_state demo_rows)"
proof -
  let ?m = "ServeHTTP demo_senv demo_stream (demo_request ''POST'' ''/api/v1/admin/lock'' []\<lparr>UsesTLS := False\<rparr>)"
  have "wpre ?m (\<lambda>x w'. \<forall>res. x = Inr res \<longrightarrow> re_Status res = 400) (demo_state demo_rows)"
    by (simp add: ServeHTTP_def wp write_json_def)
  from wpre_conj [OF this failed_request_unchanged [of demo_senv demo_stream]] show ?thesis
    by (rule wpre_mono) auto
qed

text \<open>The two tokens drawn for the ids of a request's audit records differ and end no id of the log;
  each is 32 bytes of the system's randomness.\<close>

definition fresh_ids :: "senv \<Rightarrow> server \<Rightarrow> bool" where
  "fresh_ids E w \<longleftrightarrow> token_at E (draws w) \<noteq> token_at E (Suc (draws w)) \<and>
     (\<forall>k n s. map_of (rows w) (Key ''audit'' k) \<noteq> None \<and> n \<in> {draws w, Suc (draws w)} \<longrightarrow> k \<noteq> s @ ''-'' @ token_at E n)"

lemma record_audit_adds:
  assumes "record_audit E r success w = (Inr u, w')" and fresh: "fresh_ids E w"
  shows "\<exists>i j t t'. i \<noteq> j \<and> map_of (rows w) (Key ''audit'' i) = None \<and> map_of (rows w) (Key ''audit'' j) = None \<and>
    map_of (rows w') = (map_of (rows w))(Key ''audit'' i \<mapsto> DAudit (request_record r w success t),
      Key ''audit'' j \<mapsto> DAudit (authentication_record r w t'))"
proof -
  from record_audit_did [OF assms(1)] obtain t t' s s' where rows': "rows w' =
    row_put (Key ''audit'' (RFC3339Nano s' @ ''-'' @ token_at E (Suc (draws w)))) (DAudit (authentication_record r w t'))
    (row_put (Key ''audit'' (RFC3339Nano s @ ''-'' @ token_at E (draws w))) (DAudit (request_record r w success t))
    (rows w))" by blast
  define i where "i = RFC3339Nano s @ ''-'' @ token_at E (draws w)"
  define j where "j = RFC3339Nano s' @ ''-'' @ token_at E (Suc (draws w))"
  have "token_at E (draws w) \<noteq> token_at E (Suc (draws w))" using fresh by (simp add: fresh_ids_def)
  then have "i \<noteq> j" unfolding i_def j_def by (rule contrapos_nn) (rule token_suffix)
  moreover have "map_of (rows w) (Key ''audit'' i) = None" "map_of (rows w) (Key ''audit'' j) = None"
    using fresh unfolding i_def j_def fresh_ids_def by blast+
  moreover have "map_of (rows w') = (map_of (rows w))(Key ''audit'' i \<mapsto> DAudit (request_record r w success t),
      Key ''audit'' j \<mapsto> DAudit (authentication_record r w t'))"
    by (rule ext) (simp add: rows' row_simps i_def j_def)
  ultimately show ?thesis by blast
qed

text \<open>The log after a request: what it was, and two new entries; the rest is what its route left.\<close>

definition recorded_request :: "request \<Rightarrow> server \<Rightarrow> bool \<Rightarrow> server \<Rightarrow> server \<Rightarrow> bool" where
  "recorded_request r w success w1 w' \<longleftrightarrow>
     (\<exists>i j t t'. i \<noteq> j \<and> map_of (rows w) (Key ''audit'' i) = None \<and> map_of (rows w) (Key ''audit'' j) = None \<and>
        (\<forall>k. map_of (rows w') (Key ''audit'' k) = (if k = i then Some (DAudit (request_record r w1 success t))
           else if k = j then Some (DAudit (authentication_record r w1 t')) else map_of (rows w) (Key ''audit'' k))) \<and>
        (\<forall>kd k. kd \<noteq> ''audit'' \<longrightarrow> map_of (rows w') (Key kd k) = map_of (rows w1) (Key kd k)))"

text \<open>C18: Nothing happens unrecorded: every API request that is not answered 500 has added
  exactly two records to the audit log, under ids that were not in use, one with its identity,
  path, operation, source and outcome, one with the outcome of its authentication; every
  earlier entry of the log stays as it is, and apart from the log the records are those its
  route left. This supposes that the two random tokens of 32 bytes that are drawn for the ids
  are not drawn a second time: they differ and end no id in use.\<close>

theorem requests_audited:
  assumes "api_request r"
    and run: "Update (route E r) (w\<lparr>identity := ''anonymous'', apath := []\<rparr>) = (result, w1)" and fresh: "fresh_ids E w1"
  shows "wpre (ServeHTTP E dl r) (\<lambda>x w'. \<exists>res. x = Inr res \<and> (re_Status res \<noteq> 500 \<longrightarrow>
     recorded_request r w (case result of Inl e \<Rightarrow> False | Inr v \<Rightarrow> True) w1 w')) w"
proof -
  have log: "map_of (rows w1) (Key ''audit'' k) = map_of (rows w) (Key ''audit'' k)" for k
    using stepsD [OF frame.steps_Update [OF route_frame] run] audit_untouched [of r] by (simp add: same_outside_def)
  have two: "recorded_request r w success w1 w2" if "record_audit E r success w1 = (Inr u, w2)" for w2 success u
  proof -
    from record_audit_adds [OF that fresh] obtain i j t t' where "i \<noteq> j" "map_of (rows w1) (Key ''audit'' i) = None"
      "map_of (rows w1) (Key ''audit'' j) = None" "map_of (rows w2) = (map_of (rows w1))
         (Key ''audit'' i \<mapsto> DAudit (request_record r w1 success t), Key ''audit'' j \<mapsto> DAudit (authentication_record r w1 t'))"
      by blast
    then show ?thesis
      unfolding recorded_request_def by (intro exI [of _ i] exI [of _ j] exI [of _ t] exI [of _ t']) (simp add: log)
  qed
  show ?thesis
    unfolding ServeHTTP_api [OF assms(1)]
  proof (rule serve_api_cases [OF refl], unfold run, goal_cases)
    case (1 e w1' a w2)
    then show ?case using two [of False _ w2] by (cases a) (auto simp: error_status)
  next
    case 2
    then show ?case by (simp add: error_status)
  next
    case (3 v ck w1' w2)
    then show ?case using two [of True "()" w2] by simp
  next
    case (4 ck w1' w2 res)
    then show ?case using two [of True "()" w2] by (simp add: recorded_request_def)
  qed
qed

lemma demo_tokens: "token_at demo_senv n \<noteq> token_at demo_senv (Suc n)"
proof
  assume "token_at demo_senv n = token_at demo_senv (Suc n)"
  then have "map (entropy demo_senv n) [0..<32] ! 0 = map (entropy demo_senv (Suc n)) [0..<32] ! 0"
    by (simp add: token_at_def b64_inject del: map_eq_conv)
  then have "(char_of n :: char) = char_of (Suc n)"
    by (simp add: demo_senv_def demo_env_def env.defs)
  from arg_cong [OF this, of "of_char :: char \<Rightarrow> nat"] have "n mod 256 = Suc n mod 256"
    by (simp only: of_char_of)
  then show False by (simp add: mod_Suc split: if_splits)
qed

lemma requests_audited_witness:
  "wpre (ServeHTTP demo_senv demo_stream (demo_request ''GET'' ''/api/v1/admin/agents'' []))
     (\<lambda>x w'. \<exists>res. x = Inr res \<and>
        (re_Status res \<noteq> 500 \<longrightarrow> (\<exists>i a. map_of (rows w') (Key ''audit'' i) = Some (DAudit a)))) (demo_state demo_rows)"
proof -
  let ?r = "demo_request ''GET'' ''/api/v1/admin/agents'' []" and ?w = "demo_state demo_rows"
  obtain result w1 where run: "Update (route demo_senv ?r) (?w\<lparr>identity := ''anonymous'', apath := []\<rparr>) = (result, w1)"
    by (rule prod.exhaust)
  have "map_of (rows w1) (Key ''audit'' k) = None" for k
    using stepsD [OF frame.steps_Update [OF route_frame] run] audit_untouched [of ?r]
    by (simp add: same_outside_def demo_rows_def)
  then have "fresh_ids demo_senv w1" by (simp add: fresh_ids_def demo_tokens)
  moreover have "api_request ?r"
    by (simp add: api_request_def public_page_def cross_origin_def demo_request_def safe_method_def)
  ultimately show ?thesis
    using requests_audited [OF _ run]
    by (elim wpre_mono [OF requests_audited [OF _ run]]) (auto simp: recorded_request_def)
qed

text \<open>C19: Setup opens the service once: after it succeeded, the stored envelope unlocks with
  the master key it was given, the administrator's password is accepted, the store held no
  envelope before, and while an envelope is stored every further setup fails and changes no
  record.\<close>

theorem setup_once:
  assumes run: "Setup E name password master w = (Inr u, w')"
    and laws: "gcm_law E" "scrypt_law E" and law: "\<And>i h. bcrypt_gen E i password = Some h \<Longrightarrow> bcrypt_match E h password"
  shows "map_of (rows w) (Key ''config'' ''envelope'') = None \<and>
    (\<exists>en. map_of (rows w') (Key ''config'' ''envelope'') = Some (DEnvelope en) \<and>
       (\<forall>old. \<exists>key. Unlock E master en old = (Inr (), key) \<and> \<not> Locked key)) \<and>
    password_holder E w' \<lparr>cr_Name = name, cr_Password = password\<rparr> \<noteq> None \<and>
    (\<forall>w2 n p m. map_of (rows w2) (Key ''config'' ''envelope'') = map_of (rows w') (Key ''config'' ''envelope'') \<longrightarrow>
       wpre (Setup E n p m) (\<lambda>x w3. rows w3 = rows w2 \<and> (\<exists>e. x = Inl e)) w2)"
proof -
  from Setup_did [OF run] obtain i h j en k where h: "bcrypt_gen E i password = Some h"
    and en: "NewEnvelope E master j = (Inr en, k)" and none: "map_of (rows w) (Key ''config'' ''envelope'') = None"
    and rows': "rows w' = row_put (Key ''admins'' name) (DAdmin \<lparr>ad_Name = name, ad_Password = h\<rparr>)
      (row_put (Key ''config'' ''envelope'') (DEnvelope en) (rows w))"
    by blast
  have stored: "map_of (rows w') (Key ''config'' ''envelope'') = Some (DEnvelope en)"
    by (simp add: rows' row_simps)
  have "password_holder E w' \<lparr>cr_Name = name, cr_Password = password\<rparr> \<noteq> None"
    using law [OF h] by (simp add: rows' row_simps password_holder_def)
  moreover have "\<forall>old. \<exists>key. Unlock E master en old = (Inr (), key) \<and> \<not> Locked key"
    using NewEnvelope_key [OF laws en] by blast
  ultimately show ?thesis
    using none stored by (auto intro!: Setup_again)
qed

lemma setup_once_witness:
  "\<exists>en. map_of (rows (snd (Setup demo_senv ''root'' ''long password'' ''sixteen chars key'' (demo_state []))))
     (Key ''config'' ''envelope'') = Some (DEnvelope en)"
proof -
  let ?m = "''sixteen chars key''"
  obtain en k where "Wrap demo_senv ?m (map (entropy demo_senv 1) [0..<32]) 2 = (Inr en, k)"
    using Wrap_succeeds [OF demo_senv_scrypt, of ?m "map (entropy demo_senv 1) [0..<32]" 2] by auto
  then have en: "NewEnvelope demo_senv ?m 1 = (Inr en, k)"
    by (simp add: NewEnvelope_def andthen_def rand_read_def numeral_2_eq_2)
  have "wpre (Setup demo_senv ''root'' ''long password'' ?m)
      (\<lambda>x w'. case x of Inl e \<Rightarrow> False | Inr y \<Rightarrow> True) (demo_state [])"
  proof -
    have "TrimSpace ''root'' = ''root''" by code_simp
    moreover have "bcrypt_gen demo_senv i p = (if length p \<le> 72 then Some (''$'' @ p) else None)" for i p
      by (simp add: demo_senv_def demo_env_def env.defs)
    moreover have "fst (Update (setup_tx ''root'' h en) (demo_state []\<lparr>draws := k\<rparr>)) = Inr ()" for h
    proof -
      have "setup_tx ''root'' h en (demo_state []\<lparr>draws := k\<rparr>) =
        (Inr (), demo_state []\<lparr>draws := k, rows :=
           row_put (Key ''admins'' ''root'') (DAdmin \<lparr>ad_Name = ''root'', ad_Password = h\<rparr>)
             (row_put (Key ''config'' ''envelope'') (DEnvelope en) [])\<rparr>)"
        by (simp add: setup_tx_def andthen_def attempt_def runs)
      from Update_no_faults [where fn = "setup_tx ''root'' h en", OF _ this] show ?thesis by simp
    qed
    ultimately show ?thesis
      by (simp add: Setup_def bcrypt_hash_def wp wpre_def en [unfolded One_nat_def] with_draws_def andthen_def)
  qed
  then have "(case fst (Setup demo_senv ''root'' ''long password'' ?m (demo_state [])) of Inl e \<Rightarrow> False | Inr y \<Rightarrow> True)"
    by (simp add: wpre_def)
  from setup_once [OF succeeded [OF this] demo_senv_gcm demo_senv_scrypt] demo_bcrypt show ?thesis
    by blast
qed

end
