(* ===== verification/Delivery.thy ===== *)
theory Delivery
  imports Replies Requests Steady
begin

text \<open>
  The two programs together: the agent's calls reach \<open>ServeHTTP\<close> as requests, the answers come
  back as bytes, and what the agent then publishes is what is stored at the server.
\<close>

section \<open>The link\<close>

text \<open>
  What \<open>net/http\<close> makes of a call to this origin: the path without the origin, decoded, and the
  bearer token as a header. A call elsewhere, or with a path that does not decode, is not served.
\<close>

definition request_of :: "string \<Rightarrow> string \<Rightarrow> api_call \<Rightarrow> request option" where
  "request_of origin remote call =
     (if \<not> HasPrefix (ac_Url call) origin then None
      else map_option (\<lambda>p. \<lparr>Method = ac_Method call, UrlPath = p, UsesTLS = True, HostName = TrimPrefix origin ''https://'',
          Headers = (case ac_Bearer call of None \<Rightarrow> [] | Some token \<Rightarrow> [(''Authorization'', ''Bearer '' @ token)]),
          Cookies = [], RemoteAddr = remote, Body = ac_Body call\<rparr>)
        (PathUnescape (TrimPrefix (ac_Url call) origin)))"

record link =
  at_origin :: string
  at_remote :: string
  at_stamp :: "time \<Rightarrow> string"
  at_stream :: streaming

definition answer :: "senv \<Rightarrow> link \<Rightarrow> api_call \<Rightarrow> server \<Rightarrow> server_reply \<times> server" where
  "answer E l call s =
     (case request_of (at_origin l) (at_remote l) call of
        None \<Rightarrow> (NoReply, s)
      | Some r \<Rightarrow>
          (case ServeHTTP E (at_stream l) r s of
             (Inl e, s') \<Rightarrow> (NoReply, s')
           | (Inr res, s') \<Rightarrow> (Answer (re_Status res) (body_bytes (at_stamp l) (re_Body res)), s')))"

section \<open>The server's side\<close>

text \<open>The agent of this token may read this live secret: its record and its value.\<close>

definition grants :: "senv \<Rightarrow> string \<Rightarrow> string \<Rightarrow> secret \<Rightarrow> string \<Rightarrow> server \<Rightarrow> bool" where
  "grants E token p rc v s \<longleftrightarrow> \<not> Locked (Vault s) \<and> Normalize p = Inr p \<and>
     (\<exists>a. map_of (rows s) (Key ''credentials'' (Hash E token)) = Some (DIndex (ag_ID a)) \<and>
        map_of (rows s) (Key ''agents'' (ag_ID a)) = Some (DAgent a) \<and> \<not> ag_Revoked a \<and> ag_Hash a = Hash E token \<and>
        Allowed p (ag_Paths a)) \<and>
     map_of (rows s) (Key ''secrets'' p) = Some (DSecret rc) \<and> \<not> sec_Deleted rc \<and>
     Decrypt E (Vault s) p (sec_Ciphertext rc) = Inr v"

definition value_reply :: "string \<Rightarrow> secret \<Rightarrow> string \<Rightarrow> reply" where
  "value_reply p rc v = RValue v p (sec_Revision rc) (sec_Created rc) (sec_Updated rc)"

definition metadata_reply :: "secret \<Rightarrow> reply" where
  "metadata_reply rc = RSecret (rc\<lparr>sec_Ciphertext := []\<rparr>)"

lemma no_download [simp]: "value_reply p rc v \<noteq> RAuditDownload" "metadata_reply rc \<noteq> RAuditDownload"
  by (simp_all add: value_reply_def metadata_reply_def)

text \<open>A GET of the agent below the API, and the request it becomes.\<close>

definition agent_get :: "string \<Rightarrow> string \<Rightarrow> string \<Rightarrow> api_call" where
  "agent_get origin token path = \<lparr>ac_Method = ''GET'', ac_Url = origin @ ''/api/v1/'' @ path, ac_Bearer = Some token, ac_Body = []\<rparr>"

definition get_request :: "string \<Rightarrow> string \<Rightarrow> string \<Rightarrow> string \<Rightarrow> request" where
  "get_request origin remote token path =
     \<lparr>Method = ''GET'', UrlPath = ''/api/v1/'' @ path, UsesTLS = True, HostName = TrimPrefix origin ''https://'',
      Headers = [(''Authorization'', ''Bearer '' @ token)], Cookies = [], RemoteAddr = remote, Body = []\<rparr>"

lemma get_request_simps [simp]:
  "Method (get_request origin remote token path) = ''GET''" "UsesTLS (get_request origin remote token path)"
  "UrlPath (get_request origin remote token path) = ''/api/v1/'' @ path"
  by (simp_all add: get_request_def)

lemma PathUnescape_plain: "CHR ''%'' \<notin> set s \<Longrightarrow> PathUnescape (s @ t) = map_option ((@) s) (PathUnescape t)"
  by (cases "PathUnescape t"; induction s) auto

lemma request_of_get:
  assumes "PathUnescape path = Some p"
  shows "request_of origin remote (agent_get origin token path) = Some (get_request origin remote token p)"
  using PathUnescape_plain [of "''/api/v1/''" path] assms
  by (simp add: request_of_def agent_get_def get_request_def HasPrefix_def del: PathUnescape.simps)

lemma get_request_token: "token \<noteq> [] \<Longrightarrow> bearer_token (get_request origin remote token path) = Some token"
proof -
  have "token \<noteq> ''Bearer '' @ token" by (metis append_self_conv2 list.distinct(1))
  then show "token \<noteq> [] \<Longrightarrow> ?thesis"
    using TrimPrefix_append [of "''Bearer ''" token]
    by (simp add: bearer_token_def get_request_def header_def Let_def)
qed

lemma update_calm:
  assumes "faults w = []" and "wpre fn (\<lambda>x w'. faults w' = [] \<and> Q x (case x of Inl e \<Rightarrow> rollback_to (rows w) w' | Inr v \<Rightarrow> w')) w"
  shows "wpre (Update fn) Q w"
  using assms Update_no_faults [of w fn "fst (fn w)" "snd (fn w)"] by (simp add: wpre_def)

lemma audit_calm:
  assumes "faults w = []"
  shows "wpre (record_audit E r b) (\<lambda>x w'. x = Inr () \<and> faults w' = [] \<and> Vault w' = Vault w \<and> same_outside {''audit''} w w') w"
proof -
  have written: "wpre (write_audit E r a) (\<lambda>x w'. x = Inr () \<and> faults w' = [] \<and> Vault w' = Vault w) w"
    if "faults w = []" for a w
    using that by (simp add: write_audit_def audit_id_def wp Let_def)
  have "wpre (record_audit E r b) (\<lambda>x w'. x = Inr () \<and> faults w' = [] \<and> Vault w' = Vault w) w"
    unfolding record_audit_def
    using assms by (simp add: wp) (rule update_calm, simp, rule wpre_mono [OF written], auto)
  from wpre_conj [OF this steps_wpre [OF record_audit_frame]] show ?thesis by (rule wpre_mono) simp
qed

lemma secret_answered:
  assumes "faults s = []" and "token \<noteq> []" and "grants E token p rc v s"
  shows "wpre (route E (get_request origin remote token (''secrets/'' @ p))) (\<lambda>x s'. x = Inr (value_reply p rc v, 200, None) \<and>
      rows s' = rows s \<and> Vault s' = Vault s \<and> faults s' = []) s"
    and "wpre (route E (get_request origin remote token (''metadata/'' @ p))) (\<lambda>x s'. x = Inr (metadata_reply rc, 200, None) \<and>
      rows s' = rows s \<and> Vault s' = Vault s \<and> faults s' = []) s"
proof -
  obtain a where a: "map_of (rows s) (Key ''credentials'' (Hash E token)) = Some (DIndex (ag_ID a))"
      "map_of (rows s) (Key ''agents'' (ag_ID a)) = Some (DAgent a)" "\<not> ag_Revoked a" "ag_Hash a = Hash E token"
      "Allowed p (ag_Paths a)"
    and rc: "map_of (rows s) (Key ''secrets'' p) = Some (DSecret rc)" "\<not> sec_Deleted rc"
      "Decrypt E (Vault s) p (sec_Ciphertext rc) = Inr v" and p: "Normalize p = Inr p" "\<not> Locked (Vault s)"
    using assms(3) by (auto simp: grants_def)
  note defs = HasPrefix_step h_agent_def authenticateAgent_def get_request_token [OF assms(2)] wp Let_def
    secret_handler_def secret_switch_def secret_read_def TrimPrefix_def
  show "wpre (route E (get_request origin remote token (''secrets/'' @ p))) (\<lambda>x s'. x = Inr (value_reply p rc v, 200, None) \<and>
      rows s' = rows s \<and> Vault s' = Vault s \<and> faults s' = []) s"
    using assms(1) a rc p by (simp add: route_agent value_reply_def defs)
  show "wpre (route E (get_request origin remote token (''metadata/'' @ p))) (\<lambda>x s'. x = Inr (metadata_reply rc, 200, None) \<and>
      rows s' = rows s \<and> Vault s' = Vault s \<and> faults s' = []) s"
    using assms(1) a rc p by (simp add: route_agent metadata_reply_def defs)
qed

lemma get_api: "api_request (get_request origin remote token (''secrets/'' @ p))" "api_request (get_request origin remote token (''metadata/'' @ p))"
  by (simp_all add: api_request_def public_page_def cross_origin_def safe_method_def)

text \<open>A route that answers without a fault becomes a response of status 200, after the audit.\<close>

lemma served_calm:
  assumes "api_request r" and "faults s = []" and "v \<noteq> RAuditDownload"
    and "wpre (route E r) (\<lambda>x s'. x = Inr (v, 200, None) \<and> rows s' = rows s \<and> Vault s' = Vault s \<and> faults s' = [])
      (s\<lparr>identity := ''anonymous'', apath := []\<rparr>)"
  shows "wpre (ServeHTTP E dl r) (\<lambda>x s'. \<exists>res. x = Inr res \<and> re_Status res = 200 \<and> re_Body res = JReply v \<and>
      faults s' = [] \<and> Vault s' = Vault s \<and> same_outside {''audit''} s s') s"
  unfolding ServeHTTP_api [OF assms(1)] serve_api_def wpre_andthen [of "set_identity _"] wpre_andthen [of "set_path _"]
    wpre_andthen [of "attempt _"] wpre_set_identity wpre_set_path sum.case wpre_attempt
proof (rule update_calm, goal_cases)
  case 2
  show ?case
  proof (rule wpre_mono [OF assms(4) [simplified]], goal_cases)
    case (1 x s1)
    have "faults s1 = []" "x = Inr (v, 200, None)" using 1 by simp_all
    then show ?case
      using 1 assms(3)
      by (auto simp: wp write_json_def same_outside_def intro!: wpre_mono [OF audit_calm])
  qed
qed (simp add: assms(2))

section \<open>The agent's side\<close>

lemma set_int_sint [simp]: "set_int old (JInt (sint n)) = Some (n :: int64)"
  using sint_range_size [of n] by (simp add: set_int_def word_size)

lemma value_read_back:
  assumes "length (body_bytes stamp (JReply (value_reply p rc v))) \<le> 3 * 1024 * 1024"
  shows "decode_answer (body_bytes stamp (JReply (value_reply p rc v))) value_fields ([], 0) = Inr (text_of v, sec_Revision rc)"
  unfolding decode_answer_def take_all [OF assms] reply_read
  by (simp add: reply_json_def value_reply_def text_of_ascii into_struct_def value_fields_def data_fields_def field_def names_def
      skip_field_def set_string_def)

lemma revision_read_back:
  assumes "length (body_bytes stamp (JReply (metadata_reply rc))) \<le> 3 * 1024 * 1024"
  shows "decode_answer (body_bytes stamp (JReply (metadata_reply rc))) revision_field 0 = Inr (sec_Revision rc)"
  unfolding decode_answer_def take_all [OF assms] reply_read
  by (simp add: reply_json_def metadata_reply_def json_defs text_of_ascii into_struct_def revision_field_def field_def names_def
      skip_field_def)

lemma PathUnescape_below: "CHR ''%'' \<notin> set k \<Longrightarrow> PathUnescape (k @ escape_path p) = Some (k @ p)"
  by (simp add: PathUnescape_plain escape_path_def PathUnescape_Join Join_Split)

text \<open>The two calls of a synchronisation, answered one after the other.\<close>

lemma answered:
  assumes "faults s = []" and "token \<noteq> []" and "grants E token p rc v s"
  shows "\<exists>s1. answer E l (agent_get (at_origin l) token (''metadata/'' @ escape_path p)) s =
      (Answer 200 (body_bytes (at_stamp l) (JReply (metadata_reply rc))), s1) \<and> faults s1 = [] \<and> grants E token p rc v s1"
    and "\<exists>s1. answer E l (agent_get (at_origin l) token (''secrets/'' @ escape_path p)) s =
      (Answer 200 (body_bytes (at_stamp l) (JReply (value_reply p rc v))), s1) \<and> faults s1 = [] \<and> grants E token p rc v s1"
proof -
  let ?s = "s\<lparr>identity := ''anonymous'', apath := []\<rparr>"
  have start: "faults ?s = []" "grants E token p rc v ?s" using assms by (simp_all add: grants_def)
  have kept: "grants E token p rc v s1" if "Vault s1 = Vault s" "same_outside {''audit''} s s1" for s1
    using assms(3) that by (simp add: grants_def same_outside_def)
  let ?r = "\<lambda>k. get_request (at_origin l) (at_remote l) token (k @ p)"
  have meta: "wpre (route E (?r ''metadata/'')) (\<lambda>x s'. x = Inr (metadata_reply rc, 200, None) \<and>
      rows s' = rows s \<and> Vault s' = Vault s \<and> faults s' = []) ?s"
    using secret_answered(2) [OF start(1) assms(2) start(2), of "at_origin l" "at_remote l"] by simp
  have val: "wpre (route E (?r ''secrets/'')) (\<lambda>x s'. x = Inr (value_reply p rc v, 200, None) \<and>
      rows s' = rows s \<and> Vault s' = Vault s \<and> faults s' = []) ?s"
    using secret_answered(1) [OF start(1) assms(2) start(2), of "at_origin l" "at_remote l"] by simp
  have request: "request_of (at_origin l) (at_remote l) (agent_get (at_origin l) token (k @ escape_path p)) = Some (?r k)"
    if "CHR ''%'' \<notin> set k" for k
    by (rule request_of_get [OF PathUnescape_below [OF that]])
  show "\<exists>s1. answer E l (agent_get (at_origin l) token (''metadata/'' @ escape_path p)) s =
      (Answer 200 (body_bytes (at_stamp l) (JReply (metadata_reply rc))), s1) \<and> faults s1 = [] \<and> grants E token p rc v s1"
    using served_calm [OF get_api(2) assms(1) _ meta, of "at_stream l"] request [of "''metadata/''"] kept
    by (auto simp: answer_def wpre_def split: prod.split)
  show "\<exists>s1. answer E l (agent_get (at_origin l) token (''secrets/'' @ escape_path p)) s =
      (Answer 200 (body_bytes (at_stamp l) (JReply (value_reply p rc v))), s1) \<and> faults s1 = [] \<and> grants E token p rc v s1"
    using served_calm [OF get_api(1) assms(1) _ val, of "at_stream l"] request [of "''secrets/''"] kept
    by (auto simp: answer_def wpre_def split: prod.split)
qed

section \<open>What the agent publishes\<close>

text \<open>An answer the agent reads whole: it takes the first 3 MiB.\<close>

fun fits :: "server_reply \<Rightarrow> bool" where
  "fits (Answer code b) = (length b \<le> 3 * 1024 * 1024)"
| "fits NoReply = True"

text \<open>The next two answers of the agent's world are those of the server, to the agent's next two calls.\<close>

definition answered_by :: "senv \<Rightarrow> link \<Rightarrow> server \<Rightarrow> string \<Rightarrow> 'z agent_world_scheme \<Rightarrow> bool" where
  "answered_by E l s p w \<longleftrightarrow> at_origin l = cf_Server (Cfg w) \<and>
     (let get = agent_get (at_origin l) (cr_Token (Credentials w));
          (a, s1) = answer E l (get (''metadata/'' @ escape_path p)) s;
          (b, s2) = answer E l (get (''secrets/'' @ escape_path p)) s1
      in (\<exists>rs. replies w = a # b # rs) \<and> fits a \<and> fits b)"

lemma answered_by_iff:
  assumes "faults s = []" and "cr_Token (Credentials w) \<noteq> []" and "grants E (cr_Token (Credentials w)) p rc v s"
  shows "answered_by E l s p w \<longleftrightarrow> at_origin l = cf_Server (Cfg w) \<and>
    (\<exists>rs. replies w = Answer 200 (body_bytes (at_stamp l) (JReply (metadata_reply rc))) #
       Answer 200 (body_bytes (at_stamp l) (JReply (value_reply p rc v))) # rs) \<and>
    length (body_bytes (at_stamp l) (JReply (metadata_reply rc))) \<le> 3 * 1024 * 1024 \<and>
    length (body_bytes (at_stamp l) (JReply (value_reply p rc v))) \<le> 3 * 1024 * 1024"
proof -
  obtain s1 where a: "answer E l (agent_get (at_origin l) (cr_Token (Credentials w)) (''metadata/'' @ escape_path p)) s =
      (Answer 200 (body_bytes (at_stamp l) (JReply (metadata_reply rc))), s1)" "faults s1 = []"
      "grants E (cr_Token (Credentials w)) p rc v s1"
    using answered(1) [OF assms, of l] by blast
  obtain s2 where b: "answer E l (agent_get (at_origin l) (cr_Token (Credentials w)) (''secrets/'' @ escape_path p)) s1 =
      (Answer 200 (body_bytes (at_stamp l) (JReply (value_reply p rc v))), s2)"
    using answered(2) [OF a(2) assms(2) a(3), of l] by blast
  show ?thesis by (simp only: answered_by_def Let_def a(1) b prod.case fits.simps)
qed

text \<open>C5: What an agent publishes is what is stored. The server holds the live record \<open>rc\<close>
  of a secret with the value \<open>v\<close>, and the token of the agent may read it; the agent synchronises a definition of
  that secret without a template, and
  its two calls are answered by the server, without a driver fault and within the 3 MiB the agent reads. Then, however
  the rest of the synchronisation goes, with failing system calls or a crash, the destination
  is as it was or the complete, synced file with exactly this value, made UTF-8; and if it
  succeeds, the agent has recorded the revision of the record, and the file holds the value unless the
  agent had found the recorded content of this revision in place.\<close>

theorem stored_value_published:
  assumes server: "faults s = []" "grants E (cr_Token (Credentials w)) (de_Path d) rc v s"
    and link: "answered_by E l s (de_Path d) w"
    and agent: "cr_Token (Credentials w) \<noteq> []" "in_step c w" "separate c d w" "de_Template d = []"
    and run: "syncOne Ea name d w = (x, w')"
  shows "(dest (nodes w') (de_Destination d) = dest (nodes w) (de_Destination d) \<or>
      (\<exists>m uid gid. synced_at (nodes w') (de_Destination d) (published (new_file Ea) (Bytes (text_of v)) m uid gid)))
    \<and> (case x of Inl e \<Rightarrow> True
      | Inr u \<Rightarrow> ap_Revision (recorded name w') = sec_Revision rc \<and>
          ((\<exists>m uid gid. up_to_date Ea name d m uid gid w) \<or>
           (\<exists>m uid gid. synced_at (nodes w') (de_Destination d) (published (new_file Ea) (Bytes (text_of v)) m uid gid))))"
proof -
  obtain a b rs where rs: "replies w = Answer 200 a # Answer 200 b # rs"
    and a: "decode_answer a revision_field 0 = Inr (sec_Revision rc)"
    and b: "decode_answer b value_fields ([], 0) = Inr (text_of v, sec_Revision rc)"
    using link revision_read_back value_read_back unfolding answered_by_iff [OF server(1) agent(1) server(2)] by blast
  have "sync_outcome Ea c name d w x w'" using wpreD [OF wpre_syncOne [OF agent(2,3)] run] .
  then show ?thesis
  proof cases
    case (early e)
    then show ?thesis using destination_stays [OF agent(3) quiet_evolved] by auto
  next
    case (nothing_to_do m uid gid)
    then have "ap_Revision (recorded name w) = sec_Revision rc" using rs a by (auto simp: up_to_date_def)
    then show ?thesis
      using nothing_to_do quiet_same [OF nothing_to_do(2)] destination_stays [OF agent(3) quiet_evolved [OF nothing_to_do(2)]]
      by auto
  next
    case (hook_due m uid gid)
    have "ap_Revision (recorded name w) = sec_Revision rc" using hook_due(4) rs a by (auto simp: up_to_date_def)
    then show ?thesis
      using hook_due(4,7) destination_stays [OF agent(3) hook_due(2)]
      by (auto simp: hook_finished_def cleared_def recorded_def split: sum.splits)
  next
    case (publishing m uid gid source data revision)
    have "data = text_of v" "revision = sec_Revision rc" using publishing(4) rs b agent(4) by (auto simp: served_def)
    then show ?thesis
      using publishing(5,6)
      by (auto simp: on_disk_def remembers_def new_record_def recorded_def split: sum.splits)
  qed
qed

section \<open>A concrete delivery\<close>

definition demo_record :: "string \<Rightarrow> secret" where
  "demo_record c = \<lparr>sec_Path = ''app/key'', sec_Revision = 1, sec_Created = 1, sec_Updated = 1, sec_Ciphertext = c,
     sec_Algorithm = ''AES-256-GCM'', sec_Deleted = False\<rparr>"

definition demo_reader :: agent where
  "demo_reader = \<lparr>ag_ID = ''a1'', ag_Name = ''n'', ag_Paths = [''app/key''], ag_Hash = Hash demo_senv ''token'',
     ag_Revoked = False, ag_Created = 1\<rparr>"

definition demo_served :: "string \<Rightarrow> server" where
  "demo_served c = demo_state
     [(Key ''credentials'' (Hash demo_senv ''token''), DIndex ''a1''),
      (Key ''agents'' ''a1'', DAgent demo_reader), (Key ''secrets'' ''app/key'', DSecret (demo_record c))]"

definition demo_link :: link where
  "demo_link = \<lparr>at_origin = ''https://ssm'', at_remote = ''10.0.0.1:4000'', at_stamp = (\<lambda>t. ''0''), at_stream = demo_stream\<rparr>"

definition demo_bodies :: "string \<times> string" where
  "demo_bodies = (body_bytes (\<lambda>t. ''0'') (JReply (metadata_reply (demo_record []))),
     body_bytes (\<lambda>t. ''0'') (JReply (value_reply ''app/key'' (demo_record []) ''new'')))"

lemma demo_bodies_short: "length (fst demo_bodies) \<le> 1000" "length (snd demo_bodies) \<le> 1000"
  by code_simp+

lemma stored_value_published_witness:
  "\<exists>w'. syncOne demo_agent_env ''a.yaml'' demo_definition
       (demo_agent_world [Answer 200 (fst demo_bodies), Answer 200 (snd demo_bodies)] []) = (Inr (), w') \<and>
     ap_Revision (recorded ''a.yaml'' w') = 1 \<and>
     (\<exists>m uid gid. synced_at (nodes w') ''/run/key'' (published (new_file demo_agent_env) (Bytes ''new'') m uid gid))"
proof -
  let ?w = "demo_agent_world [Answer 200 (fst demo_bodies), Answer 200 (snd demo_bodies)] []"
  have usable: "vault_usable demo_senv (Vault (demo_served []))" using demo_senv_vault by (simp add: demo_served_def demo_state_def)
  obtain c where c: "Encrypt demo_senv (Vault (demo_served [])) ''app/key'' ''new'' 0 = (Inr c, Suc 0)"
    using Encrypt_usable [OF usable] by blast
  have vault: "Vault (demo_served c) = Vault (demo_served [])" by (simp add: demo_served_def demo_state_def)
  have decrypted: "Decrypt demo_senv (Vault (demo_served c)) ''app/key'' c = Inr ''new''"
    using Decrypt_Encrypt [OF usable c] by (simp add: vault)
  have path: "Normalize ''app/key'' = Inr ''app/key''" "Allowed ''app/key'' [''app/key'']" by code_simp+
  have facts: "cr_Token (Credentials ?w) = ''token''" "Cfg ?w = demo_config" "de_Path demo_definition = ''app/key''"
      "de_Template demo_definition = []" "de_Destination demo_definition = ''/run/key''" "cf_Server demo_config = ''https://ssm''"
      "recorded ''a.yaml'' ?w = zero_applied"
    by (simp_all add: demo_agent_world_def demo_definition_def demo_config_def recorded_def)
  have served: "map_of (rows (demo_served c)) (Key ''credentials'' (Hash demo_senv ''token'')) = Some (DIndex (ag_ID demo_reader))"
      "map_of (rows (demo_served c)) (Key ''agents'' (ag_ID demo_reader)) = Some (DAgent demo_reader)" "ag_Paths demo_reader = [''app/key'']"
      "ag_Hash demo_reader = Hash demo_senv ''token''" "\<not> ag_Revoked demo_reader"
      "map_of (rows (demo_served c)) (Key ''secrets'' ''app/key'') = Some (DSecret (demo_record c))"
      "sec_Ciphertext (demo_record c) = c" "\<not> sec_Deleted (demo_record c)" "faults (demo_served c) = []"
    by (simp_all add: demo_served_def demo_record_def demo_reader_def)
  have server: "faults (demo_served c) = []"
      "grants demo_senv (cr_Token (Credentials ?w)) (de_Path demo_definition) (demo_record c) ''new'' (demo_served c)"
    using usable_not_Locked [OF usable] path decrypted served
    by (auto simp: facts grants_def vault)
  have bodies: "body_bytes (\<lambda>t. ''0'') (JReply (metadata_reply (demo_record c))) = fst demo_bodies"
      "body_bytes (\<lambda>t. ''0'') (JReply (value_reply ''app/key'' (demo_record c) ''new'')) = snd demo_bodies"
    by (simp_all add: demo_bodies_def metadata_reply_def value_reply_def demo_record_def)
  have link: "answered_by demo_senv demo_link (demo_served c) (de_Path demo_definition) ?w"
    using answered_by_iff [OF server(1) _ server(2), of demo_link] demo_bodies_short
    by (simp add: facts demo_link_def bodies) (simp add: demo_agent_world_def)
  have revision: "sec_Revision (demo_record c) = 1" by (simp add: demo_record_def)
  have read: "decode_answer (fst demo_bodies) revision_field 0 = Inr 1"
      "decode_answer (snd demo_bodies) value_fields ([], 0) = Inr (''new'', 1)"
    using revision_read_back [of "\<lambda>t. ''0''" "demo_record c", unfolded bodies]
      value_read_back [of "\<lambda>t. ''0''" "''app/key''" "demo_record c" "''new''", unfolded bodies] demo_bodies_short
    by (simp_all add: revision text_of_ascii)
  obtain w' where run: "syncOne demo_agent_env ''a.yaml'' demo_definition ?w = (Inr (), w')"
    using demo_sync_any [OF read, of "''a.yaml''" "[]"] by (cases "syncOne demo_agent_env ''a.yaml'' demo_definition ?w") (simp add: wpre_def)
  have "cr_Token (Credentials ?w) \<noteq> []" by (simp add: facts)
  from stored_value_published [OF server link this demo_in_step demo_separate facts(4) run]
  show ?thesis
    using run by (auto simp: facts up_to_date_def zero_applied_def revision text_of_ascii)
qed

end
