(* ===== verification/Unlocked.thy ===== *)
theory Unlocked
  imports Unlocking Delivery
begin

text \<open>
  The unlock client and the server together: the client's posts reach \<open>ServeHTTP\<close> as requests,
  and when the client reports success the server's vault has been opened.
\<close>

section \<open>The link\<close>

record door =
  door_origin :: string
  door_remote :: string
  door_stamp :: "time \<Rightarrow> string"
  door_stream :: streaming

text \<open>What \<open>net/http\<close> makes of a post to this origin.\<close>

definition post_request :: "door \<Rightarrow> post \<Rightarrow> request option" where
  "post_request l p =
     (if \<not> HasPrefix (po_Url p) (door_origin l) then None
      else map_option (\<lambda>path. \<lparr>Method = ''POST'', UrlPath = path, UsesTLS = True, HostName = TrimPrefix (door_origin l) ''https://'',
          Headers = [(''Content-Type'', ''application/json''), (''X-CSRF-Token'', po_CSRF p)],
          Cookies = po_Cookies p, RemoteAddr = door_remote l, Body = po_Body p\<rparr>)
        (PathUnescape (TrimPrefix (po_Url p) (door_origin l))))"

definition post_answer :: "senv \<Rightarrow> door \<Rightarrow> post \<Rightarrow> server \<Rightarrow> post_reply \<times> server" where
  "post_answer E l p s =
     (case post_request l p of
        None \<Rightarrow> (NoAnswer, s)
      | Some r \<Rightarrow>
          (case ServeHTTP E (door_stream l) r s of
             (Inl e, s') \<Rightarrow> (NoAnswer, s')
           | (Inr res, s') \<Rightarrow> (Posted (re_Status res) (case re_Cookie res of None \<Rightarrow> [] | Some ck \<Rightarrow> [ck])
               (body_bytes (door_stamp l) (re_Body res)), s')))"

text \<open>The answers to a sequence of posts, in their order.\<close>

fun converse :: "senv \<Rightarrow> door \<Rightarrow> post list \<Rightarrow> server \<Rightarrow> post_reply list \<times> server" where
  "converse E l [] s = ([], s)"
| "converse E l (p # ps) s = (case post_answer E l p s of (a, s1) \<Rightarrow> (case converse E l ps s1 of (as, s2) \<Rightarrow> (a # as, s2)))"

section \<open>A post as a request\<close>

definition api_request_of :: "door \<Rightarrow> string \<Rightarrow> string \<Rightarrow> (string \<times> string) list \<Rightarrow> (string \<times> string) list \<Rightarrow> request" where
  "api_request_of l path csrf cookies members =
     \<lparr>Method = ''POST'', UrlPath = ''/api/v1/'' @ path, UsesTLS = True, HostName = TrimPrefix (door_origin l) ''https://'',
      Headers = [(''Content-Type'', ''application/json''), (''X-CSRF-Token'', csrf)], Cookies = cookies,
      RemoteAddr = door_remote l, Body = marshal_object (string_members members)\<rparr>"

lemma api_request_of_simps [simp]:
  "Method (api_request_of l path csrf cookies ms) = ''POST''" "UsesTLS (api_request_of l path csrf cookies ms)"
  "UrlPath (api_request_of l path csrf cookies ms) = ''/api/v1/'' @ path"
  "Body (api_request_of l path csrf cookies ms) = marshal_object (string_members ms)"
  by (simp_all add: api_request_of_def)

lemma plain_path: "CHR ''%'' \<notin> set s \<Longrightarrow> PathUnescape s = Some s"
  by (induction s) auto

lemma post_request_of:
  assumes "door_origin l = strip_slashes origin" and "CHR ''%'' \<notin> set path"
  shows "post_request l (api_post origin path csrf cookies ms) = Some (api_request_of l path csrf cookies ms)"
  using plain_path [of "''/api/v1/'' @ path"] assms
  by (simp add: post_request_def api_post_def post_url_def api_request_of_def HasPrefix_def del: PathUnescape.simps)

lemma posted_request_api:
  assumes "path \<notin> {''health'', ''ready''}"
  shows "api_request (api_request_of l path csrf cookies ms)"
  using assms by (simp add: api_request_def public_page_def cross_origin_def header_def api_request_of_def)

text \<open>A body that is not cut off is read as the members that were written.\<close>

lemma body_read: "json_next (marshal_object (string_members ms)) =
    JValue (JObject (map (\<lambda>(k, v). (text_of k, JString (text_of v))) ms)) []"
proof -
  have "marshal_object (string_members ms) = marshal_json (JObject (map (\<lambda>(k, v). (k, JString v)) ms))"
    by (simp add: case_prod_unfold comp_def)
  then show ?thesis
    using json_next_marshal_json [of "JObject (map (\<lambda>(k, v). (k, JString v)) ms)" "[]"]
    by (simp add: stops_def case_prod_unfold comp_def list_all_iff)
qed

lemma posted_body:
  assumes "length (marshal_object (string_members ms)) \<le> 2 * 1024 * 1024"
  shows "decode (api_request_of l path csrf cookies ms) fld zero =
    (case into_struct fld (JObject (map (\<lambda>(k, v). (text_of k, JString (text_of v))) ms)) zero of
       None \<Rightarrow> Inl invalid_json | Some x \<Rightarrow> Inr x)"
proof -
  have "json_next [] = JEnd" by (simp add: json_next_JEnd skip_def)
  then show ?thesis using assms by (simp add: decode_def decode_bytes_def body_read split: option.split)
qed

section \<open>What an answer 200 means\<close>

text \<open>Only unlocking, locking and changing the master key ever touch the vault.\<close>

abbreviation same_vault :: "server \<Rightarrow> server \<Rightarrow> bool" where
  "same_vault \<equiv> \<lambda>s s'. Vault s' = Vault s"

lemma vault_effects:
  "steps same_vault (now E)" "steps same_vault (fresh_token E)" "steps same_vault (set_identity x)"
  "steps same_vault (set_path p)" "steps same_vault (tx_Put kd i d)" "steps same_vault (tx_Delete kd i)"
  "steps same_vault (get_as as kd i)" "steps same_vault (limit E)"
  by (rule stepsI; simp add: wp wpre_limit split: option.split)+

lemma vault_authenticateAdmin: "steps same_vault (authenticateAdmin E r)"
  by (rule stepsI, rule wpre_authenticateAdmin) simp_all

lemma vault_Update: "steps same_vault m \<Longrightarrow> steps same_vault (Update m)"
  by (rule stepsI) (fastforce simp: wpre_def Update_def andthen_def stmt_def ret_def rollback_to_def after_stmt_def
      dest: stepsD split: prod.splits sum.splits if_splits)

lemma vault_audit: "steps same_vault (record_audit E r b)"
  unfolding record_audit_def write_audit_def audit_id_def Let_def
  by (intro same.steps_combine same.steps_pure vault_effects vault_Update)

lemma Update_error: "Update fn w = (Inl e, w') \<Longrightarrow>
    e = driver_error \<or> (\<exists>w1. fn (after_stmt (after_stmt w)) = (Inl e, w1))"
  by (auto simp: Update_def andthen_def stmt_def ret_def split: prod.splits sum.splits if_splits)

text \<open>
  A post answered 200 went through its route without an error, and the transaction was committed.
\<close>

lemma served_200:
  assumes "api_request r" and "Method r = ''POST''"
    and route: "\<And>w. rows w = rows s \<Longrightarrow> Vault w = Vault s \<Longrightarrow>
       wpre (route E r) (\<lambda>x w'. case x of Inl e \<Rightarrow> status e \<noteq> 200 | Inr v \<Rightarrow> P w') w"
    and after: "\<And>w w'. P w \<Longrightarrow> Vault w' = Vault w \<Longrightarrow> same_outside {''audit''} w w' \<Longrightarrow> Q w'"
  shows "wpre (ServeHTTP E dl r) (\<lambda>x s'. case x of Inl e \<Rightarrow> False | Inr res \<Rightarrow> re_Status res = 200 \<longrightarrow> Q s') s"
proof -
  let ?w0 = "after_stmt (after_stmt (s\<lparr>identity := ''anonymous'', apath := []\<rparr>))"
  have start: "wpre (route E r) (\<lambda>x w'. case x of Inl e \<Rightarrow> status e \<noteq> 200 | Inr v \<Rightarrow> P w') ?w0"
    by (rule route) (simp_all add: after_stmt_def)
  show ?thesis
    unfolding ServeHTTP_api [OF assms(1)]
  proof (rule serve_api_cases [OF refl], goal_cases)
    case (1 e w1 a w2)
    have "status e \<noteq> 200" using Update_error [OF 1(1)] start by (auto simp: wpre_def driver_error_def)
    then show ?case by (simp add: error_status split: sum.split)
  next
    case (3 v ck w1 w2)
    obtain w' where w': "route E r ?w0 = (Inr (v, 200, ck), w')" "w1 = after_stmt w'"
      using Update_Inr [OF 3(1)] by blast
    have "P w'" using start w'(1) by (simp add: wpre_def)
    moreover have "Vault w2 = Vault w'" using stepsD [OF vault_audit 3(2)] w'(2) by (simp add: after_stmt_def)
    moreover have "same_outside {''audit''} w' w2"
      using stepsD [OF record_audit_frame 3(2)] w'(2) by (simp add: same_outside_def)
    ultimately show ?case using after by simp
  next
    case (4 ck w1 w2 res)
    then show ?case using assms(2) by simp
  qed (simp add: error_status)
qed

text \<open>The two routes the client depends on.\<close>

lemma refusals_not_200: "status ErrUnauth \<noteq> 200" "status ErrForbidden \<noteq> 200" "status ErrNotFound \<noteq> 200"
  "status invalid_json \<noteq> 200"
  by (simp_all add: status_def invalid_json_def bad_def)

lemma unlock_route:
  assumes r: "UrlPath r = ''/api/v1/admin/unlock''" "Method r = ''POST''"
    and m: "decode r (string_struct ''master'') [] = Inr m"
  shows "wpre (route E r) (\<lambda>x w'. case x of Inl e \<Rightarrow> status e \<noteq> 200
      | Inr v \<Rightarrow> \<exists>en. map_of (rows w) (Key ''config'' ''envelope'') = Some (DEnvelope en) \<and> Unwrap E m en = Inr (Vault w') \<and>
          rows w' = rows w) w"
proof -
  have route: "route E r = h_admin E r" using r by (simp add: route_admin HasPrefix_step)
  have below: "admin_route E r s = h_unlock E r" for s
    using r admin_route_below [of r "''unlock''" E s] by (simp add: HasPrefix_step)
  have unlock: "wpre (h_unlock E r) (\<lambda>x w'. case x of Inl e \<Rightarrow> status e \<noteq> 200
      | Inr v \<Rightarrow> \<exists>en. map_of (rows w) (Key ''config'' ''envelope'') = Some (DEnvelope en) \<and> Unwrap E m en = Inr (Vault w') \<and>
          rows w' = rows w) w1" if "rows w1 = rows w" for w1
    unfolding h_unlock_def
  proof (rule wpre_limited, goal_cases)
    case (2 w2)
    then show ?case
      using that m
      by (simp add: wp Unlock_def refusals_not_200 driver_error_def json_error_def as_envelope_def
          split: option.split doc.split sum.split)
  qed (simp add: status_def)
  show ?thesis
    unfolding route
  proof (rule wpre_h_admin, goal_cases)
    case (3 s w')
    have "rows w' = rows w" using arg_cong [OF 3(3), of rows] by simp
    then show ?case unfolding below by (rule unlock)
  qed (simp_all add: refusals_not_200)
qed

lemma login_route:
  assumes r: "UrlPath r = ''/api/v1/login''" "Method r = ''POST''" and c: "credentials_of r = Inr c"
  shows "wpre (route E r) (\<lambda>x w'. case x of Inl e \<Rightarrow> status e \<noteq> 200
      | Inr v \<Rightarrow> password_holder E w c \<noteq> None \<and> same_outside {''sessions''} w w') w"
proof -
  have route: "route E r = h_login E r" using r by (simp add: route_def)
  have "wpre (h_login E r) (\<lambda>x w'. case x of Inl e \<Rightarrow> status e \<noteq> 200 | Inr v \<Rightarrow> password_holder E w c \<noteq> None) w"
    unfolding h_login_def
  proof (rule wpre_limited, goal_cases)
    case (2 w2)
    then show ?case
      using c
      by (simp add: credentials_of_def wp Let_def refusals_not_200 driver_error_def json_error_def as_admin_def password_holder_def
          split: option.split doc.split sum.split)
  qed (simp add: status_def)
  from wpre_conj [OF this steps_wpre [OF endpoint_frames(1)]] show ?thesis
    unfolding route by (rule wpre_mono) (auto split: sum.splits)
qed

lemma logout_vault: "steps same_vault (ServeHTTP E dl (api_request_of l ''admin/logout'' csrf cookies ms))"
proof -
  let ?r = "api_request_of l ''admin/logout'' csrf cookies ms"
  have api: "ServeHTTP E dl ?r = serve_api E dl ?r" by (rule ServeHTTP_api [OF posted_request_api]) simp
  have route: "route E ?r = h_admin E ?r" by (simp add: route_admin HasPrefix_step)
  have below: "admin_route E ?r s = h_logout E ?r" for s
    using admin_route_below [of ?r "''logout''" E s] by (simp add: HasPrefix_step)
  show ?thesis
    unfolding api serve_api_def route h_admin_def below h_logout_def download_response_def Let_def
    by (intro same.steps_combine same.steps_pure vault_effects vault_authenticateAdmin vault_Update vault_audit steps_if
        steps_option steps_sum steps_prod)
qed

lemma post_served:
  assumes "door_origin l = strip_slashes origin" and "CHR ''%'' \<notin> set path"
    and "post_answer E l (api_post origin path csrf cookies ms) s = (a, s')"
  obtains x where "ServeHTTP E (door_stream l) (api_request_of l path csrf cookies ms) s = (x, s')"
    and "a = (case x of Inl e \<Rightarrow> NoAnswer | Inr res \<Rightarrow> Posted (re_Status res) (case re_Cookie res of None \<Rightarrow> [] | Some ck \<Rightarrow> [ck])
               (body_bytes (door_stamp l) (re_Body res)))"
  using assms(3) that by (auto simp: post_answer_def post_request_of [OF assms(1,2)] split: prod.splits sum.splits)

lemma post_200:
  assumes "door_origin l = strip_slashes origin" and "CHR ''%'' \<notin> set path"
    and "post_answer E l (api_post origin path csrf cookies ms) s = (Posted 200 cks b, s')"
    and "wpre (ServeHTTP E (door_stream l) (api_request_of l path csrf cookies ms)) (\<lambda>x s'. case x of
        Inl e \<Rightarrow> False | Inr res \<Rightarrow> re_Status res = 200 \<longrightarrow> Q s') s"
  shows "Q s'"
proof -
  obtain x where run: "ServeHTTP E (door_stream l) (api_request_of l path csrf cookies ms) s = (x, s')"
    and a: "Posted 200 cks b = (case x of Inl e \<Rightarrow> NoAnswer | Inr res \<Rightarrow> Posted (re_Status res)
        (case re_Cookie res of None \<Rightarrow> [] | Some ck \<Rightarrow> [ck]) (body_bytes (door_stamp l) (re_Body res)))"
    by (rule post_served [OF assms(1-3)])
  from wpreD [OF assms(4) run] a show ?thesis by (cases x) simp_all
qed

lemma login_body:
  assumes "length (marshal_object (string_members [(''name'', name), (''password'', password)])) \<le> 2 * 1024 * 1024"
  shows "credentials_of (api_request_of l path csrf cookies [(''name'', name), (''password'', password)]) =
    Inr \<lparr>cr_Name = text_of name, cr_Password = text_of password\<rparr>"
  unfolding credentials_of_def posted_body [OF assms]
  by (simp add: into_struct_def credentials_struct_def field_def names_def no_field_def set_string_def text_of_ascii)

lemma unlock_body:
  assumes "length (marshal_object (string_members [(''master'', master)])) \<le> 2 * 1024 * 1024"
  shows "decode (api_request_of l path csrf cookies [(''master'', master)]) (string_struct ''master'') [] = Inr (text_of master)"
  unfolding posted_body [OF assms]
  by (simp add: into_struct_def string_struct_def field_def names_def no_field_def set_string_def text_of_ascii)

lemma login_answered:
  assumes l: "door_origin l = strip_slashes origin"
    and short: "length (marshal_object (string_members [(''name'', name), (''password'', password)])) \<le> 2 * 1024 * 1024"
    and "post_answer E l (api_post origin ''login'' csrf cookies [(''name'', name), (''password'', password)]) s = (Posted 200 cks b, s')"
  shows "password_holder E s \<lparr>cr_Name = text_of name, cr_Password = text_of password\<rparr> \<noteq> None \<and> same_outside {''sessions'', ''audit''} s s'"
proof -
  let ?r = "api_request_of l ''login'' csrf cookies [(''name'', name), (''password'', password)]"
  let ?c = "\<lparr>cr_Name = text_of name, cr_Password = text_of password\<rparr>"
  have "wpre (ServeHTTP E (door_stream l) ?r) (\<lambda>x s'. case x of Inl e \<Rightarrow> False | Inr res \<Rightarrow> re_Status res = 200 \<longrightarrow>
      password_holder E s ?c \<noteq> None \<and> same_outside {''sessions'', ''audit''} s s') s"
  proof (rule served_200 [where P = "\<lambda>w'. password_holder E s ?c \<noteq> None \<and> same_outside {''sessions''} s w'"], goal_cases)
    case (3 w)
    then have start: "password_holder E w c = password_holder E s c" "same_outside {''sessions''} w w' = same_outside {''sessions''} s w'" for c w'
      by (simp_all add: password_holder_def same_outside_def)
    show ?case using login_route [OF _ _ login_body [OF short], where E = E and w = w] unfolding start by simp
  qed (auto simp: posted_request_api same_outside_def)
  from post_200 [OF l _ assms(3) this] show ?thesis by simp
qed

lemma unlock_answered:
  assumes l: "door_origin l = strip_slashes origin"
    and short: "length (marshal_object (string_members [(''master'', master)])) \<le> 2 * 1024 * 1024"
    and "post_answer E l (api_post origin ''admin/unlock'' csrf cookies [(''master'', master)]) s = (Posted 200 cks b, s')"
  shows "\<exists>en. map_of (rows s) (Key ''config'' ''envelope'') = Some (DEnvelope en) \<and> Unwrap E (text_of master) en = Inr (Vault s')"
proof -
  let ?r = "api_request_of l ''admin/unlock'' csrf cookies [(''master'', master)]"
  let ?P = "\<lambda>w'. \<exists>en. map_of (rows s) (Key ''config'' ''envelope'') = Some (DEnvelope en) \<and> Unwrap E (text_of master) en = Inr (Vault w')"
  have "wpre (ServeHTTP E (door_stream l) ?r) (\<lambda>x s'. case x of Inl e \<Rightarrow> False | Inr res \<Rightarrow> re_Status res = 200 \<longrightarrow> ?P s') s"
  proof (rule served_200 [where P = ?P], goal_cases)
    case (3 w)
    show ?case using unlock_route [OF _ _ unlock_body [OF short], where E = E and w = w] unfolding 3(1) by (rule wpre_mono) (auto split: sum.splits)
  qed (auto simp: posted_request_api)
  from post_200 [OF l _ assms(3) this] show ?thesis by simp
qed

section \<open>The vault after a successful run\<close>

text \<open>The answers the client got are those of this server to what it posted.\<close>

definition talked_to :: "senv \<Rightarrow> door \<Rightarrow> server \<Rightarrow> post list \<Rightarrow> 'z machine_scheme \<Rightarrow> server \<Rightarrow> bool" where
  "talked_to E l s ps w s' \<longleftrightarrow> converse E l (rev ps) s = (take (length ps) (post_replies w), s')"

lemma converse_vault:
  assumes "door_origin l = strip_slashes origin"
    and "ls = [] \<or> ls = [api_post origin ''admin/logout'' csrf cookies []]" and "converse E l ls s = (as, s')"
  shows "Vault s' = Vault s"
proof -
  have "Vault s' = Vault s" if answer: "post_answer E l (api_post origin ''admin/logout'' csrf cookies []) s = (a, s')" for a
  proof -
    obtain x where "ServeHTTP E (door_stream l) (api_request_of l ''admin/logout'' csrf cookies []) s = (x, s')"
      by (rule post_served [OF assms(1) _ answer]) simp_all
    from stepsD [OF logout_vault this] show ?thesis .
  qed
  then show ?thesis using assms(2,3) by (auto split: prod.splits)
qed

lemma unlocked_vault:
  assumes run: "unlockServer Ec origin ca name pw mk w = (Inr (), w')" and sent: "posted w' = ps @ posted w"
    and link: "door_origin l = strip_slashes origin" "talked_to E l s ps w s'"
    and short: "\<forall>p \<in> set ps. length (po_Body p) \<le> 2 * 1024 * 1024"
  shows "\<exists>password master en. credential Ec w pw password \<and> credential Ec w mk master \<and>
    password_holder E s \<lparr>cr_Name = text_of name, cr_Password = text_of password\<rparr> \<noteq> None \<and>
    map_of (rows s) (Key ''config'' ''envelope'') = Some (DEnvelope en) \<and> Unwrap E (text_of master) en = Inr (Vault s')"
proof -
  have "unlock_talk Ec origin ca name pw mk w ps True"
    using wpreD [OF unlock_talks run] sent by auto
  then show ?thesis
  proof cases
    case (admitted password master session cookies us later ls)
    let ?login = "api_post origin ''login'' [] [] [(''name'', name), (''password'', password)]"
    let ?unlock = "api_post origin ''admin/unlock'' (se_CSRF session) cookies [(''master'', master)]"
    have us: "us = [?unlock]" "answered any_value (tl (post_replies w)) ()" using admitted by simp_all
    obtain a1 a2 as s1 s2 where a: "post_answer E l ?login s = (a1, s1)" "post_answer E l ?unlock s1 = (a2, s2)"
        "converse E l (rev ls) s2 = (as, s')" "take (length ps) (post_replies w) = a1 # a2 # as"
      using link(2) unfolding talked_to_def admitted(1) us(1) by (auto split: prod.splits)
    obtain cks1 b1 cks2 b2 where "a1 = Posted 200 cks1 b1" "a2 = Posted 200 cks2 b2"
      using a(4) us(2) \<open>answered (session_reply Ec) _ _\<close> by (auto simp: answered_def take_Cons' split: if_splits)
    note a = a [unfolded this]
    have small: "length (po_Body ?login) \<le> 2 * 1024 * 1024" "length (po_Body ?unlock) \<le> 2 * 1024 * 1024"
      using short unfolding admitted(1) us(1) by simp_all
    have "password_holder E s \<lparr>cr_Name = text_of name, cr_Password = text_of password\<rparr> \<noteq> None"
      and frame: "same_outside {''sessions'', ''audit''} s s1"
      using login_answered [OF link(1) _ a(1)] small(1) by (simp_all add: api_post_def)
    moreover obtain en where "map_of (rows s1) (Key ''config'' ''envelope'') = Some (DEnvelope en)"
        "Unwrap E (text_of master) en = Inr (Vault s2)"
      using unlock_answered [OF link(1) _ a(2)] small(2) by (auto simp: api_post_def)
    moreover have "Vault s' = Vault s2"
      by (rule converse_vault [OF link(1) _ a(3)]) (use admitted in auto)
    ultimately show ?thesis using admitted(3,4) by (auto simp: same_outside_def)
  qed simp_all
qed

end
