(* ===== verification/Unlockable.thy ===== *)
theory Unlockable
  imports Unlocked
begin

text \<open>
  Unlocking works: on a machine and a server without faults, with the right password and
  master key, the client's conversation with \<open>ServeHTTP\<close> opens the vault and leaves no session
  behind.
\<close>

section \<open>A conversation without faults\<close>

text \<open>What auditing and answering add to a request whose route met no fault.\<close>

definition audited :: "server \<Rightarrow> server \<Rightarrow> bool" where
  "audited w s \<longleftrightarrow> faults s = [] \<and> Vault s = Vault w \<and> draws s \<ge> draws w \<and> ticks s = ticks w + 4 \<and> attempts s = attempts w \<and>
     same_outside {''audit''} w s"

lemma audit_did:
  assumes "faults w = []"
  shows "wpre (record_audit E r b) (\<lambda>x s. x = Inr () \<and> audited w s) w"
proof -
  have written: "wpre (write_audit E r a) (\<lambda>x w'. x = Inr () \<and> faults w' = [] \<and> Vault w' = Vault w \<and> draws w' \<ge> draws w \<and>
      ticks w' = ticks w + 3 \<and> attempts w' = attempts w) w" if "faults w = []" for a w
    using that by (simp add: write_audit_def audit_id_def wp Let_def)
  have "wpre (record_audit E r b) (\<lambda>x w'. x = Inr () \<and> faults w' = [] \<and> Vault w' = Vault w \<and> draws w' \<ge> draws w \<and>
      ticks w' = ticks w + 4 \<and> attempts w' = attempts w) w"
    unfolding record_audit_def
    using assms by (simp add: wp) (rule update_calm, simp, rule wpre_mono [OF written], auto)
  from wpre_conj [OF this steps_wpre [OF record_audit_frame]] show ?thesis by (rule wpre_mono) (simp add: audited_def)
qed

lemma served_did:
  assumes "api_request r" and "faults s = []" and "v \<noteq> RAuditDownload"
    and "wpre (route E r) (\<lambda>x w. x = Inr (v, 200, ck) \<and> faults w = [] \<and> P w) (s\<lparr>identity := ''anonymous'', apath := []\<rparr>)"
  shows "wpre (ServeHTTP E dl r) (\<lambda>x s'. x = Inr ((write_json tls_headers 200 (JReply v))\<lparr>re_Cookie := ck\<rparr>) \<and>
      (\<exists>w. P w \<and> audited w s')) s"
  unfolding ServeHTTP_api [OF assms(1)] serve_api_def wpre_andthen [of "set_identity _"] wpre_andthen [of "set_path _"]
    wpre_andthen [of "attempt _"] wpre_set_identity wpre_set_path sum.case wpre_attempt
proof (rule update_calm, goal_cases)
  case 2
  show ?case
  proof (rule wpre_mono [OF assms(4) [simplified]], goal_cases)
    case (1 x w)
    then show ?case
      using assms(3) by (auto simp: wp intro!: wpre_mono [OF audit_did])
  qed
qed (simp add: assms(2))

lemma admin_calm:
  assumes "faults w = []" and "valid_session E w r (clock E (ticks w)) = Some s" and "csrf_ok r s"
    and "wpre (admin_route E r s) Q (w\<lparr>ticks := Suc (ticks w), identity := ''admin:'' @ se_Admin s\<rparr>)"
  shows "wpre (h_admin E r) Q w"
  using assms unfolding valid_session_Some
  by (auto simp: h_admin_def authenticateAdmin_def wp as_defs csrf_ok_def zero_session_def)

text \<open>The session the next login opens, at the reading \<open>i\<close> of the clock.\<close>

definition login_session :: "senv \<Rightarrow> server \<Rightarrow> string \<Rightarrow> nat \<Rightarrow> session" where
  "login_session E s name i = \<lparr>se_Hash = Hash E (token_at E (draws s)), se_Admin = name,
     se_CSRF = token_at E (Suc (draws s)), se_Expires = clock E i + SessionTTL E\<rparr>"

definition logged_in :: "senv \<Rightarrow> server \<Rightarrow> session \<Rightarrow> nat \<Rightarrow> server \<Rightarrow> bool" where
  "logged_in E s session i s1 \<longleftrightarrow> faults s1 = [] \<and> attempts s1 \<le> 29 \<and> ticks s \<le> i \<and> i \<le> ticks s1 \<and> ticks s1 \<le> i + 5 \<and>
     (\<forall>kd j. kd \<noteq> ''audit'' \<longrightarrow> map_of (rows s1) (Key kd j) =
        (if Key kd j = Key ''sessions'' (se_Hash session) then Some (DSession session) else map_of (rows s) (Key kd j)))"

lemma login_did:
  assumes "faults s = []" and "attempts s \<le> 28" and "password_holder E s c = Some a"
    and r: "credentials_of (api_request_of l ''login'' [] [] ms) = Inr c"
  shows "wpre (ServeHTTP E dl (api_request_of l ''login'' [] [] ms)) (\<lambda>x s1. \<exists>i.
      x = Inr ((write_json tls_headers 200 (JReply (RSession (login_session E s (ad_Name a) i))))
        \<lparr>re_Cookie := Some (session_cookie (token_at E (draws s)) (se_Expires (login_session E s (ad_Name a) i)) 0)\<rparr>) \<and>
      logged_in E s (login_session E s (ad_Name a) i) i s1) s"
proof -
  let ?r = "api_request_of l ''login'' [] [] ms"
  let ?s = "s\<lparr>identity := ''anonymous'', apath := []\<rparr>"
  define i where "i = ticks (snd (limit E ?s))"
  let ?session = "login_session E s (ad_Name a) i"
  let ?P = "\<lambda>w. rows w = row_put (Key ''sessions'' (se_Hash ?session)) (DSession ?session) (rows s) \<and> faults w = [] \<and>
      ticks w = Suc i \<and> attempts w \<le> 29"
  let ?l = "snd (limit E ?s)"
  have state: "faults ?l = []" "rows ?l = rows s" "draws ?l = draws s" "ticks ?l = i" "attempts ?l \<le> 29" "ticks s \<le> i"
    using assms(1,2) by (simp_all add: limit_run i_def)
  have limit: "wpre (limit E) R ?s \<longleftrightarrow> R (Inr True) ?l" for R
    using assms(2) by (simp add: wpre_def limit_run)
  have route: "route E ?r = h_login E ?r" by (simp add: route_def)
  have "wpre (route E ?r) (\<lambda>x w. x = Inr (RSession ?session, 200, Some (session_cookie (token_at E (draws s)) (se_Expires ?session) 0)) \<and>
      faults w = [] \<and> ?P w) ?s"
    unfolding route h_login_def limited_def wpre_andthen [of "limit E"] limit
    using assms(3,4)
    by (auto simp: state wp credentials_of_def password_holder_def Let_def as_admin_def login_session_def
        split: option.splits doc.splits if_splits)
  from served_did [OF _ assms(1) _ this] show ?thesis
    by (rule wpre_mono)
       (auto simp: posted_request_api logged_in_def audited_def same_outside_def row_simps state(6) intro!: exI [of _ i])
qed

text \<open>A session in force: what the administrators' endpoints ask for.\<close>

definition in_force :: "senv \<Rightarrow> session \<Rightarrow> string \<Rightarrow> server \<Rightarrow> bool" where
  "in_force E session token s \<longleftrightarrow> map_of (rows s) (Key ''sessions'' (Hash E token)) = Some (DSession session) \<and>
     clock E (ticks s) < se_Expires session \<and> (\<exists>a. map_of (rows s) (Key ''admins'' (se_Admin session)) = Some (DAdmin a))"

lemma in_force_admin:
  assumes "faults s = []" and "in_force E session token s"
    and "\<And>w. rows w = rows s \<Longrightarrow> faults w = [] \<Longrightarrow> Vault w = Vault s \<Longrightarrow> attempts w = attempts s \<Longrightarrow> ticks w = Suc (ticks s) \<Longrightarrow>
       wpre (admin_route E (api_request_of l path (se_CSRF session) [(''ssm_session'', token)] ms) session) Q w"
    and "HasPrefix (''/api/v1/'' @ path) ''/api/v1/admin/''"
  shows "wpre (route E (api_request_of l path (se_CSRF session) [(''ssm_session'', token)] ms)) Q
    (s\<lparr>identity := ''anonymous'', apath := []\<rparr>)"
proof -
  let ?r = "api_request_of l path (se_CSRF session) [(''ssm_session'', token)] ms"
  have route: "route E ?r = h_admin E ?r" using assms(4) by (simp add: route_admin)
  show ?thesis
    unfolding route
  proof (rule admin_calm [where s = session], goal_cases)
    case 2
    show ?case using assms(2) by (auto simp: valid_session_Some in_force_def cookie_def api_request_of_def)
  next
    case 4
    show ?case by (rule assms(3)) (simp_all add: assms(1))
  qed (simp_all add: assms(1) csrf_ok_def header_def api_request_of_def)
qed

lemma unlock_did:
  assumes s: "faults s = []" "attempts s \<le> 29" "in_force E session token s"
    and key: "map_of (rows s) (Key ''config'' ''envelope'') = Some (DEnvelope en)" "Unwrap E m en = Inr k"
    and m: "decode (api_request_of l ''admin/unlock'' (se_CSRF session) [(''ssm_session'', token)] ms) (string_struct ''master'') [] = Inr m"
  shows "wpre (ServeHTTP E dl (api_request_of l ''admin/unlock'' (se_CSRF session) [(''ssm_session'', token)] ms)) (\<lambda>x s1.
      x = Inr ((write_json tls_headers 200 (JReply (RLockedIs False)))\<lparr>re_Cookie := None\<rparr>) \<and>
      faults s1 = [] \<and> Vault s1 = k \<and> ticks s \<le> ticks s1 \<and> ticks s1 \<le> ticks s + 7 \<and> same_outside {''audit''} s s1) s"
proof -
  let ?r = "api_request_of l ''admin/unlock'' (se_CSRF session) [(''ssm_session'', token)] ms"
  let ?P = "\<lambda>w. Vault w = k \<and> rows w = rows s \<and> ticks s \<le> ticks w \<and> ticks w \<le> ticks s + 3"
  have below: "admin_route E ?r session = h_unlock E ?r"
    using admin_route_below [of ?r "''unlock''" E session] by (simp add: HasPrefix_step)
  have "wpre (route E ?r) (\<lambda>x w. x = Inr (RLockedIs False, 200, None) \<and> faults w = [] \<and> ?P w)
      (s\<lparr>identity := ''anonymous'', apath := []\<rparr>)"
  proof (rule in_force_admin [OF s(1,3)], goal_cases)
    case (1 w)
    then show ?case
      unfolding below using s(2) key m
      by (simp add: h_unlock_def limited_def wp wpre_limit Unlock_def as_envelope_def)
  qed (simp add: HasPrefix_step)
  from served_did [OF _ s(1) _ this] show ?thesis
    by (rule wpre_mono) (auto simp: posted_request_api audited_def same_outside_def)
qed

lemma logout_did:
  assumes s: "faults s = []" "in_force E session token s"
  shows "wpre (ServeHTTP E dl (api_request_of l ''admin/logout'' (se_CSRF session) [(''ssm_session'', token)] ms)) (\<lambda>x s1.
      map_of (rows s1) (Key ''sessions'' (Hash E token)) = None \<and> Vault s1 = Vault s) s"
proof -
  let ?r = "api_request_of l ''admin/logout'' (se_CSRF session) [(''ssm_session'', token)] ms"
  let ?P = "\<lambda>w. rows w = sql_delete (Key ''sessions'' (Hash E token)) (rows s) \<and> Vault w = Vault s"
  have below: "admin_route E ?r session = h_logout E ?r"
    using admin_route_below [of ?r "''logout''" E session] by (simp add: HasPrefix_step)
  have "wpre (route E ?r) (\<lambda>x w. x = Inr (ROk True, 200, Some (session_cookie [] 0 (- 1))) \<and> faults w = [] \<and> ?P w)
      (s\<lparr>identity := ''anonymous'', apath := []\<rparr>)"
  proof (rule in_force_admin [OF s], goal_cases)
    case (1 w)
    then show ?case unfolding below by (simp add: h_logout_def wp cookie_def api_request_of_def)
  qed (simp add: HasPrefix_step)
  from served_did [OF _ s(1) _ this] show ?thesis
    by (rule wpre_mono) (auto simp: posted_request_api audited_def same_outside_def row_simps)
qed

section \<open>The client's side\<close>

lemma credential_unique: "credential E w p a \<Longrightarrow> credential E w p b \<Longrightarrow> a = b"
  by (auto simp: credential_def)

lemma text_of_digits: "set t \<subseteq> set b64_digits \<Longrightarrow> text_of t = t"
proof (induction t)
  case (Cons c t)
  have "list_all (\<lambda>c. byte c < 0x80) b64_digits" by code_simp
  then have "byte c < 0x80" using Cons.prems by (auto simp: list_all_iff)
  then show ?case using Cons by (simp add: text_of_ascii)
qed (simp add: text_of_def)

lemma text_of_token: "text_of (token_at E i) = token_at E i"
  by (rule text_of_digits) (auto simp: token_at_def dest: b64_set [THEN subsetD])

lemma session_read:
  assumes "length (body_bytes stamp (JReply (RSession s))) \<le> 4096" and "parse_time Ec (text_of (stamp (se_Expires s))) \<noteq> None"
  obtains x where "cli_decode (session_reply Ec) (body_bytes stamp (JReply (RSession s))) = Inr x" and "se_CSRF x = text_of (se_CSRF s)"
proof -
  obtain u where "parse_time Ec (text_of (stamp (se_Expires s))) = Some u" using assms(2) by blast
  then show thesis
    unfolding cli_decode_def take_all [OF assms(1)] reply_read
    by (intro that [of "\<lparr>se_Hash = text_of (se_Hash s), se_Admin = text_of (se_Admin s), se_CSRF = text_of (se_CSRF s), se_Expires = u\<rparr>"])
       (simp_all add: cli_decode_def take_all [OF assms(1)] reply_read reply_json_def session_json_def text_of_ascii into_struct_def session_fields_def field_def names_def
        skip_field_def set_string_def set_time_def zero_time_session_def)
qed

lemma jar_after_login: "jar_after [] (Posted code [session_cookie token t 0] b # rs) = [(''ssm_session'', token)]"
  by (simp add: jar_after_def keep_cookie_def session_cookie_def Let_def)

section \<open>Unlocking succeeds\<close>

text \<open>A server that can be unlocked with this password and this master key, and has seen few attempts.\<close>

definition openable :: "senv \<Rightarrow> server \<Rightarrow> string \<Rightarrow> string \<Rightarrow> string \<Rightarrow> string \<Rightarrow> bool" where
  "openable E s name password master k \<longleftrightarrow> faults s = [] \<and> attempts s \<le> 28 \<and>
     (\<exists>a. password_holder E s \<lparr>cr_Name = name, cr_Password = password\<rparr> = Some a \<and> ad_Name a = name) \<and>
     (\<exists>en. map_of (rows s) (Key ''config'' ''envelope'') = Some (DEnvelope en) \<and> Unwrap E master en = Inr k)"

text \<open>The conversation takes less than a session lasts: twelve readings of the clock at most.\<close>

definition brisk :: "senv \<Rightarrow> nat \<Rightarrow> bool" where
  "brisk E n \<longleftrightarrow> (\<forall>i j. n \<le> i \<and> i \<le> j \<and> j \<le> i + 12 \<longrightarrow> clock E j < clock E i + SessionTTL E)"

text \<open>The client can read the answer to the login.\<close>

definition legible :: "'e command_env_scheme \<Rightarrow> senv \<Rightarrow> (time \<Rightarrow> string) \<Rightarrow> server \<Rightarrow> string \<Rightarrow> bool" where
  "legible Ec E stamp s name \<longleftrightarrow> (\<forall>i. length (body_bytes stamp (JReply (RSession (login_session E s name i)))) \<le> 4096) \<and>
     (\<forall>t. parse_time Ec (text_of (stamp t)) \<noteq> None)"

lemma post_did:
  assumes "door_origin l = strip_slashes origin" and "CHR ''%'' \<notin> set path"
    and "post_answer E l (api_post origin path csrf cookies ms) s = (a, s')"
    and "wpre (ServeHTTP E (door_stream l) (api_request_of l path csrf cookies ms)) Q s"
  obtains x where "Q x s'" and "a = (case x of Inl e \<Rightarrow> NoAnswer | Inr res \<Rightarrow> Posted (re_Status res) (case re_Cookie res of None \<Rightarrow> [] | Some ck \<Rightarrow> [ck])
               (body_bytes (door_stamp l) (re_Body res)))"
  using post_served [OF assms(1-3)] wpreD [OF assms(4)] by metis

lemma login_reply:
  assumes l: "door_origin l = strip_slashes origin"
    and short: "length (marshal_object (string_members [(''name'', name), (''password'', password)])) \<le> 2 * 1024 * 1024"
    and s: "faults s = []" "attempts s \<le> 28"
      "password_holder E s \<lparr>cr_Name = text_of name, cr_Password = text_of password\<rparr> = Some a" "ad_Name a = text_of name"
    and legible: "legible Ec E (door_stamp l) s (text_of name)"
    and post: "post_answer E l (api_post origin ''login'' [] [] [(''name'', name), (''password'', password)]) s = (a1, s1)"
  shows "\<exists>i x. logged_in E s (login_session E s (text_of name) i) i s1 \<and> se_CSRF x = token_at E (Suc (draws s)) \<and>
    (\<forall>rs. answered (session_reply Ec) (a1 # rs) x \<and> jar_after [] (a1 # rs) = [(''ssm_session'', token_at E (draws s))])"
proof -
  let ?r = "api_request_of l ''login'' [] [] [(''name'', name), (''password'', password)]"
  have c: "credentials_of ?r = Inr \<lparr>cr_Name = text_of name, cr_Password = text_of password\<rparr>"
    by (rule login_body [OF short])
  obtain i where s1: "logged_in E s (login_session E s (text_of name) i) i s1"
    and a1: "a1 = Posted 200 [session_cookie (token_at E (draws s)) (se_Expires (login_session E s (text_of name) i)) 0]
        (body_bytes (door_stamp l) (JReply (RSession (login_session E s (text_of name) i))))"
    by (rule post_did [OF l _ post login_did [OF s(1-3) c]]) (auto simp: s(4) write_json_def)
  obtain x where x: "cli_decode (session_reply Ec) (body_bytes (door_stamp l) (JReply (RSession (login_session E s (text_of name) i)))) = Inr x"
      "se_CSRF x = token_at E (Suc (draws s))"
  proof (rule session_read [of "door_stamp l" "login_session E s (text_of name) i" Ec])
    fix x
    assume x: "cli_decode (session_reply Ec) (body_bytes (door_stamp l) (JReply (RSession (login_session E s (text_of name) i)))) = Inr x"
      "se_CSRF x = text_of (se_CSRF (login_session E s (text_of name) i))"
    show thesis by (rule that [OF x(1)]) (simp add: x(2) login_session_def text_of_token)
  qed (use legible in \<open>auto simp: legible_def\<close>)
  have "answered (session_reply Ec) (a1 # rs) x" for rs using x(1) by (simp add: answered_def a1)
  then show ?thesis using s1 x(2) by (auto simp: a1 jar_after_login)
qed

lemma unlock_reply:
  assumes l: "door_origin l = strip_slashes origin"
    and short: "length (marshal_object (string_members [(''master'', master)])) \<le> 2 * 1024 * 1024"
    and s: "faults s = []" "attempts s \<le> 29" "in_force E session token s"
      "map_of (rows s) (Key ''config'' ''envelope'') = Some (DEnvelope en)" "Unwrap E (text_of master) en = Inr k"
    and post: "post_answer E l (api_post origin ''admin/unlock'' (se_CSRF session) [(''ssm_session'', token)] [(''master'', master)]) s = (a, s1)"
  shows "answered any_value (a # rs) () \<and> jar_after cs (a # rs) = cs \<and> faults s1 = [] \<and> Vault s1 = k \<and> ticks s \<le> ticks s1 \<and>
    ticks s1 \<le> ticks s + 7 \<and> same_outside {''audit''} s s1"
proof -
  have short_body: "length (body_bytes (door_stamp l) (JReply (RLockedIs False))) \<le> 4096" by code_simp
  have "cli_decode any_value (body_bytes (door_stamp l) (JReply (RLockedIs False))) = Inr ()"
    unfolding cli_decode_def take_all [OF short_body] reply_read by (simp add: any_value_def)
  moreover obtain x where "x = Inr ((write_json tls_headers 200 (JReply (RLockedIs False)))\<lparr>re_Cookie := None\<rparr>) \<and>
      faults s1 = [] \<and> Vault s1 = k \<and> ticks s \<le> ticks s1 \<and> ticks s1 \<le> ticks s + 7 \<and> same_outside {''audit''} s s1"
    and "a = (case x of Inl e \<Rightarrow> NoAnswer | Inr res \<Rightarrow> Posted (re_Status res)
        (case re_Cookie res of None \<Rightarrow> [] | Some ck \<Rightarrow> [ck]) (body_bytes (door_stamp l) (re_Body res)))"
    by (rule post_did [OF l _ post unlock_did [OF s unlock_body [OF short]]]) simp_all
  ultimately show ?thesis by (simp add: write_json_def answered_def jar_after_def)
qed

text \<open>The three posts, for the tokens the server draws for the session.\<close>

definition unlock_posts :: "senv \<Rightarrow> server \<Rightarrow> string \<Rightarrow> string \<Rightarrow> string \<Rightarrow> string \<Rightarrow> post list" where
  "unlock_posts E s origin name password master =
     (let cookies = [(''ssm_session'', token_at E (draws s))]; csrf = token_at E (Suc (draws s)) in
      [api_post origin ''login'' [] [] [(''name'', name), (''password'', password)],
       api_post origin ''admin/unlock'' csrf cookies [(''master'', master)], api_post origin ''admin/logout'' csrf cookies []])"

lemma unlock_answers:
  assumes link: "door_origin l = strip_slashes origin" "converse E l (unlock_posts E s origin name password master) s = (as, s')"
    and short: "\<forall>p \<in> set (unlock_posts E s origin name password master). length (po_Body p) \<le> 2 * 1024 * 1024"
    and server: "openable E s (text_of name) (text_of password) (text_of master) k" "brisk E (ticks s)"
      "legible Ec E (door_stamp l) s (text_of name)"
  shows "\<exists>a1 a2 a3 x. as = [a1, a2, a3] \<and> se_CSRF x = token_at E (Suc (draws s)) \<and>
    (\<forall>rs. answered (session_reply Ec) (a1 # rs) x \<and> jar_after [] (a1 # rs) = [(''ssm_session'', token_at E (draws s))]) \<and>
    (\<forall>rs cs. answered any_value (a2 # rs) () \<and> jar_after cs (a2 # rs) = cs) \<and> Vault s' = k \<and>
    map_of (rows s') (Key ''sessions'' (Hash E (token_at E (draws s)))) = None"
proof -
  let ?token = "token_at E (draws s)" and ?csrf = "token_at E (Suc (draws s))"
  let ?login = "api_post origin ''login'' [] [] [(''name'', name), (''password'', password)]"
  let ?unlock = "api_post origin ''admin/unlock'' ?csrf [(''ssm_session'', ?token)] [(''master'', master)]"
  let ?logout = "api_post origin ''admin/logout'' ?csrf [(''ssm_session'', ?token)] []"
  obtain a en where s: "faults s = []" "attempts s \<le> 28"
      "password_holder E s \<lparr>cr_Name = text_of name, cr_Password = text_of password\<rparr> = Some a" "ad_Name a = text_of name"
      "map_of (rows s) (Key ''config'' ''envelope'') = Some (DEnvelope en)" "Unwrap E (text_of master) en = Inr k"
    using server(1) by (auto simp: openable_def)
  obtain a1 a2 a3 s1 s2 where a: "post_answer E l ?login s = (a1, s1)" "post_answer E l ?unlock s1 = (a2, s2)"
      "post_answer E l ?logout s2 = (a3, s')" and as: "as = [a1, a2, a3]"
    using link(2) by (auto simp: unlock_posts_def Let_def split: prod.splits)
  have small: "length (marshal_object (string_members [(''name'', name), (''password'', password)])) \<le> 2 * 1024 * 1024"
      "length (marshal_object (string_members [(''master'', master)])) \<le> 2 * 1024 * 1024"
    using short by (auto simp: unlock_posts_def Let_def api_post_def)
  obtain i x where i: "logged_in E s (login_session E s (text_of name) i) i s1" and x: "se_CSRF x = ?csrf"
      "\<And>rs. answered (session_reply Ec) (a1 # rs) x \<and> jar_after [] (a1 # rs) = [(''ssm_session'', ?token)]"
    using login_reply [OF link(1) small(1) s(1-4) server(3) a(1)] by blast
  let ?session = "login_session E s (text_of name) i"
  have csrf: "?csrf = se_CSRF ?session" by (simp add: login_session_def)
  have force: "in_force E ?session ?token s1" "map_of (rows s1) (Key ''config'' ''envelope'') = Some (DEnvelope en)"
      "faults s1 = []" "attempts s1 \<le> 29"
    using i s(3-5) server(2)
    by (auto simp: logged_in_def in_force_def login_session_def brisk_def password_holder_def split: option.splits doc.splits if_splits)
  note opened = unlock_reply [OF link(1) small(2) force(3,4,1,2) s(6) a(2) [unfolded csrf]]
  have s2: "faults s2 = []" "ticks s1 \<le> ticks s2" "ticks s2 \<le> ticks s1 + 7" "same_outside {''audit''} s1 s2"
    using opened by blast+
  have "clock E (ticks s2) < se_Expires ?session"
    using server(2) i s2(2,3) by (simp add: brisk_def logged_in_def login_session_def)
  then have later: "in_force E ?session ?token s2" using force(1) s2(4) by (auto simp: in_force_def same_outside_def)
  have "map_of (rows s') (Key ''sessions'' (Hash E ?token)) = None \<and> Vault s' = Vault s2"
    by (rule post_did [OF link(1) _ a(3) [unfolded csrf] logout_did [OF s2(1) later]]) simp_all
  moreover have "Vault s2 = k" "\<forall>rs cs. answered any_value (a2 # rs) () \<and> jar_after cs (a2 # rs) = cs" using opened by blast+
  ultimately show ?thesis using as x by (intro exI [of _ a1] exI [of _ a2] exI [of _ a3] exI [of _ x]) simp
qed

lemma unlock_works:
  assumes client: "ready Ec origin ca pw mk w" "credential Ec w pw password" "credential Ec w mk master"
      "\<And>path. parse_url Ec (post_url origin path) \<noteq> None"
    and replies: "post_replies w = as @ rs"
    and link: "door_origin l = strip_slashes origin" "converse E l (unlock_posts E s origin name password master) s = (as, s')"
    and short: "\<forall>p \<in> set (unlock_posts E s origin name password master). length (po_Body p) \<le> 2 * 1024 * 1024"
    and server: "openable E s (text_of name) (text_of password) (text_of master) k" "brisk E (ticks s)"
      "legible Ec E (door_stamp l) s (text_of name)"
  shows "wpre (unlockServer Ec origin ca name pw mk) (\<lambda>r w'. r = Inr () \<and>
    posted w' = rev (unlock_posts E s origin name password master) @ posted w) w"
proof (rule wpre_mono [OF unlock_talks], elim exE conjE)
  fix r w' ps
  assume sent: "posted w' = ps @ posted w" and talk: "unlock_talk Ec origin ca name pw mk w ps (r = Inr ())"
  obtain a1 a2 a3 x where as: "as = [a1, a2, a3]" and x: "se_CSRF x = token_at E (Suc (draws s))"
      "\<And>rs. answered (session_reply Ec) (a1 # rs) x \<and> jar_after [] (a1 # rs) = [(''ssm_session'', token_at E (draws s))]"
      "\<And>rs cs. answered any_value (a2 # rs) () \<and> jar_after cs (a2 # rs) = cs"
    using unlock_answers [OF link short server] by blast
  from talk show "r = Inr () \<and> posted w' = rev (unlock_posts E s origin name password master) @ posted w"
  proof cases
    case silent
    then show ?thesis using client(1) by simp
  next
    case refused
    then show ?thesis using x(2) by (auto simp: replies as)
  next
    case (admitted password' master' x' cookies us later ls)
    have same: "password' = password" "master' = master"
      using credential_unique [OF admitted(3) client(2)] credential_unique [OF admitted(4) client(3)] by simp_all
    have x': "x' = x" using admitted(5) x(2) by (auto simp: replies as answered_def)
    have "smooth w" using client(1) by (simp add: ready_def)
    then show ?thesis
      using admitted(1,6-10) client(4) x sent by (simp add: replies as same x' unlock_posts_def Let_def)
  qed
qed

text \<open>C10: Unlocking works, under the conditions listed here. The client's machine has no fault, the
  origin is an HTTPS URL its libraries parse, the CA file is absent or can be read and holds a
  certificate, and the password of an administrator and the master key are in private files.
  The server meets no fault and no other request in between, has seen at most 28 attempts in its
  minute, and answers the three posts in less time than a session lasts (\<open>brisk\<close>); each post is
  within 2 MiB; and its answer to the login, which repeats the administrator's name, has at most
  the 4096 bytes the client reads, with a time the client can parse (\<open>legible\<close>; an
  administrator with a very long name cannot unlock this way). Then the client posts the
  login, the unlocking with the tokens the server drew, and the logout; it succeeds, the server
  ends with exactly the key the master key unwraps in its vault, and the session it used is
  gone.\<close>

theorem unlock_succeeds:
  assumes client: "ready Ec origin ca pw mk w" "credential Ec w pw password" "credential Ec w mk master"
      "\<And>path. parse_url Ec (post_url origin path) \<noteq> None"
    and replies: "post_replies w = as @ rs"
    and link: "door_origin l = strip_slashes origin" "converse E l (unlock_posts E s origin name password master) s = (as, s')"
    and short: "\<forall>p \<in> set (unlock_posts E s origin name password master). length (po_Body p) \<le> 2 * 1024 * 1024"
    and server: "openable E s (text_of name) (text_of password) (text_of master) k" "brisk E (ticks s)"
      "legible Ec E (door_stamp l) s (text_of name)"
  shows "wpre (unlockServer Ec origin ca name pw mk) (\<lambda>r w'. r = Inr () \<and>
      posted w' = rev (unlock_posts E s origin name password master) @ posted w) w \<and>
    Vault s' = k \<and> map_of (rows s') (Key ''sessions'' (Hash E (token_at E (draws s)))) = None"
  using unlock_works [OF assms] unlock_answers [OF link short server] by blast

text \<open>C9: Success means an open vault. Whenever the unlock client reports success and its answers
  were those of this server, however the machine and the server fared otherwise, the files it
  read were private, they hold the password of an administrator of the server and a master
  key that unwraps the stored envelope, and the server's vault holds the unwrapped key; the
  strings go through JSON, which makes them UTF-8.\<close>

theorem unlock_opens_vault:
  assumes run: "unlockServer Ec origin ca name pw mk w = (Inr (), w')" and sent: "posted w' = ps @ posted w"
    and link: "door_origin l = strip_slashes origin" "talked_to E l s ps w s'"
    and short: "\<forall>p \<in> set ps. length (po_Body p) \<le> 2 * 1024 * 1024"
  shows "\<exists>password master en. credential Ec w pw password \<and> credential Ec w mk master \<and>
    password_holder E s \<lparr>cr_Name = text_of name, cr_Password = text_of password\<rparr> \<noteq> None \<and>
    map_of (rows s) (Key ''config'' ''envelope'') = Some (DEnvelope en) \<and> Unwrap E (text_of master) en = Inr (Vault s')"
  using assms by (rule unlocked_vault)

section \<open>A concrete conversation\<close>

definition demo_command_env :: command_env where
  "demo_command_env = agent_env.extend (demo_agent_env
     \<lparr>parse_url := (\<lambda>u. Some \<lparr>u_Scheme = ''https'', u_Host = ''ssm'', u_User = None, u_Path = [], u_RawQuery = [], u_Fragment = []\<rparr>),
      pem_ok := (\<lambda>b. b = ''pem'')\<rparr>)
     \<lparr>yaml_server_config = (\<lambda>c b. Some c), parse_time = (\<lambda>b. Some 0)\<rparr>"

definition demo_master :: string where
  "demo_master = replicate 16 CHR ''m''"

definition demo_machine :: "post_reply list \<Rightarrow> machine" where
  "demo_machine rs = \<lparr>nodes = map_of
       [(0, demo_dir [(''pw'', 1), (''mk'', 2), (''ca'', 3)]),
        (1, Reg \<lparr>f_data = Bytes (''pw'' @ [CHR 0x0A]), f_mode = 384, f_uid = 0, f_gid = 0, f_synced = True\<rparr>),
        (2, Reg \<lparr>f_data = Bytes demo_master, f_mode = 384, f_uid = 0, f_gid = 0, f_synced = True\<rparr>),
        (3, Reg \<lparr>f_data = Bytes ''pem'', f_mode = 420, f_uid = 0, f_gid = 0, f_synced = True\<rparr>)],
     next_ino = 4, outcomes = [], crashed = False, drawn = 0,
     database = \<lparr>rows = [], faults = [], tables = [], versions = [], mutex = [], handles = 0, pragmas = [], max_conns = 0\<rparr>, m_draws = 0, m_ticks = 0,
     arriving = [], listening = Signalled, jar = [], post_replies = rs, posted = []\<rparr>"

definition demo_envelope :: envelope where
  "demo_envelope = projr (fst (NewEnvelope demo_senv demo_master 0))"

definition demo_locked :: server where
  "demo_locked = (demo_state [(Key ''admins'' ''root'', DAdmin \<lparr>ad_Name = ''root'', ad_Password = ''$pw''\<rparr>),
      (Key ''config'' ''envelope'', DEnvelope demo_envelope)])\<lparr>Vault := []\<rparr>"

definition demo_door :: door where
  "demo_door = \<lparr>door_origin = ''https://ssm'', door_remote = ''10.0.0.1:4000'', door_stamp = (\<lambda>t. ''0''), door_stream = demo_stream\<rparr>"

definition demo_posts :: "post list" where
  "demo_posts = unlock_posts demo_senv demo_locked ''https://ssm'' ''root'' ''pw'' demo_master"

lemma demo_private: "credential demo_command_env (demo_machine rs) ''/pw'' ''pw''"
    "credential demo_command_env (demo_machine rs) ''/mk'' demo_master"
  by (auto simp: credential_def node_at_def locate_def demo_machine_def demo_dir_def IsAbs_def HasPrefix_def TrimRight_lines_def demo_master_def)

lemma demo_ca: "ca_usable demo_command_env ''/ca'' (demo_machine rs)"
  by (auto simp: ca_usable_def node_at_def locate_def demo_machine_def demo_dir_def IsAbs_def HasPrefix_def
      demo_command_env_def agent_env.defs)

lemma demo_ready: "ready demo_command_env ''https://ssm'' ''/ca'' ''/pw'' ''/mk'' (demo_machine rs)"
    "parse_url demo_command_env u \<noteq> None"
  using demo_private [of rs] demo_ca [of rs]
  by (auto simp: ready_def smooth_def demo_machine_def HasPrefix_def demo_command_env_def agent_env.defs)

lemma demo_master_text: "text_of demo_master = demo_master"
  by (rule text_of_digits) (simp add: demo_master_def b64_digits_def)

lemma demo_openable: "openable demo_senv demo_locked (text_of ''root'') (text_of ''pw'') (text_of demo_master)
    (map (entropy demo_senv 0) [0..<32])"
proof -
  let ?dek = "map (entropy demo_senv 0) [0..<32]"
  obtain en j where w: "Wrap demo_senv demo_master ?dek (Suc 0) = (Inr en, j)"
    using Wrap_succeeds [OF demo_senv_scrypt, of demo_master ?dek "Suc 0"] by (auto simp: demo_master_def)
  then have "demo_envelope = en" by (simp add: demo_envelope_def NewEnvelope_def andthen_def rand_read_def)
  with Unwrap_Wrap [OF demo_senv_gcm demo_senv_scrypt w] have "Unwrap demo_senv demo_master demo_envelope = Inr ?dek" by simp
  then show ?thesis
    by (simp add: demo_master_text openable_def demo_locked_def password_holder_def text_of_ascii demo_senv_def demo_env_def env.defs)
qed

lemma demo_brisk: "brisk demo_senv n"
  by (auto simp: brisk_def demo_senv_def demo_env_def env.defs second_ns_def)

lemma demo_legible: "legible demo_command_env demo_senv (door_stamp demo_door) demo_locked (text_of ''root'')"
proof -
  have "length (marshal_chars (Hash demo_senv (token_at demo_senv 0))) \<le> 600" "length (marshal_chars (token_at demo_senv 1)) \<le> 600"
    using marshal_length [of "Hash demo_senv (token_at demo_senv 0)"] marshal_length [of "token_at demo_senv 1"]
    by (simp_all add: Hash_def length_hex_encode length_token_at demo_senv_def demo_env_def env.defs)
  then have "length (body_bytes (door_stamp demo_door) (JReply (RSession (login_session demo_senv demo_locked (text_of ''root'') i)))) \<le> 4096" for i
    by (simp add: login_session_def demo_door_def body_bytes_def reply_json_def session_json_def demo_locked_def text_of_ascii
        marshal_object_def marshal_string_def escape_ascii_def short_escapes_def)
  then show ?thesis by (simp add: legible_def demo_command_env_def agent_env.defs)
qed

lemma demo_posts_short: "\<forall>p \<in> set demo_posts. length (po_Body p) \<le> 2 * 1024 * 1024"
proof -
  have "length (marshal_object (string_members [(''name'', ''root''), (''password'', ''pw'')])) \<le> 1000"
      "length (marshal_object (string_members [(''master'', demo_master)])) \<le> 1000"
      "length (marshal_object (string_members [])) \<le> 1000"
    by code_simp+
  then show ?thesis by (simp add: demo_posts_def unlock_posts_def api_post_def Let_def)
qed

text \<open>The server's answers to the three posts, and the server after them.\<close>

definition demo_exchange :: "post_reply list \<times> server" where
  "demo_exchange = converse demo_senv demo_door demo_posts demo_locked"

lemma converse_length: "length (fst (converse E l ps s)) = length ps"
  by (induction ps arbitrary: s) (simp_all split: prod.split, metis fst_conv)

lemma demo_link: "door_origin demo_door = strip_slashes ''https://ssm''"
  "converse demo_senv demo_door (unlock_posts demo_senv demo_locked ''https://ssm'' ''root'' ''pw'' demo_master) demo_locked =
     (fst demo_exchange, snd demo_exchange)"
  by code_simp (simp add: demo_exchange_def demo_posts_def)

lemma demo_replies: "post_replies (demo_machine rs) = rs @ []"
  by (simp add: demo_machine_def)

lemma unlock_succeeds_witness:
  "fst (unlockServer demo_command_env ''https://ssm'' ''/ca'' ''root'' ''/pw'' ''/mk'' (demo_machine (fst demo_exchange))) = Inr () \<and>
   Vault (snd demo_exchange) = map (entropy demo_senv 0) [0..<32]"
  using unlock_succeeds [OF demo_ready(1) demo_private demo_ready(2) demo_replies demo_link demo_posts_short [unfolded demo_posts_def]
      demo_openable demo_brisk demo_legible]
  by (simp add: wpre_def)

lemma unlock_opens_vault_witness:
  "\<exists>en. map_of (rows demo_locked) (Key ''config'' ''envelope'') = Some (DEnvelope en) \<and>
     Unwrap demo_senv demo_master en = Inr (Vault (snd demo_exchange))"
proof -
  let ?w = "demo_machine (fst demo_exchange)"
  have "wpre (unlockServer demo_command_env ''https://ssm'' ''/ca'' ''root'' ''/pw'' ''/mk'') (\<lambda>r w'. r = Inr () \<and>
      posted w' = rev demo_posts @ posted ?w) ?w"
    using unlock_works [OF demo_ready(1) demo_private demo_ready(2) demo_replies demo_link demo_posts_short [unfolded demo_posts_def]
      demo_openable demo_brisk demo_legible]
    by (simp add: demo_posts_def)
  then obtain w' where run: "unlockServer demo_command_env ''https://ssm'' ''/ca'' ''root'' ''/pw'' ''/mk'' ?w = (Inr (), w')"
      "posted w' = rev demo_posts @ posted ?w"
    by (cases "unlockServer demo_command_env ''https://ssm'' ''/ca'' ''root'' ''/pw'' ''/mk'' ?w") (simp add: wpre_def)
  have "length (fst demo_exchange) = length demo_posts" by (simp add: demo_exchange_def converse_length)
  then have "talked_to demo_senv demo_door demo_locked (rev demo_posts) ?w (snd demo_exchange)"
    by (simp add: talked_to_def demo_machine_def demo_exchange_def)
  from unlock_opens_vault [OF run demo_link(1) this] demo_posts_short obtain master en where
    "credential demo_command_env ?w ''/mk'' master" "map_of (rows demo_locked) (Key ''config'' ''envelope'') = Some (DEnvelope en)"
    "Unwrap demo_senv (text_of master) en = Inr (Vault (snd demo_exchange))"
    by auto
  moreover from this(1) have "master = demo_master" by (rule credential_unique) (rule demo_private)
  ultimately show ?thesis by (auto simp: demo_master_text)
qed

end
