(* ===== verification/Enrollment.thy ===== *)
theory Enrollment
  imports Unlockable
begin

text \<open>
  Enrolling, from end to end: the agent's \<open>Enroll\<close> sends its token to \<open>ServeHTTP\<close>, and what the
  agent ends up with on its disk and in its memory is a credential the server accepts.
\<close>

section \<open>The server's side\<close>

text \<open>The request the call to enroll becomes.\<close>

definition enroll_request :: "link \<Rightarrow> string \<Rightarrow> request" where
  "enroll_request l token =
     \<lparr>Method = ''POST'', UrlPath = ''/api/v1/enroll'', UsesTLS = True, HostName = TrimPrefix (at_origin l) ''https://'',
      Headers = [], Cookies = [], RemoteAddr = at_remote l, Body = marshal_object (string_members [(''token'', token)])\<rparr>"

lemma request_of_enroll:
  assumes "cf_Server (Cfg w) = at_origin l" and "cr_Token (Credentials w) = []"
  shows "request_of (at_origin l) (at_remote l) (enroll_call w) = Some (enroll_request l (cf_EnrollmentToken (Cfg w)))"
  using plain_path [of "''/api/v1/enroll''"] assms
  by (simp add: request_of_def enroll_call_def call_of_def api_url_def enroll_request_def HasPrefix_def del: PathUnescape.simps)

lemma enroll_request_api: "api_request (enroll_request l token)"
  by (simp add: enroll_request_def api_request_def public_page_def cross_origin_def header_def)

lemma enroll_body:
  assumes "length (marshal_object (string_members [(''token'', token)])) \<le> 2 * 1024 * 1024"
  shows "enrollment_token_of (enroll_request l token) = Inr (text_of token)"
proof -
  have "json_next [] = JEnd" by (simp add: json_next_JEnd skip_def)
  moreover have "Body (enroll_request l token) = marshal_object (string_members [(''token'', token)])"
    by (simp add: enroll_request_def)
  ultimately show ?thesis
    using assms body_read [of "[(''token'', token)]"]
    by (simp add: enrollment_token_of_def decode_def decode_bytes_def into_struct_def string_struct_def field_def names_def
        no_field_def set_string_def text_of_ascii)
qed

text \<open>What a call to enroll that was answered 200 has done.\<close>

definition joined :: "senv \<Rightarrow> server \<Rightarrow> string \<Rightarrow> enrollment \<Rightarrow> agent \<Rightarrow> server \<Rightarrow> bool" where
  "joined E s token en a s' \<longleftrightarrow> enrollable E s (text_of token) = Some (en, a) \<and> (\<exists>t \<ge> ticks s. clock E t < en_Expires en) \<and>
     (\<forall>kd i. kd \<noteq> ''audit'' \<longrightarrow> map_of (rows s') (Key kd i) = map_of (enrolled_rows E (token_at E (draws s)) en a (rows s)) (Key kd i))"

text \<open>No refusal of the endpoint has the status of a success.\<close>

definition refuses :: "('s, 't) proc \<Rightarrow> bool" where
  "refuses m \<longleftrightarrow> (\<forall>w e w'. m w = (Inl e, w') \<longrightarrow> status e \<noteq> 200)"

lemma refuses_andthen: "refuses m \<Longrightarrow> (\<And>x. refuses (k x)) \<Longrightarrow> refuses (andthen m k)"
  by (fastforce simp: refuses_def andthen_def split: prod.splits sum.splits)

lemma refuses_attempt: "refuses (attempt m)"
  by (simp add: refuses_def attempt_def split: prod.splits)

lemma refuses_throw: "status e \<noteq> 200 \<Longrightarrow> refuses (throw e)"
  by (simp add: refuses_def throw_def)

lemma refuses_wpre: "(\<And>w. wpre m (\<lambda>x w'. case x of Inl e \<Rightarrow> status e \<noteq> 200 | Inr v \<Rightarrow> True) w) \<Longrightarrow> refuses m"
  unfolding refuses_def by (fastforce dest: wpreD)

lemma refuses_choice:
  "refuses a \<Longrightarrow> refuses b \<Longrightarrow> refuses (if c then a else b)"
  "(\<And>e. refuses (f e)) \<Longrightarrow> (\<And>x. refuses (g x)) \<Longrightarrow> refuses (case y of Inl e \<Rightarrow> f e | Inr x \<Rightarrow> g x)"
  by (simp_all split: sum.split)

lemma refuses_parts: "refuses (now E)" "refuses (fresh_token E)" "refuses (set_identity x)" "refuses (tx_Put kd i d)"
  "refuses (ok v)" "refuses (limit E)" "refuses (lift (Inr x))"
  by (rule refuses_wpre, simp add: wp wpre_limit driver_error_def json_error_def)+

lemma h_enroll_refuses: "enrollment_token_of r = Inr token \<Longrightarrow> refuses (h_enroll E r)"
  unfolding h_enroll_def limited_def Let_def enrollment_token_of_def
  by (erule ssubst)
     (intro refuses_andthen refuses_choice refuses_attempt refuses_throw refuses_parts refusals_not_200 | simp add: status_def)+

lemma enroll_served:
  assumes "length (marshal_object (string_members [(''token'', token)])) \<le> 2 * 1024 * 1024"
    and run: "ServeHTTP E dl (enroll_request l token) s = (Inr res, s')" "re_Status res = 200"
  shows "\<exists>en a. re_Body res = JReply (REnrolled (ag_ID a) (token_at E (draws s))) \<and> joined E s token en a s'"
proof -
  let ?r = "enroll_request l token"
  have route: "route E ?r = h_enroll E ?r" by (simp add: route_def enroll_request_def)
  have refused: "status e \<noteq> 200" if "Update (route E ?r) w = (Inl e, w1)" for e w w1
  proof -
    have "refuses (h_enroll E ?r)" by (rule h_enroll_refuses [OF enroll_body [OF assms(1)]])
    moreover have "status driver_error \<noteq> 200" by (simp add: driver_error_def)
    ultimately show ?thesis using Update_error [OF that] unfolding route refuses_def by blast
  qed
  have "wpre (ServeHTTP E dl ?r) (\<lambda>x s'. case x of Inl e \<Rightarrow> False | Inr res \<Rightarrow> re_Status res = 200 \<longrightarrow>
      (\<exists>en a. re_Body res = JReply (REnrolled (ag_ID a) (token_at E (draws s))) \<and> joined E s token en a s')) s"
    unfolding ServeHTTP_api [OF enroll_request_api]
  proof (rule serve_api_cases [OF refl], goal_cases)
    case (1 e w1 a w2)
    with refused show ?case by (auto simp: error_status split: sum.split)
  next
    case (3 v ck w1 w2)
    let ?w = "after_stmt (after_stmt (s\<lparr>identity := ''anonymous'', apath := []\<rparr>))"
    obtain w' where w': "h_enroll E ?r ?w = (Inr (v, 200, ck), w')" "w1 = after_stmt w'"
      using Update_Inr [OF 3(1)] by (auto simp: route)
    have start: "rows ?w = rows s" "ticks ?w = ticks s" "draws ?w = draws s" by (simp_all add: after_stmt_def)
    obtain en a where "enrollable E s (text_of token) = Some (en, a)" "v = REnrolled (ag_ID a) (token_at E (draws s))"
      "\<exists>t \<ge> ticks s. clock E t < en_Expires en" "rows w' = enrolled_rows E (token_at E (draws s)) en a (rows s)"
      using h_enroll_effect [OF w'(1), unfolded enrollable_def start, folded enrollable_def]
      by (auto simp: enroll_body [OF assms(1)] split: option.splits)
    moreover have "same_outside {''audit''} w' w2"
      using stepsD [OF record_audit_frame 3(2)] w'(2) by (simp add: same_outside_def)
    ultimately show ?case by (auto simp: write_json_def joined_def same_outside_def)
  next
    case (4 ck w1 w2 res)
    then show ?case by (simp add: enroll_request_def)
  qed (simp add: error_status)
  with run show ?thesis by (simp add: wpre_def)
qed

section \<open>The agent's side\<close>

lemma enrolled_read_back:
  assumes "length (body_bytes stamp (JReply (REnrolled i token))) \<le> 3 * 1024 * 1024"
  shows "decode_answer (body_bytes stamp (JReply (REnrolled i token))) credentials_fields zero_credentials =
    Inr \<lparr>cr_ID = text_of i, cr_Token = text_of token\<rparr>"
  unfolding decode_answer_def take_all [OF assms] reply_read
  by (simp add: reply_json_def text_of_ascii into_struct_def credentials_fields_def field_def names_def skip_field_def
      set_string_def zero_credentials_def)

text \<open>The credential of a successful \<open>Enroll\<close> is what it decodes from the one answer it got.\<close>

lemma Enroll_reads:
  assumes "unused_above w" and "IsAbs (cf_StateDir (Cfg w))" and "cr_Token (Credentials w) = []"
    and run: "Enroll E w = (Inr (), w')"
  shows "\<exists>b rs. replies w = Answer 200 b # rs \<and>
    decode_answer b credentials_fields zero_credentials = Inr (Credentials w')"
proof -
  have token: "cf_EnrollmentToken (Cfg w) \<noteq> []"
    using wpreD [OF wpre_Enroll [OF assms(1-3)] run] by (simp add: enrolled_def)
  have "wpre (Enroll E) (\<lambda>r w'. r = Inr () \<longrightarrow> (\<exists>b rs. replies w = Answer 200 b # rs \<and>
      decode_answer b credentials_fields zero_credentials = Inr (Credentials w'))) w"
    unfolding Enroll_def wpre_andthen [of "gets _"] wpre_gets sum.case
    using assms(3) token
  proof (simp only: not_True_eq_False if_False if_True simp_thms wpre_andthen [of "agent_request _ _ _ _ _"], goal_cases)
    case 1
    show ?case
    proof (rule wpre_agent_request, goal_cases)
      case (1 c b rs w1)
      show ?case
      proof (cases "cr_ID c = [] \<or> cr_Token c = []")
        case True
        then show ?thesis by (simp add: wp)
      next
        case False
        show ?thesis
          unfolding sum.case if_not_P [OF False] wpre_andthen wpre_on_error
          by (rule wpreI) (use 1 in \<open>auto simp: wp split: sum.splits\<close>)
      qed
    qed simp
  qed
  from wpreD [OF this run] show ?thesis by simp
qed

lemma bearer_read:
  assumes "Headers r = [(''Authorization'', ''Bearer '' @ token)]" and "token \<noteq> []"
  shows "bearer_token r = Some token"
  using get_request_token [OF assms(2), of "[]" "[]" "[]"] assms(1)
  by (simp add: bearer_token_def get_request_def header_def Let_def)

text \<open>A later call of the agent carries its token.\<close>

lemma call_token:
  assumes "cr_Token (Credentials w) \<noteq> []" and "request_of origin remote (call_of path verb payload w) = Some r"
  shows "bearer_token r = Some (cr_Token (Credentials w))"
proof -
  have "Headers r = [(''Authorization'', ''Bearer '' @ cr_Token (Credentials w))]"
    using assms by (auto simp: request_of_def call_of_def split: if_splits)
  then show ?thesis using assms(1) by (rule bearer_read)
qed

section \<open>Enrolling works\<close>

text \<open>C21: Enrolling gives the agent a credential its server accepts. When \<open>Enroll\<close> succeeds on a machine
  without a credential, and the next answer the machine gets is the one \<open>ServeHTTP\<close> gives to the agent's
  call (a body within the 2 MiB the server reads, an answer within the 3 MiB the agent reads; the
  server and the machine may fail in any way), then the enrollment token of the
  configuration, made UTF-8, was unused and unexpired at the server and named an agent that was neither enrolled nor
  revoked; the agent now holds the identifier of that agent and the token the server drew, both
  in memory and in the synced file \<open>credentials.json\<close> of mode 0600, and has forgotten the
  enrollment token; in the state the server is left in, every call the agent makes from now on
  authenticates as that agent; and the enrollment token cannot be used again.\<close>

theorem enrollment_works:
  assumes agent: "unused_above w" "IsAbs (cf_StateDir (Cfg w))" "cr_Token (Credentials w) = []"
    and run: "Enroll Ea w = (Inr (), w')"
    and link: "cf_Server (Cfg w) = at_origin l" "answer E l (enroll_call w) s = (reply, s')" "replies w = reply # rs"
    and short: "length (ac_Body (enroll_call w)) \<le> 2 * 1024 * 1024" "fits reply"
    and server: "well_stored (rows s)"
  shows "\<exists>en a token. enrollable E s (text_of (cf_EnrollmentToken (Cfg w))) = Some (en, a) \<and>
    (\<exists>t \<ge> ticks s. clock E t < en_Expires en) \<and>
    Credentials w' = \<lparr>cr_ID = text_of (ag_ID a), cr_Token = token\<rparr> \<and> token = token_at E (draws s) \<and>
    synced_at (nodes w') (state_file (Cfg w) ''credentials.json'')
      (published (new_file Ea) (CredentialsFile \<lparr>cr_ID = text_of (ag_ID a), cr_Token = token\<rparr>) 384 (- 1) (- 1)) \<and>
    cf_EnrollmentToken (Cfg w') = [] \<and>
    (\<forall>path verb payload r. request_of (at_origin l) (at_remote l) (call_of path verb payload w') = Some r \<longrightarrow>
       agent_holder E s' r = Some (a\<lparr>ag_Hash := Hash E token\<rparr>)) \<and>
    enrollable E s' (text_of (cf_EnrollmentToken (Cfg w))) = None"
proof -
  let ?joining = "cf_EnrollmentToken (Cfg w)" and ?token = "token_at E (draws s)"
  have done_: "enrolled Ea w (Inr ()) w'" by (rule wpreD [OF wpre_Enroll [OF agent] run])
  obtain b where b: "reply = Answer 200 b" "decode_answer b credentials_fields zero_credentials = Inr (Credentials w')"
    using Enroll_reads [OF agent run] link(3) by auto
  have small: "length (marshal_object (string_members [(''token'', ?joining)])) \<le> 2 * 1024 * 1024"
    using short(1) by (simp add: enroll_call_def call_of_def)
  obtain res where res: "ServeHTTP E (at_stream l) (enroll_request l ?joining) s = (Inr res, s')" "re_Status res = 200"
      "b = body_bytes (at_stamp l) (re_Body res)"
    using link(2) unfolding answer_def request_of_enroll [OF link(1) agent(3)] b(1)
    by (auto split: prod.splits sum.splits)
  obtain en a where body: "re_Body res = JReply (REnrolled (ag_ID a) ?token)" and j: "joined E s ?joining en a s'"
    using enroll_served [OF small res(1,2)] by blast
  have credentials: "Credentials w' = \<lparr>cr_ID = text_of (ag_ID a), cr_Token = ?token\<rparr>"
    using enrolled_read_back [of "at_stamp l" "ag_ID a" ?token] b short(2) by (simp add: res(3) body text_of_token)
  have own: "en_Hash en = Hash E (text_of ?joining)"
    using j by (auto simp: joined_def enrollable_Some dest: well_storedD [OF server])
  have rows': "map_of (rows s') (Key ''enrollment'' (Hash E (text_of ?joining))) = Some (DEnrollment (en\<lparr>en_Used := True\<rparr>))"
      "map_of (rows s') (Key ''agents'' (ag_ID a)) = Some (DAgent (a\<lparr>ag_Hash := Hash E ?token\<rparr>))"
      "map_of (rows s') (Key ''credentials'' (Hash E ?token)) = Some (DIndex (ag_ID a))"
    using j own by (auto simp: joined_def enrolled_rows_def row_simps)
  have "agent_holder E s' r = Some (a\<lparr>ag_Hash := Hash E ?token\<rparr>)"
    if "request_of (at_origin l) (at_remote l) (call_of path verb payload w') = Some r" for path verb payload r
    using call_token [OF _ that] done_ credentials rows' j by (auto simp: enrolled_def holds_Some joined_def enrollable_Some as_defs)
  then show ?thesis
    using done_ credentials j rows'(1)
    by (intro exI [of _ en] exI [of _ a] exI [of _ ?token]) (auto simp: enrolled_def joined_def enrollable_def)
qed

text \<open>A machine that enrolls with the token \<open>x\<close> at the concrete server.\<close>

definition demo_server :: server where
  "demo_server = demo_state demo_unenrolled"

definition demo_newcomer :: "server_reply list \<Rightarrow> agent_world" where
  "demo_newcomer rs = (demo_agent_world rs [])\<lparr>Credentials := zero_credentials, Cfg := demo_config\<lparr>cf_EnrollmentToken := ''x''\<rparr>\<rparr>"

definition demo_joined :: body where
  "demo_joined = JReply (REnrolled ''a1'' (token_at demo_senv 0))"

definition demo_after :: server where
  "demo_after = snd (answer demo_senv demo_link (enroll_call (demo_newcomer [])) demo_server)"

lemma demo_newcomer_simps [simp]:
  "cr_Token (Credentials (demo_newcomer rs)) = []" "cf_EnrollmentToken (Cfg (demo_newcomer rs)) = ''x''"
  "cf_Server (Cfg (demo_newcomer rs)) = at_origin demo_link" "IsAbs (cf_StateDir (Cfg (demo_newcomer rs)))"
  "unused_above (demo_newcomer rs)" "replies (demo_newcomer rs) = rs"
proof -
  show "unused_above (demo_newcomer rs)"
    using demo_agent_unused by (simp add: demo_newcomer_def unused_above_def)
  show "IsAbs (cf_StateDir (Cfg (demo_newcomer rs)))" by (simp add: demo_newcomer_def demo_config_def IsAbs_def HasPrefix_def)
qed (simp_all add: demo_newcomer_def zero_credentials_def demo_link_def demo_config_def demo_agent_world_def)

lemma demo_same_call: "enroll_call (demo_newcomer rs) = enroll_call (demo_newcomer [])"
  by (simp add: demo_newcomer_def demo_agent_world_def enroll_call_def call_of_def)

lemma demo_call_short: "length (ac_Body (enroll_call (demo_newcomer []))) \<le> 1000"
proof -
  have "length (marshal_object [(''token'', marshal_string ''x'')]) \<le> 1000" by code_simp
  then show ?thesis by (simp add: enroll_call_def call_of_def demo_newcomer_def)
qed

lemma demo_served_enroll:
  "answer demo_senv demo_link (enroll_call (demo_newcomer [])) demo_server =
     (Answer 200 (body_bytes (at_stamp demo_link) demo_joined), demo_after)"
proof -
  let ?r = "enroll_request demo_link ''x''" and ?s = "demo_state demo_unenrolled"
  have "length (marshal_object [(''token'', marshal_string ''x'')]) \<le> 1000" by code_simp
  then have token: "enrollment_token_of ?r = Inr ''x''" using enroll_body [of "''x''"] by (simp add: text_of_ascii)
  have route: "route demo_senv ?r = h_enroll demo_senv ?r" by (simp add: route_def enroll_request_def)
  have "wpre (route demo_senv ?r) (\<lambda>x w. x = Inr (REnrolled ''a1'' (token_at demo_senv 0), 200, None) \<and> faults w = [] \<and> True) ?s"
    using token unfolding route
    by (simp add: h_enroll_def limited_def wpre_limit wp demo_unenrolled_def
       enrollment_token_of_def demo_agent_def demo_clock second_ns_def as_defs)
  moreover have "?s\<lparr>identity := ''anonymous'', apath := []\<rparr> = ?s" by (simp add: demo_state_def)
  ultimately have "wpre (route demo_senv ?r) (\<lambda>x w. x = Inr (REnrolled ''a1'' (token_at demo_senv 0), 200, None) \<and> faults w = [] \<and> True)
      (?s\<lparr>identity := ''anonymous'', apath := []\<rparr>)" by simp
  from served_did [OF enroll_request_api _ _ this, of "at_stream demo_link"]
  have "wpre (ServeHTTP demo_senv (at_stream demo_link) ?r) (\<lambda>x s'. x = Inr ((write_json tls_headers 200 demo_joined)\<lparr>re_Cookie := None\<rparr>)) demo_server"
    by (simp add: demo_server_def demo_joined_def wpre_def)
  moreover have "request_of (at_origin demo_link) (at_remote demo_link) (enroll_call (demo_newcomer [])) = Some ?r"
    using request_of_enroll [of "demo_newcomer []" demo_link] by simp
  ultimately show ?thesis
    by (cases "ServeHTTP demo_senv (at_stream demo_link) ?r demo_server") (simp add: demo_after_def answer_def wpre_def write_json_def)
qed

lemma demo_joined_read:
  "length (body_bytes (at_stamp demo_link) demo_joined) \<le> 4096"
  "decode_answer (body_bytes (at_stamp demo_link) demo_joined) credentials_fields zero_credentials =
     Inr \<lparr>cr_ID = ''a1'', cr_Token = token_at demo_senv 0\<rparr>"
proof -
  have "length (marshal_chars (token_at demo_senv 0)) \<le> 600"
    using marshal_length [of "token_at demo_senv 0"] by (simp add: length_token_at)
  then show short: "length (body_bytes (at_stamp demo_link) demo_joined) \<le> 4096"
    by (simp add: demo_joined_def body_bytes_def reply_json_def text_of_ascii
        marshal_object_def marshal_string_def escape_ascii_def short_escapes_def)
  show "decode_answer (body_bytes (at_stamp demo_link) demo_joined) credentials_fields zero_credentials =
     Inr \<lparr>cr_ID = ''a1'', cr_Token = token_at demo_senv 0\<rparr>"
    using enrolled_read_back [of "at_stamp demo_link" "''a1''" "token_at demo_senv 0"] short
    by (simp add: demo_joined_def text_of_token text_of_ascii)
qed

lemma demo_enrolls:
  obtains w' where "Enroll demo_agent_env (demo_newcomer [Answer 200 (body_bytes (at_stamp demo_link) demo_joined)]) = (Inr (), w')"
proof -
  let ?w = "demo_newcomer [Answer 200 (body_bytes (at_stamp demo_link) demo_joined)]"
  have calm: "calm ?w" by (simp add: calm_def demo_newcomer_def demo_agent_world_def)
  have path: "state_file (Cfg ?w) ''credentials.json'' = ''/st/credentials.json''"
    by (simp add: demo_newcomer_def state_file_def demo_config_def) code_simp
  have ok: "demo_ok (?w\<lparr>sent := x, replies := []\<rparr>)" for x
    using demo_start [of "[Answer 200 (body_bytes (at_stamp demo_link) demo_joined)]"]
    by (simp add: demo_newcomer_def demo_ok_def calm_def unused_above_def cong: option.case_cong)
  have token: "token_at demo_senv 0 \<noteq> []" using length_token_at [of demo_senv 0] by auto
  have "wpre (Enroll demo_agent_env) (\<lambda>r w'. r = Inr ()) ?w"
    using token
    by (simp add: Enroll_def wp path wpre_calm_request [OF calm _ demo_joined_read(2)])
       (rule demo_write [where k = 2 and c = "''credentials.json''", OF ok], simp_all add: wp)
  then show thesis using that by (cases "Enroll demo_agent_env ?w") (simp add: wpre_def)
qed

lemma enrollment_works_witness:
  "\<exists>w'. Enroll demo_agent_env (demo_newcomer [Answer 200 (body_bytes (at_stamp demo_link) demo_joined)]) = (Inr (), w') \<and>
     Credentials w' = \<lparr>cr_ID = ''a1'', cr_Token = token_at demo_senv 0\<rparr> \<and> enrollable demo_senv demo_after ''x'' = None"
proof -
  let ?reply = "Answer 200 (body_bytes (at_stamp demo_link) demo_joined)"
  obtain w' where run: "Enroll demo_agent_env (demo_newcomer [?reply]) = (Inr (), w')" by (rule demo_enrolls)
  have "answer demo_senv demo_link (enroll_call (demo_newcomer [?reply])) demo_server = (?reply, demo_after)"
    by (subst demo_same_call) (rule demo_served_enroll)
  moreover have "length (ac_Body (enroll_call (demo_newcomer [?reply]))) \<le> 2 * 1024 * 1024" "fits ?reply"
    using demo_call_short demo_same_call [of "[?reply]"] demo_joined_read(1) by simp_all
  moreover have "well_stored (rows demo_server)" by (simp add: demo_server_def demo_stored)
  ultimately show ?thesis
    using enrollment_works [OF _ _ _ run, of demo_link demo_senv demo_server ?reply demo_after "[]"] run
    by (auto simp: demo_server_def demo_unenrolled_def demo_agent_def enrollable_def text_of_ascii)
qed

end
