(* ===== verification/Spec2Isabelle.thy ===== *)
theory Spec2Isabelle
  imports Wire AgentMain Disclosure Enrollment
begin

text \<open>
  SimpleSecretsManager keeps secrets in one server, encrypted in a database, and has agents
  that publish them as files. This library models both programs and proves what makes them
  correct. Every definition is translated from the Go source named in its theory; the names
  of the source are kept where Isabelle allows.

  The parts and their theories.

  Shared: Prelude has the error values, the procedures \<open>('s, 'a) proc\<close> (state to result and
  state, an \<open>Inl\<close> being Go's non-nil error), and four proof collections: \<open>wp\<close> (weakest
  preconditions, every outcome), \<open>did\<close> (what a successful run did), \<open>steps\<close> (relations every
  operation respects, derived through the locales \<open>step_relation\<close>, \<open>row_relation\<close>,
  \<open>host_relation\<close> and \<open>memory_relation\<close>), \<open>answers\<close> (what a procedure can return). GoStrings,
  Times, Json and Encode have the parts of Go's library the programs rest on: strings as byte
  lists, runes, times and their RFC 3339 text, reading and writing JSON, URL path segments.
  Wire and Marshal have the lemmas on reading what the programs write: path segments, objects of
  strings, whole JSON documents, with \<open>text_of\<close> for the UTF-8 replacement on the way.

  internal/security: Paths (\<open>Normalize\<close>, \<open>ValidateRules\<close>, \<open>Allowed\<close>) and Security (\<open>Token\<close>,
  \<open>Hash\<close>, \<open>Seal\<close>/\<open>Open\<close>, the master-key envelope, the vault).

  internal/storage: Storage and Opening. The table is an association list with the primary key
  as an invariant; each statement may meet a driver error, taken from a list of faults of the
  state that proofs quantify over. The locale \<open>record_store\<close> is what the server relies on;
  \<open>Update\<close> rolls back, \<open>Scan\<close> reads page by page while other connections commit, \<open>migrate\<close>
  prepares the schema, \<open>Open_store\<close> opens the handle, sets the connection up and migrates.

  internal/server: Models (documents, requests, replies, body decoding), Service (the state
  \<open>server\<close> a handler works on: rows, vault, limiter, audit identity, the positions in the
  random source and the clock), Auth, Secrets, Writers, Maintenance, Routes (one definition
  per endpoint, and \<open>route\<close>), Server (\<open>ServeHTTP\<close> with transport checks, transaction and
  audit; \<open>Setup\<close>), Replies (the JSON bytes of every answer). On top of these: Effects (which
  records an endpoint can change, which answers it has), Disclosure (which members the JSON of
  an answer can have), Access (who can do what), Lifecycle (invariants of all reachable states
  of the service), Accounts (login, enrollment, revocation), Requests (whole requests).

  internal/agent: Host is the machine (lexical path functions, integer parsers, a file system
  of inodes whose calls may fail or be cut short by a crash), Files is \<open>AtomicWrite\<close>, Agent is
  the rest of the package; its world logs each hook that was run with its arguments, its time
  limit and whether it succeeded. Confine shows what an agent may touch and which definitions
  a poll works on (\<open>polled\<close>), Journal and Reconcile in
  which order it publishes, records and runs hooks, Steady what it does when nothing fails,
  Startup how it starts and recovers from a crash, Polling what it asks for and that its loops
  end.

  cmd: AgentMain is the agent's command with the lock on its state directory, Walk how a path
  leads to a file there and stays there when files are added, ServerMain the
  server's command (credential files, configuration, offline setup, serving, and the client
  that unlocks a running server), Unlocking what that client posts and when.

  The programs together: Delivery links the agent's calls to \<open>ServeHTTP\<close>, Enrollment its call
  to enroll, Unlocked and Unlockable the posts of the unlock client; the answers go back as
  bytes.

  How they interact. The server's \<open>ServeHTTP\<close> runs \<open>route\<close> in one transaction of the store
  and the audit records in the next; handlers share the vault and the limiter. The agent
  sees the server only through status and body of its answers, and the disk only through the
  calls of Host: \<open>Sync\<close> calls \<open>Enroll\<close>, reads the definitions and runs \<open>syncOne\<close> on each in
  the order the map iteration gives; \<open>syncOne\<close> publishes with \<open>AtomicWrite\<close>, records with
  \<open>save\<close> (again \<open>AtomicWrite\<close>), and then runs the hook. The server's command opens the store,
  hands it to \<open>Setup\<close> or to a \<open>Server\<close> that serves the requests that arrive, and closes it.

  What the lemmas show. Paths, Security: authorization is by whole components, decryption
  inverts encryption, rewrapping keeps the data key. Storage, Opening: the statements refine a
  map; opening leaves no handle behind when it fails. Secrets: the handler refines an abstract
  store of values and revisions. Access, Accounts, Effects: nobody without credentials does
  anything, agents read and writers write within their grants only, tokens work once,
  revocation works at once. Disclosure: no ciphertext, hash or part of the envelope is in any
  answer, values and tokens only where they belong. Lifecycle, ServerMain: stored documents stay typed and in place and
  an administrator remains, over all requests and over every run of the command. Requests:
  failed requests change nothing but the audit log, and every request adds its two records to
  it without touching an earlier one. Files: a
  publication is atomic at every crash point. Confine, Reconcile, Steady, Startup: an agent
  changes only its state files and the destinations of the definitions it has read; its journal
  never claims more than is on disk, nor a hook that did not succeed; a failure keeps the old file and record or leaves the hook pending; polls converge and
  then do nothing; a restart after a crash loses nothing. Polling: the agent calls its server
  for the local definitions only and runs only their commands. AgentMain: the agent works under the
  lock of its state directory. Delivery: what an agent publishes is the value stored at the
  server. Enrollment: the credential an agent stores is one its server accepts. Unlocking,
  Unlocked, Unlockable: the unlock client gives its secrets to an HTTPS server only, the master
  key only within a session; its success means that the vault is open with the right key; and
  with the right secrets and no faults it succeeds and leaves no session.

  Bounds and fuel. Loops of the code are structural recursions or functions with a measure.
  The JSON reader has fuel, two units per byte, which \<open>reader_fuel\<close> shows to be enough. \<open>Scan\<close>
  and the agent's \<open>Run\<close> may go on for ever and are partial functions into option. Integers
  are \<open>64 word\<close> where they overflow (revisions, lifetimes), uid and gid are cut to 32 bits by
  the kernel's side of \<open>chown\<close>. The limits of the code on sizes are kept: 2 MiB of a request
  body, 3 MiB of an answer to the agent, 4096 bytes of one to the unlock client.

  Parameters, for code that is not in the repository: SHA-256, AES-GCM, scrypt, bcrypt, the
  random source and the clock (records \<open>env\<close> and \<open>senv\<close>, laws \<open>gcm_law\<close> and \<open>scrypt_law\<close>), the
  user database, YAML, \<open>url.Parse\<close>, \<open>time.ParseDuration\<close>, PEM, text/template and the order of
  a map iteration (records \<open>host_env\<close> and \<open>agent_env\<close>, law \<open>range_law\<close>), YAML of the server's
  configuration and \<open>time.Time.UnmarshalJSON\<close> (record \<open>command_env\<close>), the text of a time in the
  server's zone (\<open>stamp\<close>). The server's answers, the results of hooks, the outcome of every
  system call and the moment of cancellation are fields of the agent's world, the requests that
  arrive and the way the listener ends fields of the server's machine, so every theorem is
  about all of them.

  Not modelled, and why. Structured logging beyond the check of its level, and the overwriting
  of freed keys: no effect on any modelled state. TLS, connection handling, timeouts and
  redirects inside net/http: a call that fails there has no answer, a request that arrives
  carries whether it came over TLS. Of the cookie jar, the expiry of cookies and other hosts.
  Records are stored as typed documents rather than as their JSON bytes, and the agent's two
  state files hold typed contents, so encoding/json's replacement of invalid UTF-8 on the way
  to the database and to these files is left out; so is the difference between nil and empty
  slices, except for an agent's command. A Commit that fails is taken to have stored nothing,
  which a driver need not guarantee. Decoding a JSON number into \<open>any\<close> never fails in the model.
  The redirect to HTTPS has no body. Hooks have an outcome but no effect on the files of the
  model. The order of a map iteration is any, and a permutation only under \<open>range_law\<close>. Requests are atomic because the store hands its one connection to
  one transaction at a time; the streaming download, which is not in a transaction, is modelled
  with other requests in between. Other processes do not act between two system calls of the
  agent; a crash makes files not yet synced arbitrary (\<open>Torn\<close>) and keeps directory operations,
  so that the last fsync of a directory has no effect of its own; the umask is not modelled. What \<open>main\<close> does with the error of \<open>run\<close>, a log line and
  the exit status, and the version number are not modelled. The browser code of the user
  interface is not Go, its files are served as they are.
\<close>

end
